(* ===== verification/Prelude.thy ===== *)
theory Prelude
  imports Main "HOL-Library.Word"
begin

text \<open>
  Shared vocabulary of the development: the outcome of executing C code, the byte buffers
  that \<^verbatim>\<open>malloc\<close>, \<^verbatim>\<open>realloc\<close>, \<^verbatim>\<open>memcpy\<close> and \<^verbatim>\<open>memset\<close> work on, the part of the
  C library the sources use (\<^verbatim>\<open>strlen\<close>, \<^verbatim>\<open>strcmp\<close>, \<^verbatim>\<open>atoi\<close>), C integer conversions, decimal
  notation, and a locale for invariants of transition systems.
\<close>

section \<open>Outcomes\<close>

text \<open>
  A C function either yields a value or runs into behaviour the C standard leaves
  undefined; the fault says which. \<open>Diverges\<close> marks a loop that never ends. A pointer that
  may be null is an \<open>option\<close>; dereferencing \<open>None\<close> is a \<open>NullPointer\<close> fault. Allocation
  is taken to succeed.
\<close>

datatype fault = NullPointer | DanglingPointer | OutOfBounds | IntegerOverflow | Diverges

type_synonym 'a exec = "fault + 'a"

definition bnd :: "'a exec \<Rightarrow> ('a \<Rightarrow> 'b exec) \<Rightarrow> 'b exec" where
  "bnd m f = (case m of Inl e \<Rightarrow> Inl e | Inr x \<Rightarrow> f x)"

definition deref :: "'a option \<Rightarrow> 'a exec" where
  "deref p = (case p of None \<Rightarrow> Inl NullPointer | Some x \<Rightarrow> Inr x)"

named_theorems exec_simps "evaluation of outcomes"

lemma bnd_Inr [simp, exec_simps]: "bnd (Inr x) f = f x"
  by (simp add: bnd_def)

lemma bnd_Inl [simp, exec_simps]: "bnd (Inl e) f = Inl e"
  by (simp add: bnd_def)

lemma bnd_eq_Inr [exec_simps]: "bnd m f = Inr y \<longleftrightarrow> (\<exists>x. m = Inr x \<and> f x = Inr y)"
  by (cases m) auto

lemma bnd_assoc: "bnd (bnd m f) g = bnd m (\<lambda>x. bnd (f x) g)"
  by (cases m) auto

lemma bnd_cong [fundef_cong]:
  "m = m' \<Longrightarrow> (\<And>x. m' = Inr x \<Longrightarrow> f x = g x) \<Longrightarrow> bnd m f = bnd m' g"
  by (cases m') auto

lemma deref_Some [simp, exec_simps]: "deref (Some x) = Inr x"
  by (simp add: deref_def)

lemma deref_None [simp, exec_simps]: "deref None = Inl NullPointer"
  by (simp add: deref_def)

lemma deref_eq_Inr [exec_simps]: "deref p = Inr x \<longleftrightarrow> p = Some x"
  by (cases p) auto

section \<open>Bytes and buffers\<close>

type_synonym bytes = "char list"

abbreviation NUL :: char where "NUL \<equiv> CHR 0x00"
abbreviation TAB :: char where "TAB \<equiv> CHR 0x09"
abbreviation LF :: char where "LF \<equiv> CHR 0x0A"
abbreviation CR :: char where "CR \<equiv> CHR 0x0D"
abbreviation SP :: char where "SP \<equiv> CHR 0x20"

text \<open>A byte of freshly allocated memory: nothing is known about its value.\<close>

definition indet_byte :: char where
  "indet_byte = undefined"

definition lit :: "string \<Rightarrow> bytes" where
  "lit s = s @ [NUL]"

definition malloc :: "nat \<Rightarrow> bytes" where
  "malloc n = replicate n indet_byte"

definition realloc :: "bytes option \<Rightarrow> nat \<Rightarrow> bytes" where
  "realloc p n =
     (case p of None \<Rightarrow> malloc n | Some b \<Rightarrow> take n b @ malloc (n - length b))"

definition load :: "bytes \<Rightarrow> nat \<Rightarrow> char exec" where
  "load b i = (if i < length b then Inr (b ! i) else Inl OutOfBounds)"

definition store :: "bytes \<Rightarrow> nat \<Rightarrow> char \<Rightarrow> bytes exec" where
  "store b i c = (if i < length b then Inr (b[i := c]) else Inl OutOfBounds)"

definition memcpy :: "bytes \<Rightarrow> nat \<Rightarrow> bytes \<Rightarrow> nat \<Rightarrow> bytes exec" where
  "memcpy dst off src n =
     (if n \<le> length src \<and> off + n \<le> length dst
      then Inr (take off dst @ take n src @ drop (off + n) dst) else Inl OutOfBounds)"

definition memset :: "bytes \<Rightarrow> nat \<Rightarrow> char \<Rightarrow> nat \<Rightarrow> bytes exec" where
  "memset dst off c n =
     (if off + n \<le> length dst
      then Inr (take off dst @ replicate n c @ drop (off + n) dst) else Inl OutOfBounds)"

definition cstr :: "bytes \<Rightarrow> string" where
  "cstr b = takeWhile (\<lambda>c. c \<noteq> NUL) b"

definition strlen :: "bytes \<Rightarrow> nat exec" where
  "strlen b = (if NUL \<in> set b then Inr (length (cstr b)) else Inl OutOfBounds)"

definition strcmp_eq :: "bytes \<Rightarrow> bytes \<Rightarrow> bool exec" where
  "strcmp_eq a b = bnd (strlen a) (\<lambda>_. bnd (strlen b) (\<lambda>_. Inr (cstr a = cstr b)))"

lemma cstr_append [simp]: "NUL \<notin> set xs \<Longrightarrow> cstr (xs @ NUL # ys) = xs"
  unfolding cstr_def by (subst takeWhile_append2) auto

lemma cstr_padded [simp]: "NUL \<notin> set xs \<Longrightarrow> cstr (xs @ replicate k NUL) = xs"
  unfolding cstr_def by (subst takeWhile_append2) (auto simp: takeWhile_replicate)

lemma cstr_lit [simp]: "NUL \<notin> set xs \<Longrightarrow> cstr (lit xs) = xs"
  by (simp add: lit_def)

lemma cstr_no_NUL [simp]: "NUL \<notin> set (cstr b)"
  by (auto simp: cstr_def dest: set_takeWhileD)

lemma NUL_in_lit [simp]: "NUL \<in> set (lit xs)"
  by (simp add: lit_def)

lemma length_lit [simp]: "length (lit xs) = Suc (length xs)"
  by (simp add: lit_def)

lemma take_lit [simp]: "n \<le> length xs \<Longrightarrow> take n (lit xs) = take n xs"
  by (simp add: lit_def)

lemma strlen_lit [simp]: "NUL \<notin> set xs \<Longrightarrow> strlen (lit xs) = Inr (length xs)"
  by (simp add: strlen_def)

lemma strlen_padded [simp]:
  "NUL \<notin> set xs \<Longrightarrow> 0 < k \<Longrightarrow> strlen (xs @ replicate k NUL) = Inr (length xs)"
  by (simp add: strlen_def)

section \<open>C integers\<close>

text \<open>
  \<^verbatim>\<open>size_t\<close> values are natural numbers; where an expression can leave the range of a
  64-bit word the reduction is written out with \<open>u64\<close>. \<^verbatim>\<open>int\<close> and \<^verbatim>\<open>int16_t\<close> are integers,
  converted with \<open>to_int32\<close> and \<open>to_int16\<close>; \<^verbatim>\<open>uint16_t\<close> is \<open>to_u16\<close>.
\<close>

definition u64 :: "nat \<Rightarrow> nat" where
  "u64 n = n mod 2 ^ 64"

definition to_u16 :: "int \<Rightarrow> nat" where
  "to_u16 i = nat (i mod 2 ^ 16)"

definition to_int16 :: "int \<Rightarrow> int" where
  "to_int16 i = (i + 2 ^ 15) mod 2 ^ 16 - 2 ^ 15"

definition to_int32 :: "int \<Rightarrow> int" where
  "to_int32 i = (i + 2 ^ 31) mod 2 ^ 32 - 2 ^ 31"

lemma u64_id [simp]: "n < 2 ^ 64 \<Longrightarrow> u64 n = n"
  by (simp add: u64_def)

lemma to_u16_id [simp]: "0 \<le> i \<Longrightarrow> i < 65536 \<Longrightarrow> to_u16 i = nat i"
  by (simp add: to_u16_def)

lemma to_u16_less: "to_u16 i < 65536"
  by (simp add: to_u16_def nat_less_iff)

lemma to_int32_id [simp]: "- (2 ^ 31) \<le> i \<Longrightarrow> i < 2 ^ 31 \<Longrightarrow> to_int32 i = i"
  by (simp add: to_int32_def)

lemma to_u16_to_int16 [simp]: "to_u16 (to_int16 i) = to_u16 i"
proof -
  have "(to_int16 i) mod 2 ^ 16 = i mod 2 ^ 16"
    unfolding to_int16_def by (simp add: mod_diff_left_eq)
  then show ?thesis by (simp add: to_u16_def)
qed

text \<open>The value of a (signed) \<^verbatim>\<open>char\<close>.\<close>

definition schar :: "char \<Rightarrow> int" where
  "schar c = (let n = int (of_char c) in if n < 128 then n else n - 256)"

section \<open>Decimal notation\<close>

definition digit_char :: "nat \<Rightarrow> char" where
  "digit_char d = char_of (48 + d)"

definition is_digit :: "char \<Rightarrow> bool" where
  "is_digit c \<longleftrightarrow> 48 \<le> (of_char c :: nat) \<and> (of_char c :: nat) \<le> 57"

definition digit_val :: "char \<Rightarrow> nat" where
  "digit_val c = of_char c - 48"

fun dec :: "nat \<Rightarrow> string" where
  "dec n = (if n < 10 then [digit_char n] else dec (n div 10) @ [digit_char (n mod 10)])"

declare dec.simps [simp del]

definition dec_val :: "string \<Rightarrow> nat" where
  "dec_val ds = foldl (\<lambda>v c. 10 * v + digit_val c) 0 ds"

definition dec_int :: "int \<Rightarrow> string" where
  "dec_int i = (if i < 0 then CHR ''-'' # dec (nat (- i)) else dec (nat i))"

text \<open>The levels of \<^verbatim>\<open>syslog\<close>.\<close>

definition LOG_NOTICE :: nat where "LOG_NOTICE = 5"
definition LOG_DEBUG :: nat where "LOG_DEBUG = 7"

definition is_space :: "char \<Rightarrow> bool" where
  "is_space c \<longleftrightarrow> c \<in> set [SP, CHR 0x09, CHR 0x0A, CHR 0x0B, CHR 0x0C, CHR 0x0D]"

text \<open>\<^verbatim>\<open>atoi\<close>: white space, a sign, digits; a value outside \<^verbatim>\<open>int\<close> is undefined behaviour.\<close>

definition atoi :: "bytes \<Rightarrow> int exec" where
  "atoi b = bnd (strlen b) (\<lambda>_.
     let t = dropWhile is_space (cstr b);
         neg = (t \<noteq> [] \<and> hd t = CHR ''-'');
         u = (if t \<noteq> [] \<and> (hd t = CHR ''-'' \<or> hd t = CHR ''+'') then tl t else t);
         n = int (dec_val (takeWhile is_digit u));
         v = (if neg then - n else n)
     in if - (2 ^ 31) \<le> v \<and> v < 2 ^ 31 then Inr v else Inl IntegerOverflow)"

lemma of_char_digit: "d < 10 \<Longrightarrow> (of_char (digit_char d) :: nat) = 48 + d"
  by (simp add: digit_char_def)

lemma digit_char_0 [simp]: "digit_char 0 = CHR ''0''"
  by code_simp

lemma digit_char_values [simp]:
  "digit_char (Suc 0) = CHR ''1''" "digit_char 1 = CHR ''1''" "digit_char 2 = CHR ''2''"
  "digit_char 3 = CHR ''3''" "digit_char 4 = CHR ''4''" "digit_char 5 = CHR ''5''"
  "digit_char 6 = CHR ''6''" "digit_char 7 = CHR ''7''" "digit_char 8 = CHR ''8''"
  "digit_char 9 = CHR ''9''"
  by code_simp+

lemma is_digit_digit_char [simp]: "d < 10 \<Longrightarrow> is_digit (digit_char d)"
  by (simp add: is_digit_def of_char_digit)

lemma digit_val_digit_char [simp]: "d < 10 \<Longrightarrow> digit_val (digit_char d) = d"
  by (simp add: digit_val_def of_char_digit)

lemma dec_all_digits: "\<forall>c \<in> set (dec n). is_digit c"
proof (induction n rule: dec.induct)
  case (1 n)
  then show ?case by (cases "n < 10") (auto simp: dec.simps [of n])
qed

lemma dec_nonempty [simp]: "dec n \<noteq> []"
  by (subst dec.simps) simp

lemma dec_val_snoc: "dec_val (xs @ [c]) = 10 * dec_val xs + digit_val c"
  by (simp add: dec_val_def)

lemma dec_val_dec [simp]: "dec_val (dec n) = n"
proof (induction n rule: dec.induct)
  case (1 n)
  show ?case
  proof (cases "n < 10")
    case True
    then show ?thesis by (simp add: dec.simps [of n] dec_val_def)
  next
    case False
    with 1 show ?thesis by (simp add: dec.simps [of n] dec_val_snoc)
  qed
qed

lemma is_digit_cases: "is_digit c \<Longrightarrow> c \<noteq> NUL \<and> \<not> is_space c \<and> c \<noteq> CHR ''-'' \<and> c \<noteq> CHR ''+''"
  by (auto simp: is_digit_def is_space_def)

lemma NUL_notin_dec [simp]: "NUL \<notin> set (dec n)"
  using dec_all_digits is_digit_cases by blast

lemma hd_dec_digit: "is_digit (hd (dec n))"
  using dec_all_digits [of n] by (simp add: hd_in_set)

lemma dropWhile_dec [simp]: "dropWhile is_space (dec n) = dec n"
  using hd_dec_digit [of n] is_digit_cases [of "hd (dec n)"]
  by (cases "dec n") auto

lemma takeWhile_dec [simp]: "takeWhile is_digit (dec n) = dec n"
  using dec_all_digits [of n] by (simp add: takeWhile_eq_all_conv)

lemma length_dec: "n < 10 ^ Suc k \<Longrightarrow> length (dec n) \<le> Suc k"
proof (induction k arbitrary: n)
  case 0
  then show ?case by (simp add: dec.simps [of n])
next
  case (Suc k)
  then have "n div 10 < 10 ^ Suc k" by (simp add: div_less_iff_less_mult mult.commute)
  then show ?case using Suc.IH by (simp add: dec.simps [of n])
qed

lemma length_dec_ge: "10 ^ k \<le> n \<Longrightarrow> Suc k \<le> length (dec n)"
proof (induction k arbitrary: n)
  case 0
  then show ?case by (simp add: Suc_le_eq)
next
  case (Suc k)
  then have "10 ^ k \<le> n div 10" by (simp add: less_eq_div_iff_mult_less_eq mult.commute)
  moreover have "\<not> n < 10" using Suc.prems order_trans [of 10 "10 * 10 ^ k" n] by (simp add: not_less)
  ultimately show ?case using Suc.IH by (simp add: dec.simps [of n])
qed

lemma atoi_dec: "n < 2 ^ 31 \<Longrightarrow> atoi (dec n @ NUL # rest) = Inr (int n)"
  using hd_dec_digit [of n] is_digit_cases [of "hd (dec n)"]
  by (auto simp: atoi_def strlen_def Let_def)

section \<open>Invariants of transition systems\<close>

locale transition_system =
  fixes initial :: "'s \<Rightarrow> bool"
    and step :: "'s \<Rightarrow> 's \<Rightarrow> bool"
    and inv :: "'s \<Rightarrow> bool"
  assumes inv_initial: "initial s \<Longrightarrow> inv s"
    and inv_step: "inv s \<Longrightarrow> step s t \<Longrightarrow> inv t"
begin

lemma reachable_inv:
  assumes "initial s" and "step\<^sup>*\<^sup>* s t"
  shows "inv t"
  using assms(2,1) by (induction rule: rtranclp_induct) (auto intro: inv_initial inv_step)

end

end
