(* ===== verification/CList.thy ===== *)
theory CList
  imports Prelude
begin

text \<open>
  The circular doubly linked list of \<^verbatim>\<open>src/datastructures/list/list.c\<close>, with its nodes in an
  explicit store: a node is an address, \<open>list_t\<close> carries the store of its own nodes (no node
  is ever shared between two lists), the next unused address and the fields of the C
  structure, among them the cursor (\<open>list_current\<close>, \<open>list_currentIndex\<close>) that every access by
  index moves. \<open>list_rep l ps vs\<close> says that \<open>l\<close> is a well-linked ring over the addresses \<open>ps\<close>
  that holds the values \<open>vs\<close>; the lemmas show that the operations implement a sequence as
  long as the cursor does not have to wrap below index 0.
\<close>

section \<open>Data\<close>

record 'a list_node_t =
  node_next :: nat
  node_previous :: nat
  node_value :: 'a

record 'a list_t =
  list_nodes :: "nat \<Rightarrow> 'a list_node_t option"
  list_fresh :: nat
  list_current :: "nat option"
  list_tail :: "nat option"
  list_currentIndex :: nat
  list_length :: nat

section \<open>Node access\<close>

definition get_node :: "(nat \<Rightarrow> 'a list_node_t option) \<Rightarrow> nat \<Rightarrow> 'a list_node_t exec" where
  "get_node h a = (case h a of None \<Rightarrow> Inl DanglingPointer | Some n \<Rightarrow> Inr n)"

definition set_next ::
  "(nat \<Rightarrow> 'a list_node_t option) \<Rightarrow> nat \<Rightarrow> nat \<Rightarrow> (nat \<Rightarrow> 'a list_node_t option) exec" where
  "set_next h a b = bnd (get_node h a) (\<lambda>n. Inr (h(a \<mapsto> n\<lparr>node_next := b\<rparr>)))"

definition set_previous ::
  "(nat \<Rightarrow> 'a list_node_t option) \<Rightarrow> nat \<Rightarrow> nat \<Rightarrow> (nat \<Rightarrow> 'a list_node_t option) exec" where
  "set_previous h a b = bnd (get_node h a) (\<lambda>n. Inr (h(a \<mapsto> n\<lparr>node_previous := b\<rparr>)))"

definition set_value ::
  "(nat \<Rightarrow> 'a list_node_t option) \<Rightarrow> nat \<Rightarrow> 'a \<Rightarrow> (nat \<Rightarrow> 'a list_node_t option) exec" where
  "set_value h a v = bnd (get_node h a) (\<lambda>n. Inr (h(a \<mapsto> n\<lparr>node_value := v\<rparr>)))"

section \<open>Operations\<close>

definition list_create :: "'a list_t" where
  "list_create = \<lparr>list_nodes = (\<lambda>_. None), list_fresh = 0, list_current = None, list_tail = None,
                  list_currentIndex = 0, list_length = 0\<rparr>"

text \<open>A new node's links are indeterminate until set; the node itself stands in for them.\<close>

definition list_addValue :: "'a list_t \<Rightarrow> 'a \<Rightarrow> 'a list_t exec" where
  "list_addValue l v =
     (let node = list_fresh l;
          h = (list_nodes l)(node \<mapsto> \<lparr>node_next = node, node_previous = node, node_value = v\<rparr>);
          l1 = l\<lparr>list_fresh := node + 1\<rparr>
      in if list_length l = 0
         then bnd (set_next h node node) (\<lambda>h1.
              bnd (set_previous h1 node node) (\<lambda>h2.
                Inr (l1\<lparr>list_nodes := h2, list_current := Some node, list_tail := Some node,
                        list_length := list_length l + 1\<rparr>)))
         else bnd (deref (list_tail l)) (\<lambda>t.
              bnd (get_node h t) (\<lambda>tn.
              bnd (set_next h node (node_next tn)) (\<lambda>h1.
              bnd (set_previous h1 (node_next tn) node) (\<lambda>h2.
              bnd (set_previous h2 node t) (\<lambda>h3.
              bnd (set_next h3 t node) (\<lambda>h4.
                Inr (l1\<lparr>list_nodes := h4, list_tail := Some node,
                        list_length := list_length l + 1\<rparr>))))))))"

text \<open>
  Decrementing a \<^verbatim>\<open>size_t\<close> wraps at 0. \<open>list_step\<close> is one round of the loop in
  \<^verbatim>\<open>list_moveToIndex\<close>: the index moves by \<^verbatim>\<open>direction\<close>, reduced modulo the length after the
  64-bit wrap-around, and the current node follows a link.
\<close>

definition dec64 :: "nat \<Rightarrow> nat" where
  "dec64 n = (if n = 0 then 2 ^ 64 - 1 else n - 1)"

definition list_step :: "bool \<Rightarrow> 'a list_t \<Rightarrow> 'a list_t exec" where
  "list_step right l =
     (let i = (if right then list_currentIndex l + 1 else dec64 (list_currentIndex l)) mod list_length l
      in bnd (deref (list_current l)) (\<lambda>c.
         bnd (get_node (list_nodes l) c) (\<lambda>n.
           Inr (l\<lparr>list_currentIndex := i,
                  list_current := Some (if right then node_next n else node_previous n)\<rparr>))))"

fun list_moveToIndex_loop :: "nat \<Rightarrow> bool \<Rightarrow> nat \<Rightarrow> 'a list_t \<Rightarrow> 'a list_t exec" where
  "list_moveToIndex_loop fuel right index l =
     (if list_currentIndex l = index then Inr l
      else case fuel of
             0 \<Rightarrow> Inl Diverges
           | Suc fuel' \<Rightarrow>
               bnd (list_step right l) (\<lambda>l'. list_moveToIndex_loop fuel' right index l'))"

declare list_moveToIndex_loop.simps [simp del]

definition list_direction_right :: "nat \<Rightarrow> nat \<Rightarrow> nat \<Rightarrow> bool" where
  "list_direction_right len cur index =
     (if cur < index
      then let leftSteps = 1 + cur + len - index; rightSteps = index - cur
           in \<not> leftSteps < rightSteps
      else let leftSteps = cur - index; rightSteps = 1 + len - cur + index
           in \<not> leftSteps < rightSteps)"

text \<open>
  The loop is run for \<open>2 * length\<close> rounds. When it ends at all it ends within one sweep to
  index 0 and, after the wrap-around, one more; \<open>move_loop_fuel_complete\<close> below.
\<close>

definition list_moveToIndex :: "'a list_t \<Rightarrow> nat \<Rightarrow> 'a list_t exec" where
  "list_moveToIndex l index =
     (if list_currentIndex l = index then Inr l
      else if index = 0
        then bnd (deref (list_tail l)) (\<lambda>t.
             bnd (get_node (list_nodes l) t) (\<lambda>n.
               Inr (l\<lparr>list_currentIndex := 0, list_current := Some (node_next n)\<rparr>)))
      else if index + 1 = list_length l
        then Inr (l\<lparr>list_currentIndex := index, list_current := list_tail l\<rparr>)
      else list_moveToIndex_loop (2 * list_length l)
             (list_direction_right (list_length l) (list_currentIndex l) index) index l)"

definition list_current_value :: "'a list_t \<Rightarrow> 'a exec" where
  "list_current_value l =
     bnd (deref (list_current l)) (\<lambda>c. bnd (get_node (list_nodes l) c) (\<lambda>n. Inr (node_value n)))"

definition list_unlink_current :: "'a list_t \<Rightarrow> ('a \<times> 'a list_t) exec" where
  "list_unlink_current l =
     bnd (deref (list_current l)) (\<lambda>c.
     bnd (get_node (list_nodes l) c) (\<lambda>n.
     bnd (set_previous (list_nodes l) (node_next n) (node_previous n)) (\<lambda>h1.
     bnd (set_next h1 (node_previous n) (node_next n)) (\<lambda>h2.
       let l1 = (if list_currentIndex l + 1 = list_length l
                 then l\<lparr>list_tail := Some (node_previous n)\<rparr> else l)
       in Inr (node_value n,
               l1\<lparr>list_nodes := h2(c := None), list_current := Some (node_next n)\<rparr>)))))"

definition list_removeValue :: "'a list_t \<Rightarrow> nat \<Rightarrow> ('a option \<times> 'a list_t) exec" where
  "list_removeValue l index =
     (if list_length l \<le> index \<or> list_length l = 0 then Inr (None, l)
      else
        bnd (if list_length l = 1
             then bnd (deref (list_current l)) (\<lambda>c.
                  bnd (list_current_value l) (\<lambda>v.
                    Inr (v, l\<lparr>list_nodes := (list_nodes l)(c := None),
                              list_current := None, list_tail := None\<rparr>)))
             else bnd (list_moveToIndex l index) list_unlink_current) (\<lambda>(v, l1).
          let len = list_length l1 - 1
          in Inr (Some v,
                  l1\<lparr>list_length := len,
                     list_currentIndex := (if len > 0 then list_currentIndex l1 mod len else 0)\<rparr>)))"

definition list_getValue :: "'a list_t \<Rightarrow> nat \<Rightarrow> ('a option \<times> 'a list_t) exec" where
  "list_getValue l index =
     (if list_length l \<le> index then Inr (None, l)
      else bnd (list_moveToIndex l index) (\<lambda>l1.
           bnd (list_current_value l1) (\<lambda>v. Inr (Some v, l1))))"

definition list_setValue :: "'a list_t \<Rightarrow> nat \<Rightarrow> 'a \<Rightarrow> ('a option \<times> 'a list_t) exec" where
  "list_setValue l index v =
     (if list_length l \<le> index then Inr (None, l)
      else bnd (list_moveToIndex l index) (\<lambda>l1.
           bnd (deref (list_current l1)) (\<lambda>c.
           bnd (list_current_value l1) (\<lambda>oldValue.
           bnd (set_value (list_nodes l1) c v) (\<lambda>h.
             Inr (Some oldValue, l1\<lparr>list_nodes := h\<rparr>))))))"

definition list_getLength :: "'a list_t \<Rightarrow> nat" where
  "list_getLength l = list_length l"

fun list_findIndex_loop :: "nat \<Rightarrow> nat \<Rightarrow> nat \<Rightarrow> 'a list_t \<Rightarrow> 'a \<Rightarrow> (int \<times> 'a list_t) exec" where
  "list_findIndex_loop 0 i start l v = Inr (-1, l)"
| "list_findIndex_loop (Suc rest) i start l v =
     bnd (list_current_value l) (\<lambda>w.
       if w = v then Inr (int ((start + i) mod list_length l), l)
       else bnd (list_moveToIndex l ((start + i + 1) mod list_length l)) (\<lambda>l1.
              list_findIndex_loop rest (i + 1) start l1 v))"

definition list_findIndex :: "'a list_t \<Rightarrow> 'a \<Rightarrow> (int \<times> 'a list_t) exec" where
  "list_findIndex l v = list_findIndex_loop (list_length l) 0 (list_currentIndex l) l v"

text \<open>\<^verbatim>\<open>list_clear\<close> removes index 0 as long as values are left; each round shortens the list.\<close>

fun list_clear_loop :: "nat \<Rightarrow> 'a list_t \<Rightarrow> 'a list_t exec" where
  "list_clear_loop 0 l = Inr l"
| "list_clear_loop (Suc n) l =
     (if list_length l > 0
      then bnd (list_removeValue l 0) (\<lambda>(_, l1). list_clear_loop n l1)
      else Inr l)"

definition list_clear :: "'a list_t \<Rightarrow> 'a list_t exec" where
  "list_clear l = list_clear_loop (list_length l) l"

text \<open>\<^verbatim>\<open>list_free\<close> clears the list and releases the structure; what is left are its leaked nodes.\<close>

definition list_free :: "'a list_t \<Rightarrow> (nat \<Rightarrow> 'a list_node_t option) exec" where
  "list_free l = bnd (list_clear l) (\<lambda>l1. Inr (list_nodes l1))"

section \<open>Representation\<close>

definition nxt :: "(nat \<Rightarrow> 'a list_node_t option) \<Rightarrow> nat \<Rightarrow> nat" where
  "nxt h a = node_next (the (h a))"

definition prv :: "(nat \<Rightarrow> 'a list_node_t option) \<Rightarrow> nat \<Rightarrow> nat" where
  "prv h a = node_previous (the (h a))"

definition val :: "(nat \<Rightarrow> 'a list_node_t option) \<Rightarrow> nat \<Rightarrow> 'a" where
  "val h a = node_value (the (h a))"

text \<open>The pairs of neighbours in a sequence of addresses, and in the ring it closes to.\<close>

definition consec :: "nat list \<Rightarrow> (nat \<times> nat) set" where
  "consec ps = set (zip ps (tl ps))"

definition adj :: "nat list \<Rightarrow> (nat \<times> nat) set" where
  "adj ps = (if ps = [] then {} else insert (last ps, hd ps) (consec ps))"

definition list_shape :: "'a list_t \<Rightarrow> nat list \<Rightarrow> 'a list \<Rightarrow> bool" where
  "list_shape l ps vs \<longleftrightarrow>
     dom (list_nodes l) = set ps \<and> distinct ps \<and> (\<forall>p \<in> set ps. p < list_fresh l) \<and>
     list_length l = length ps \<and> map (val (list_nodes l)) ps = vs \<and>
     (\<forall>(a, b) \<in> adj ps. nxt (list_nodes l) a = b \<and> prv (list_nodes l) b = a) \<and>
     list_tail l = (if ps = [] then None else Some (last ps))"

definition list_rep :: "'a list_t \<Rightarrow> nat list \<Rightarrow> 'a list \<Rightarrow> bool" where
  "list_rep l ps vs \<longleftrightarrow>
     list_shape l ps vs \<and>
     (if ps = [] then list_current l = None \<and> list_currentIndex l = 0
      else list_currentIndex l < length ps \<and> list_current l = Some (ps ! list_currentIndex l))"

definition list_inv :: "'a list_t \<Rightarrow> 'a list \<Rightarrow> bool" where
  "list_inv l vs \<longleftrightarrow> (\<exists>ps. list_rep l ps vs)"

text \<open>The cursor can reach an index without going left past index 0.\<close>

definition move_safe :: "nat \<Rightarrow> nat \<Rightarrow> nat \<Rightarrow> bool" where
  "move_safe len cur index \<longleftrightarrow>
     index \<le> cur \<or> index + 1 = len \<or> index - cur \<le> 1 + cur + len - index"

section \<open>Neighbours\<close>

lemma consec_simps [simp]:
  "consec [] = {}" "consec [a] = {}" "consec (a # b # ps) = insert (a, b) (consec (b # ps))"
  by (auto simp: consec_def)

lemma consec_append:
  "ps \<noteq> [] \<Longrightarrow> qs \<noteq> [] \<Longrightarrow> consec (ps @ qs) = consec ps \<union> consec qs \<union> {(last ps, hd qs)}"
proof (induction ps rule: induct_list012)
  case (2 a)
  then show ?case by (cases qs) auto
qed auto

lemma consec_sets: "(a, b) \<in> consec ps \<Longrightarrow> a \<in> set (butlast ps) \<and> b \<in> set (tl ps)"
  by (induction ps rule: induct_list012) (auto split: if_splits)

lemma consec_distinct:
  assumes "(a, b) \<in> consec ps" and "distinct ps"
  shows "a \<noteq> last ps" and "b \<noteq> hd ps" and "a \<in> set ps" and "b \<in> set ps" and "ps \<noteq> []"
proof -
  have ab: "a \<in> set (butlast ps)" "b \<in> set (tl ps)" using consec_sets [OF assms(1)] by auto
  then show "ps \<noteq> []" by auto
  show "a \<in> set ps" "b \<in> set ps" using ab by (auto dest: in_set_butlastD list.set_sel(2) [rotated])
  show "a \<noteq> last ps" using ab(1) assms(2) \<open>ps \<noteq> []\<close>
    by (metis append_butlast_last_id distinct_append distinct_singleton
        disjoint_iff list.set_intros(1))
  show "b \<noteq> hd ps" using ab(2) assms(2) \<open>ps \<noteq> []\<close> by (cases ps) auto
qed

lemma adj_swap: "adj (ps @ qs) = adj (qs @ ps)"
  by (cases "ps = []"; cases "qs = []") (auto simp: adj_def consec_append)

lemma adj_Cons: "rs \<noteq> [] \<Longrightarrow> adj (p # rs) = {(p, hd rs), (last rs, p)} \<union> consec rs"
  by (cases rs) (auto simp: adj_def)

lemma adj_snoc: "ps \<noteq> [] \<Longrightarrow> adj (ps @ [q]) = {(last ps, q), (q, hd ps)} \<union> consec ps"
  using adj_swap [of ps "[q]"] adj_Cons [of ps q] by auto

lemma adj_in_set: "(a, b) \<in> adj ps \<Longrightarrow> a \<in> set ps \<and> b \<in> set ps"
  by (auto simp: adj_def split: if_splits dest: consec_sets in_set_butlastD
      list.set_sel(2) [rotated])

lemma adj_nth:
  assumes "i < length ps"
  shows "(ps ! i, ps ! (Suc i mod length ps)) \<in> adj ps"
proof (cases "Suc i = length ps")
  case True
  then have "ps \<noteq> []" "i = length ps - 1" by auto
  with True show ?thesis by (simp add: adj_def hd_conv_nth last_conv_nth)
next
  case False
  with assms have "(ps ! i, tl ps ! i) \<in> set (zip ps (tl ps))"
    by (auto simp: set_zip nth_tl intro!: exI [of _ i])
  with assms False show ?thesis by (auto simp: adj_def consec_def nth_tl)
qed

lemma ring_close:
  assumes "distinct rs" and "rs \<noteq> []" and "\<forall>(x, y) \<in> consec rs. f x = y \<and> g y = x"
  shows "\<forall>(x, y) \<in> adj rs. (f(last rs := hd rs)) x = y \<and> (g(hd rs := last rs)) y = x"
proof (intro ballI, clarify)
  fix x y
  assume xy: "(x, y) \<in> adj rs"
  show "(f(last rs := hd rs)) x = y \<and> (g(hd rs := last rs)) y = x"
  proof (cases "(x, y) \<in> consec rs")
    case True
    with assms consec_distinct [OF True assms(1)] show ?thesis by auto
  next
    case False
    with xy assms(2) show ?thesis by (simp add: adj_def)
  qed
qed

lemma ring_snoc:
  assumes "distinct ps" and "ps \<noteq> []" and "q \<notin> set ps"
    and "\<forall>(x, y) \<in> consec ps. f x = y \<and> g y = x"
  shows "\<forall>(x, y) \<in> adj (ps @ [q]). (f(q := hd ps, last ps := q)) x = y
           \<and> (g(hd ps := q, q := last ps)) y = x"
proof (intro ballI, clarify)
  fix x y
  assume xy: "(x, y) \<in> adj (ps @ [q])"
  have q: "q \<noteq> last ps" "q \<noteq> hd ps" using assms(2,3) by auto
  show "(f(q := hd ps, last ps := q)) x = y \<and> (g(hd ps := q, q := last ps)) y = x"
  proof (cases "(x, y) \<in> consec ps")
    case True
    with assms consec_distinct [OF True assms(1)] show ?thesis by auto
  next
    case False
    with xy assms(2) q show ?thesis by (auto simp: adj_snoc)
  qed
qed

lemma adj_consec: "(\<forall>(x, y) \<in> adj ps. P x y) \<Longrightarrow> \<forall>(x, y) \<in> consec ps. P x y"
  by (cases "ps = []") (auto simp: adj_def)

section \<open>Updates of the node store\<close>

lemma get_node_dom [simp]: "a \<in> dom h \<Longrightarrow> get_node h a = Inr (the (h a))"
  by (auto simp: get_node_def)

lemma set_next_dom [simp]:
  "a \<in> dom h \<Longrightarrow> set_next h a b = Inr (h(a \<mapsto> (the (h a))\<lparr>node_next := b\<rparr>))"
  by (simp add: set_next_def)

lemma set_previous_dom [simp]:
  "a \<in> dom h \<Longrightarrow> set_previous h a b = Inr (h(a \<mapsto> (the (h a))\<lparr>node_previous := b\<rparr>))"
  by (simp add: set_previous_def)

lemma set_value_dom [simp]:
  "a \<in> dom h \<Longrightarrow> set_value h a v = Inr (h(a \<mapsto> (the (h a))\<lparr>node_value := v\<rparr>))"
  by (simp add: set_value_def)

lemma store_fields [simp]:
  "nxt (h(a \<mapsto> n)) = (nxt h)(a := node_next n)"
  "prv (h(a \<mapsto> n)) = (prv h)(a := node_previous n)"
  "val (h(a \<mapsto> n)) = (val h)(a := node_value n)"
  by (auto simp: nxt_def prv_def val_def)

lemma free_fields:
  "b \<noteq> a \<Longrightarrow> nxt (h(a := None)) b = nxt h b"
  "b \<noteq> a \<Longrightarrow> prv (h(a := None)) b = prv h b"
  "b \<noteq> a \<Longrightarrow> val (h(a := None)) b = val h b"
  by (auto simp: nxt_def prv_def val_def)

lemma map_val_free: "a \<notin> set ps \<Longrightarrow> map (val (h(a := None))) ps = map (val h) ps"
  by (auto simp: val_def)

lemma nxt_prv_val_the [simp]:
  "node_next (the (h a)) = nxt h a" "node_previous (the (h a)) = prv h a"
  "node_value (the (h a)) = val h a"
  by (auto simp: nxt_def prv_def val_def)

lemma map_val_upd: "a \<notin> set ps \<Longrightarrow> map ((val h)(a := v)) ps = map (val h) ps"
  by auto

section \<open>Moving the cursor\<close>

definition seek :: "'a list_t \<Rightarrow> nat list \<Rightarrow> nat \<Rightarrow> 'a list_t" where
  "seek l ps i = l\<lparr>list_currentIndex := i, list_current := Some (ps ! i)\<rparr>"

lemma seek_fields [simp]:
  "list_currentIndex (seek l ps i) = i" "list_current (seek l ps i) = Some (ps ! i)"
  "list_nodes (seek l ps i) = list_nodes l" "list_length (seek l ps i) = list_length l"
  "list_tail (seek l ps i) = list_tail l" "list_fresh (seek l ps i) = list_fresh l"
  "seek (seek l ps i) ps j = seek l ps j"
  by (auto simp: seek_def)

lemma list_rep_seek: "list_shape l ps vs \<Longrightarrow> i < length ps \<Longrightarrow> list_rep (seek l ps i) ps vs"
  by (auto simp: list_rep_def list_shape_def)

lemma list_repD:
  assumes "list_rep l ps vs"
  shows "list_shape l ps vs" "list_length l = length ps" "length vs = length ps"
    "ps \<noteq> [] \<Longrightarrow> list_currentIndex l < length ps"
    "ps \<noteq> [] \<Longrightarrow> list_current l = Some (ps ! list_currentIndex l)"
    "ps = [] \<Longrightarrow> list_current l = None" "ps = [] \<Longrightarrow> list_currentIndex l = 0"
  using assms by (auto simp: list_rep_def list_shape_def)

lemma seek_same: "list_rep l ps vs \<Longrightarrow> ps \<noteq> [] \<Longrightarrow> seek l ps (list_currentIndex l) = l"
  using list_repD(5) [of l ps vs] by (simp add: seek_def)

lemma shape_links:
  assumes "list_shape l ps vs" and "i < length ps"
  shows "nxt (list_nodes l) (ps ! i) = ps ! (Suc i mod length ps)"
    and "0 < i \<Longrightarrow> prv (list_nodes l) (ps ! i) = ps ! (i - 1)"
    and "ps ! i \<in> dom (list_nodes l)" and "val (list_nodes l) (ps ! i) = vs ! i"
proof -
  show "nxt (list_nodes l) (ps ! i) = ps ! (Suc i mod length ps)"
    using adj_nth [OF assms(2)] assms(1) by (auto simp: list_shape_def)
  show "0 < i \<Longrightarrow> prv (list_nodes l) (ps ! i) = ps ! (i - 1)"
    using adj_nth [of "i - 1" ps] assms
    by (auto simp: list_shape_def less_imp_diff_less)
  show "ps ! i \<in> dom (list_nodes l)" "val (list_nodes l) (ps ! i) = vs ! i"
    using assms by (auto simp: list_shape_def)
qed

lemma step_right:
  assumes "list_shape l ps vs" and "i < length ps"
  shows "list_step True (seek l ps i) = Inr (seek l ps (Suc i mod length ps))"
  using assms shape_links [OF assms] by (simp add: list_step_def list_shape_def seek_def Let_def)

lemma step_left:
  assumes "list_shape l ps vs" and "i < length ps" and "0 < i"
  shows "list_step False (seek l ps i) = Inr (seek l ps (i - 1))"
  using assms shape_links [OF assms(1,2)]
  by (simp add: list_step_def list_shape_def seek_def Let_def dec64_def)

lemma loop_right:
  assumes "list_shape l ps vs" and "i < length ps" and "index < length ps"
    and "(i + d) mod length ps = index" and "d \<le> fuel"
  shows "list_moveToIndex_loop fuel True index (seek l ps i) = Inr (seek l ps index)"
  using assms(2,4,5)
proof (induction fuel arbitrary: i d)
  case 0
  then show ?case by (simp add: list_moveToIndex_loop.simps)
next
  case (Suc fuel)
  show ?case
  proof (cases "i = index")
    case True
    then show ?thesis by (simp add: list_moveToIndex_loop.simps)
  next
    case False
    then obtain d' where d: "d = Suc d'" using Suc.prems by (cases d) auto
    have "(Suc i mod length ps + d') mod length ps = index"
      using Suc.prems(2) d by (simp add: mod_add_left_eq)
    moreover have "Suc i mod length ps < length ps" using Suc.prems(1)
      by (intro mod_less_divisor) linarith
    ultimately show ?thesis
      using Suc.IH [of "Suc i mod length ps" d'] Suc.prems d assms(1) False
      by (simp add: list_moveToIndex_loop.simps [of "Suc fuel"] step_right)
  qed
qed

lemma loop_left:
  assumes "list_shape l ps vs" and "index \<le> i" and "i < length ps" and "i - index \<le> fuel"
  shows "list_moveToIndex_loop fuel False index (seek l ps i) = Inr (seek l ps index)"
  using assms(2-4)
proof (induction fuel arbitrary: i)
  case 0
  then show ?case by (simp add: list_moveToIndex_loop.simps)
next
  case (Suc fuel)
  show ?case
  proof (cases "i = index")
    case True
    then show ?thesis by (simp add: list_moveToIndex_loop.simps)
  next
    case False
    with Suc.IH [of "i - 1"] Suc.prems assms(1) show ?thesis
      by (simp add: list_moveToIndex_loop.simps [of "Suc fuel"] step_left)
  qed
qed

lemma move_rep:
  assumes rep: "list_rep l ps vs" and i: "index < length ps"
    and safe: "move_safe (length ps) (list_currentIndex l) index"
  shows "list_moveToIndex l index = Inr (seek l ps index)"
proof -
  let ?c = "list_currentIndex l" and ?n = "length ps"
  have ne: "ps \<noteq> []" using i by auto
  have sh: "list_shape l ps vs" and len: "list_length l = ?n" and c: "?c < ?n"
    and sk: "seek l ps ?c = l"
    using list_repD [OF rep] seek_same [OF rep] ne by auto
  have t: "list_tail l = Some (last ps)" "last ps \<in> dom (list_nodes l)"
    "nxt (list_nodes l) (last ps) = hd ps"
    using sh ne by (auto simp: list_shape_def adj_def)
  consider "?c = index" | "?c \<noteq> index" "index = 0" | "?c \<noteq> index" "index \<noteq> 0" "index + 1 = ?n"
    | "?c \<noteq> index" "index \<noteq> 0" "index + 1 \<noteq> ?n" by blast
  then show ?thesis
  proof cases
    case 1
    then show ?thesis using sk by (simp add: list_moveToIndex_def)
  next
    case 2
    then show ?thesis using t ne by (simp add: list_moveToIndex_def seek_def hd_conv_nth)
  next
    case 3
    then have "index = ?n - 1" by simp
    with 3 show ?thesis using t ne len by (simp add: list_moveToIndex_def seek_def last_conv_nth)
  next
    case 4
    have right: ?thesis if "list_direction_right ?n ?c index" "(?c + d) mod ?n = index" "d \<le> 2 * ?n" for d
      using loop_right [OF sh c i that(2,3)] that(1) 4 len sk by (simp add: list_moveToIndex_def)
    show ?thesis
    proof (cases "?c < index")
      case True
      then show ?thesis using right [of "index - ?c"] safe i 4
        by (auto simp: move_safe_def list_direction_right_def)
    next
      case False
      show ?thesis
      proof (cases "list_direction_right ?n ?c index")
        case True
        then show ?thesis using right [of "?n - ?c + index"] c i by simp
      next
        case dir: False
        have "?c - index \<le> 2 * ?n" using c by simp
        with dir loop_left [OF sh _ c, of index "2 * ?n"] False 4 len sk show ?thesis
          by (simp add: list_moveToIndex_def)
      qed
    qed
  qed
qed

section \<open>The operations implement a sequence\<close>

lemma rep_create: "list_rep list_create [] []"
  by (simp add: list_rep_def list_shape_def list_create_def adj_def)

lemma rep_add:
  assumes rep: "list_rep l ps vs"
  shows "\<exists>l'. list_addValue l v = Inr l' \<and> list_rep l' (ps @ [list_fresh l]) (vs @ [v])
    \<and> list_currentIndex l' = list_currentIndex l"
proof (cases "ps = []")
  case True
  then have "list_nodes l = Map.empty" "vs = []" "list_length l = 0" "list_currentIndex l = 0"
    using rep by (auto simp: list_rep_def list_shape_def)
  with True show ?thesis
    by (simp add: list_rep_def list_shape_def list_addValue_def Let_def adj_def)
next
  case False
  let ?q = "list_fresh l" and ?t = "last ps" and ?h = "list_nodes l"
  have sh: "dom ?h = set ps" "distinct ps" "?q \<notin> set ps" "map (val ?h) ps = vs"
    "\<forall>(a, b) \<in> adj ps. nxt ?h a = b \<and> prv ?h b = a" "\<forall>p \<in> set ps. p < ?q"
    "list_length l = length ps" "list_tail l = Some ?t"
    using rep False by (auto simp: list_rep_def list_shape_def)
  have t: "?t \<in> set ps" "hd ps \<in> set ps" "nxt ?h ?t = hd ps"
    using sh(5) False by (auto simp: adj_def)
  have ne: "?q \<noteq> ?t" "?q \<noteq> hd ps" "?t \<noteq> ?q" "hd ps \<noteq> ?q" using sh(3) t by auto
  define h4 where "h4 = (((((?h(?q \<mapsto> \<lparr>node_next = ?q, node_previous = ?q, node_value = v\<rparr>))
      (?q \<mapsto> \<lparr>node_next = hd ps, node_previous = ?q, node_value = v\<rparr>))
      (hd ps \<mapsto> (the (?h (hd ps)))\<lparr>node_previous := ?q\<rparr>))
      (?q \<mapsto> \<lparr>node_next = hd ps, node_previous = ?t, node_value = v\<rparr>)))"
  define h5 where "h5 = h4(?t \<mapsto> (the (h4 ?t))\<lparr>node_next := ?q\<rparr>)"
  have add: "list_addValue l v = Inr (l\<lparr>list_fresh := ?q + 1, list_nodes := h5,
      list_tail := Some ?q, list_length := length ps + 1\<rparr>)"
    using sh t ne False by (simp add: list_addValue_def Let_def h5_def h4_def)
  have fields: "nxt h5 = (nxt ?h)(?q := hd ps, ?t := ?q)" "prv h5 = (prv ?h)(hd ps := ?q, ?q := ?t)"
    "val h5 = (val ?h)(?q := v)" "dom h5 = insert ?q (set ps)"
    using sh t ne by (auto simp: h5_def h4_def fun_eq_iff)
  have "\<forall>(a, b) \<in> adj (ps @ [?q]). nxt h5 a = b \<and> prv h5 b = a"
    unfolding fields by (rule ring_snoc [OF sh(2) False sh(3) adj_consec [OF sh(5)]])
  then show ?thesis
    using add rep sh fields False
    by (auto simp: list_rep_def list_shape_def map_val_upd nth_append less_SucI)
qed

lemma unlink_rep:
  assumes sh: "list_shape l (as @ p # bs) vs" and ne: "as @ bs \<noteq> []"
    and cur: "list_current l = Some p" "list_currentIndex l = length as"
  shows "\<exists>l'. list_unlink_current l = Inr (vs ! length as, l')
    \<and> list_shape (l'\<lparr>list_length := length as + length bs\<rparr>) (as @ bs)
         (take (length as) vs @ drop (Suc (length as)) vs)
    \<and> list_current l' = Some (if bs = [] then hd as else hd bs)
    \<and> list_currentIndex l' = length as \<and> list_length l' = list_length l"
proof -
  let ?h = "list_nodes l" and ?rs = "bs @ as"
  define b where "b = hd ?rs"
  define a where "a = last ?rs"
  have s: "dom ?h = insert p (set ?rs)" "distinct (p # ?rs)" "vs = map (val ?h) (as @ p # bs)"
    "\<forall>(a, b) \<in> adj (p # ?rs). nxt ?h a = b \<and> prv ?h b = a"
    "list_length l = length as + length bs + 1"
    "list_tail l = Some (last (p # bs))" "\<forall>q \<in> set (as @ p # bs). q < list_fresh l"
    using sh adj_swap [of as "p # bs"] by (auto simp: list_shape_def)
  have rs: "?rs \<noteq> []" using ne by auto
  have ab: "a \<in> set ?rs" "b \<in> set ?rs"
    unfolding a_def b_def by (rule last_in_set [OF rs], rule hd_in_set [OF rs])
  have ap: "a \<noteq> p" "b \<noteq> p" using ab s(2) by auto
  have links: "nxt ?h p = b" "prv ?h p = a" and cons: "\<forall>(x, y) \<in> consec ?rs. nxt ?h x = y \<and> prv ?h y = x"
    using s(4) rs by (auto simp: adj_Cons a_def b_def)
  define h1 where "h1 = ?h(b \<mapsto> (the (?h b))\<lparr>node_previous := a\<rparr>)"
  define h2 where "h2 = h1(a \<mapsto> (the (h1 a))\<lparr>node_next := b\<rparr>)"
  have flds: "nxt h2 = (nxt ?h)(a := b)" "prv h2 = (prv ?h)(b := a)" "val h2 = val ?h"
    "dom h2 = insert p (set ?rs)"
    using ab s(1) by (auto simp: h2_def h1_def fun_eq_iff)
  define l' where "l' = (if bs = [] then l\<lparr>list_tail := Some a\<rparr> else l)
      \<lparr>list_nodes := h2(p := None), list_current := Some b\<rparr>"
  have res: "list_unlink_current l = Inr (val ?h p, l')"
    using cur s(1,5) ab links
    by (cases "bs = []") (simp_all add: list_unlink_current_def h1_def h2_def l'_def Let_def)
  have "\<forall>(x, y) \<in> adj ?rs. nxt h2 x = y \<and> prv h2 y = x"
    unfolding flds a_def b_def using ring_close [OF _ rs cons] s(2) by simp
  moreover have "\<forall>(x, y) \<in> adj ?rs. x \<noteq> p \<and> y \<noteq> p"
    using s(2) by (auto dest: adj_in_set)
  ultimately have "\<forall>(x, y) \<in> adj ?rs. nxt (h2(p := None)) x = y \<and> prv (h2(p := None)) y = x"
    by (fastforce simp: free_fields)
  then have lk: "\<forall>(x, y) \<in> adj (as @ bs). nxt (h2(p := None)) x = y \<and> prv (h2(p := None)) y = x"
    using adj_swap [of as bs] by simp
  have d: "dom (h2(p := None)) = set (as @ bs)" using flds(4) s(2) by auto
  have v: "map (val (h2(p := None))) (as @ bs) = take (length as) vs @ drop (Suc (length as)) vs"
    using s(2,3) by (simp add: map_val_free flds(3))
  have t: "list_tail l' = Some (last (as @ bs))"
    using s(6) ne by (auto simp: l'_def a_def)
  have "list_shape (l'\<lparr>list_length := length as + length bs\<rparr>) (as @ bs)
      (take (length as) vs @ drop (Suc (length as)) vs)"
    using lk d v t s(2,7) ne by (auto simp: list_shape_def l'_def)
  moreover have "val ?h p = vs ! length as" using s(3) by (simp add: nth_append)
  moreover have "list_current l' = Some (if bs = [] then hd as else hd bs)"
    by (auto simp: l'_def b_def)
  ultimately show ?thesis using res cur s(5) by (auto simp: l'_def)
qed

lemma list_inv_length: "list_inv l vs \<Longrightarrow> list_length l = length vs"
  unfolding list_inv_def using list_repD(2,3) by metis

lemma list_inv_cursor: "list_inv l vs \<Longrightarrow> vs \<noteq> [] \<Longrightarrow> list_currentIndex l < length vs"
  unfolding list_inv_def using list_repD(3,4) by (metis length_0_conv)

lemma inv_create: "list_inv list_create []"
  using rep_create by (auto simp: list_inv_def)

lemma inv_add:
  assumes "list_inv l vs"
  shows "\<exists>l'. list_addValue l v = Inr l' \<and> list_inv l' (vs @ [v])
           \<and> list_currentIndex l' = list_currentIndex l"
proof -
  obtain ps where "list_rep l ps vs" using assms by (auto simp: list_inv_def)
  from rep_add [OF this, of v] show ?thesis by (auto simp: list_inv_def)
qed

lemma current_value_rep:
  "list_rep l ps vs \<Longrightarrow> ps \<noteq> [] \<Longrightarrow> list_current_value l = Inr (vs ! list_currentIndex l)"
  using list_repD [of l ps vs] shape_links [of l ps vs "list_currentIndex l"]
  by (simp add: list_current_value_def)

lemma inv_current_value:
  "list_inv l vs \<Longrightarrow> vs \<noteq> [] \<Longrightarrow> list_current_value l = Inr (vs ! list_currentIndex l)"
  unfolding list_inv_def using list_repD(3) current_value_rep by (metis length_0_conv)

lemma inv_move:
  assumes "list_inv l vs" and "i < length vs" and "move_safe (length vs) (list_currentIndex l) i"
  shows "\<exists>l'. list_moveToIndex l i = Inr l' \<and> list_inv l' vs \<and> list_currentIndex l' = i"
proof -
  obtain ps where rep: "list_rep l ps vs" using assms(1) by (auto simp: list_inv_def)
  with assms(2,3) have "list_moveToIndex l i = Inr (seek l ps i)" "list_rep (seek l ps i) ps vs"
    using list_repD [OF rep] by (auto intro: move_rep list_rep_seek)
  then show ?thesis by (auto simp: list_inv_def)
qed

lemma inv_get:
  assumes "list_inv l vs" and "i < length vs" and "move_safe (length vs) (list_currentIndex l) i"
  shows "\<exists>l'. list_getValue l i = Inr (Some (vs ! i), l') \<and> list_inv l' vs \<and> list_currentIndex l' = i"
proof -
  obtain l' where l': "list_moveToIndex l i = Inr l'" "list_inv l' vs" "list_currentIndex l' = i"
    using inv_move [OF assms] by blast
  have "vs \<noteq> []" using assms(2) by auto
  with l' inv_current_value [of l' vs] assms(1,2) show ?thesis
    by (simp add: list_getValue_def list_inv_length)
qed

lemma inv_get_none: "list_inv l vs \<Longrightarrow> length vs \<le> i \<Longrightarrow> list_getValue l i = Inr (None, l)"
  by (simp add: list_getValue_def list_inv_length)

lemma inv_set:
  assumes "list_inv l vs" and "i < length vs" and "move_safe (length vs) (list_currentIndex l) i"
  shows "\<exists>l'. list_setValue l i v = Inr (Some (vs ! i), l') \<and> list_inv l' (vs[i := v])
           \<and> list_currentIndex l' = i"
proof -
  obtain ps where rep: "list_rep l ps vs" using assms(1) by (auto simp: list_inv_def)
  have i: "i < length ps" "ps \<noteq> []" "length vs = length ps"
    using assms(2) list_repD [OF rep] by auto
  have mv: "list_moveToIndex l i = Inr (seek l ps i)" and sk: "list_rep (seek l ps i) ps vs"
    using assms i rep list_repD [OF rep] by (auto intro: move_rep list_rep_seek)
  let ?h = "(list_nodes l)(ps ! i \<mapsto> (the (list_nodes l (ps ! i)))\<lparr>node_value := v\<rparr>)"
  have d: "ps ! i \<in> dom (list_nodes l)"
    using shape_links(3) [OF list_repD(1) [OF rep] i(1)] .
  then have "list_setValue l i v = Inr (Some (vs ! i), (seek l ps i)\<lparr>list_nodes := ?h\<rparr>)"
    using mv current_value_rep [OF sk i(2)] i list_repD(2) [OF rep]
    by (simp add: list_setValue_def)
  moreover have "map ((val (list_nodes l))(ps ! i := v)) ps = vs[i := v]"
    using list_repD(1) [OF rep] i by (auto simp: list_shape_def map_update [symmetric]
        nth_eq_iff_index_eq nth_list_update intro!: nth_equalityI)
  then have "list_rep ((seek l ps i)\<lparr>list_nodes := ?h\<rparr>) ps (vs[i := v])"
    using sk i d by (auto simp: list_rep_def list_shape_def insert_absorb fun_upd_idem)
  ultimately show ?thesis by (auto simp: list_inv_def)
qed

lemma inv_remove:
  assumes inv: "list_inv l vs" and i: "i < length vs"
    and safe: "move_safe (length vs) (list_currentIndex l) i"
  shows "\<exists>l'. list_removeValue l i = Inr (Some (vs ! i), l')
           \<and> list_inv l' (take i vs @ drop (Suc i) vs)
           \<and> list_currentIndex l' = (if Suc i = length vs then 0 else i)"
proof -
  obtain ps where rep: "list_rep l ps vs" using inv by (auto simp: list_inv_def)
  note d = list_repD [OF rep]
  show ?thesis
  proof (cases "length vs = 1")
    case True
    then obtain p v where pv: "ps = [p]" "vs = [v]" and l1: "list_length l = 1"
      using d by (auto simp: length_Suc_conv)
    have "list_removeValue l i = Inr (Some v, l\<lparr>list_nodes := (list_nodes l)(p := None),
        list_current := None, list_tail := None, list_length := 0, list_currentIndex := 0\<rparr>)"
      using i pv l1 d current_value_rep [OF rep] by (simp add: list_removeValue_def)
    moreover have "list_rep (l\<lparr>list_nodes := (list_nodes l)(p := None),
        list_current := None, list_tail := None, list_length := 0, list_currentIndex := 0\<rparr>) [] []"
      using d(1) pv by (auto simp: list_rep_def list_shape_def adj_def)
    ultimately show ?thesis using i pv by (auto simp: list_inv_def)
  next
    case False
    have mv: "list_moveToIndex l i = Inr (seek l ps i)" using rep i safe d by (auto intro: move_rep)
    let ?as = "take i ps" and ?bs = "drop (Suc i) ps"
    have ps: "ps = ?as @ ps ! i # ?bs" and las: "length ?as = i" and ne: "?as @ ?bs \<noteq> []"
      using i d(3) False by (auto simp: id_take_nth_drop [symmetric])
    have sh: "list_shape (seek l ps i) (?as @ ps ! i # ?bs) vs"
      using list_repD(1) [OF list_rep_seek [OF d(1), of i]] i d(3) ps by simp
    obtain l' where l': "list_unlink_current (seek l ps i) = Inr (vs ! i, l')"
      "list_shape (l'\<lparr>list_length := length ?as + length ?bs\<rparr>) (?as @ ?bs) (take i vs @ drop (Suc i) vs)"
      "list_current l' = Some (if ?bs = [] then hd ?as else hd ?bs)"
      "list_currentIndex l' = i" "list_length l' = length ps"
      using unlink_rep [OF sh ne] las d(2) by auto
    let ?j = "if Suc i = length vs then 0 else i"
    let ?l = "l'\<lparr>list_length := length ps - 1, list_currentIndex := ?j\<rparr>"
    have len: "length ?as + length ?bs = length ps - 1" using i d(3) by simp
    have j: "i mod (length ps - 1) = ?j"
      using i d(3) False by (cases "i = length ps - 1") auto
    have "list_removeValue l i = Inr (Some (vs ! i), ?l)"
      using l' mv i d False j by (auto simp: list_removeValue_def Let_def)
    moreover have "list_current ?l = Some ((?as @ ?bs) ! ?j)"
      using l'(3) i d(3) ne by (auto simp: hd_conv_nth nth_append)
    with l'(2) have "list_rep ?l (?as @ ?bs) (take i vs @ drop (Suc i) vs)"
      using ne i d(3) False by (auto simp: list_rep_def list_shape_def)
    ultimately show ?thesis by (auto simp: list_inv_def)
  qed
qed

lemma inv_remove_none: "list_inv l vs \<Longrightarrow> length vs \<le> i \<Longrightarrow> list_removeValue l i = Inr (None, l)"
  by (simp add: list_removeValue_def list_inv_length)

lemma move_safe_0 [simp]: "move_safe n c 0"
  by (simp add: move_safe_def)

lemma move_safe_last [simp]: "move_safe (Suc i) c i"
  by (simp add: move_safe_def)

lemma move_safe_same [simp]: "move_safe n i i"
  by (simp add: move_safe_def)

lemma move_safe_next: "c < n \<Longrightarrow> move_safe n c (Suc c mod n)"
  by (cases "Suc c = n") (auto simp: move_safe_def)

lemma move_safe_Suc [simp]: "Suc i < n \<Longrightarrow> move_safe n i (Suc i)"
  by (simp add: move_safe_def)

lemma inv_remove_0:
  assumes "list_inv l (v # vs)"
  shows "\<exists>l'. list_removeValue l 0 = Inr (Some v, l') \<and> list_inv l' vs \<and> list_currentIndex l' = 0"
  using inv_remove [OF assms, of 0] by simp

lemma inv_clear_loop:
  "list_inv l vs \<Longrightarrow> length vs \<le> n \<Longrightarrow> \<exists>l'. list_clear_loop n l = Inr l' \<and> list_inv l' []"
proof (induction n arbitrary: l vs)
  case 0
  then show ?case by simp
next
  case (Suc n)
  show ?case
  proof (cases vs)
    case Nil
    with Suc.prems show ?thesis by (auto simp: list_inv_length)
  next
    case (Cons v vs')
    then obtain l1 where l1: "list_removeValue l 0 = Inr (Some v, l1)" "list_inv l1 vs'"
      using inv_remove_0 [of l v vs'] Suc.prems(1) by auto
    with Suc.IH [OF l1(2)] Suc.prems Cons show ?thesis by (auto simp: list_inv_length)
  qed
qed

lemma inv_clear: "list_inv l vs \<Longrightarrow> \<exists>l'. list_clear l = Inr l' \<and> list_inv l' []"
  using inv_clear_loop [of l vs "length vs"] by (simp add: list_clear_def list_inv_length)

lemma inv_empty_nodes: "list_inv l [] \<Longrightarrow> list_nodes l = Map.empty"
  by (auto simp: list_inv_def list_rep_def list_shape_def)

section \<open>Searching\<close>

lemma findIndex_loop_hit:
  assumes "list_inv l vs" and "list_currentIndex l = (start + i) mod length vs"
    and "\<forall>j < k. vs ! ((start + i + j) mod length vs) \<noteq> v"
    and "vs ! ((start + i + k) mod length vs) = v" and "k < rest" and "vs \<noteq> []"
  shows "\<exists>l'. list_findIndex_loop rest i start l v = Inr (int ((start + i + k) mod length vs), l')
           \<and> list_inv l' vs \<and> list_currentIndex l' = (start + i + k) mod length vs"
  using assms
proof (induction rest arbitrary: i k l)
  case 0
  then show ?case by simp
next
  case (Suc rest)
  have cur: "list_current_value l = Inr (vs ! ((start + i) mod length vs))"
    using Suc.prems inv_current_value by fastforce
  show ?case
  proof (cases k)
    case 0
    with Suc.prems cur show ?thesis by (auto simp: list_inv_length)
  next
    case (Suc k')
    have miss: "vs ! ((start + i) mod length vs) \<noteq> v" using Suc.prems(3) Suc by (auto dest: spec [of _ 0])
    have "(start + i) mod length vs < length vs" using Suc.prems(6) by simp
    from move_safe_next [OF this]
    have "move_safe (length vs) (list_currentIndex l) ((start + i + 1) mod length vs)"
      using Suc.prems(2) by (simp add: mod_Suc_eq)
    then obtain l1 where l1: "list_moveToIndex l ((start + i + 1) mod length vs) = Inr l1"
      "list_inv l1 vs" "list_currentIndex l1 = (start + i + 1) mod length vs"
      using inv_move [OF Suc.prems(1), of "(start + i + 1) mod length vs"] Suc.prems(6) by auto
    have "\<forall>j < k'. vs ! ((start + (i + 1) + j) mod length vs) \<noteq> v"
    proof (intro allI impI)
      fix j
      assume "j < k'"
      then have "Suc j < k" using Suc by simp
      with Suc.prems(3) have "vs ! ((start + i + Suc j) mod length vs) \<noteq> v" by blast
      then show "vs ! ((start + (i + 1) + j) mod length vs) \<noteq> v" by simp
    qed
    with Suc.IH [of l1 "i + 1" k'] l1 Suc.prems Suc obtain l' where
      "list_findIndex_loop rest (i + 1) start l1 v = Inr (int ((start + i + k) mod length vs), l')"
      "list_inv l' vs" "list_currentIndex l' = (start + i + k) mod length vs"
      by auto
    with cur miss l1 Suc.prems(1) show ?thesis by (simp add: list_inv_length)
  qed
qed

lemma findIndex_loop_miss:
  assumes "list_inv l vs" and "v \<notin> set vs" and "vs \<noteq> []"
    and "list_currentIndex l = (start + i) mod length vs"
  shows "\<exists>l'. list_findIndex_loop rest i start l v = Inr (-1, l') \<and> list_inv l' vs"
  using assms
proof (induction rest arbitrary: i l)
  case 0
  then show ?case by simp
next
  case (Suc rest)
  have lt: "(start + i) mod length vs < length vs" using Suc.prems(3) by simp
  have cur: "list_current_value l = Inr (vs ! ((start + i) mod length vs))"
    using Suc.prems inv_current_value by fastforce
  have miss: "vs ! ((start + i) mod length vs) \<noteq> v" using Suc.prems(2) nth_mem [OF lt] by auto
  from move_safe_next [OF lt]
  have "move_safe (length vs) (list_currentIndex l) ((start + i + 1) mod length vs)"
    using Suc.prems(4) by (simp add: mod_Suc_eq)
  then obtain l1 where l1: "list_moveToIndex l ((start + i + 1) mod length vs) = Inr l1"
    "list_inv l1 vs" "list_currentIndex l1 = (start + i + 1) mod length vs"
    using inv_move [OF Suc.prems(1), of "(start + i + 1) mod length vs"] Suc.prems(3) by auto
  with Suc.IH [of l1 "i + 1"] Suc.prems cur miss show ?case by (auto simp: list_inv_length)
qed

lemma inv_findIndex_miss:
  "list_inv l vs \<Longrightarrow> v \<notin> set vs \<Longrightarrow> \<exists>l'. list_findIndex l v = Inr (-1, l') \<and> list_inv l' vs"
  using findIndex_loop_miss [of l vs v "list_currentIndex l" 0 "length vs"] list_inv_cursor [of l vs]
  by (cases "vs = []") (auto simp: list_findIndex_def list_inv_length)

lemma ex_cyclic_hit:
  assumes "v \<in> set vs" and "c < length vs"
  shows "\<exists>k < length vs. vs ! ((c + k) mod length vs) = v
           \<and> (\<forall>j < k. vs ! ((c + j) mod length vs) \<noteq> v)"
proof -
  let ?n = "length vs" and ?P = "\<lambda>k. vs ! ((c + k) mod length vs) = v"
  obtain i where i: "i < ?n" "vs ! i = v" using assms(1) by (auto simp: in_set_conv_nth)
  have "(c + (?n - c + i)) mod ?n = i" using i(1) assms(2) by simp
  moreover have "(c + (?n - c + i) mod ?n) mod ?n = (c + (?n - c + i)) mod ?n"
    by (simp add: mod_add_right_eq)
  ultimately have ex: "?P ((?n - c + i) mod ?n)" using i(2) by simp
  have lt: "(?n - c + i) mod ?n < ?n" using i(1) by (intro mod_less_divisor) linarith
  have "(LEAST k. ?P k) < ?n" using lt Least_le [of ?P, OF ex] by linarith
  then show ?thesis using LeastI [of ?P, OF ex] not_less_Least [of _ ?P] by blast
qed

lemma inv_findIndex_hit:
  assumes "list_inv l vs" and "v \<in> set vs"
  shows "\<exists>i l'. list_findIndex l v = Inr (int i, l') \<and> i < length vs \<and> vs ! i = v
           \<and> list_inv l' vs \<and> list_currentIndex l' = i"
proof -
  let ?c = "list_currentIndex l"
  have ne: "vs \<noteq> []" using assms(2) by auto
  then have c: "?c < length vs" using list_inv_cursor [OF assms(1)] by simp
  obtain k where "k < length vs" "vs ! ((?c + k) mod length vs) = v"
    "\<forall>j < k. vs ! ((?c + j) mod length vs) \<noteq> v"
    using ex_cyclic_hit [OF assms(2) c] by auto
  with findIndex_loop_hit [OF assms(1), of ?c 0 k v "length vs"] ne c assms(1)
  show ?thesis by (auto simp: list_findIndex_def list_inv_length)
qed

section \<open>Wrapping below index 0\<close>

lemma step_left_shape:
  assumes "list_shape l ps vs" and "list_current l = Some p" and "p \<in> set ps"
  shows "\<exists>l' q. list_step False l = Inr l' \<and> list_shape l' ps vs \<and> list_current l' = Some q
           \<and> q \<in> set ps \<and> list_currentIndex l' = dec64 (list_currentIndex l) mod length ps"
proof -
  obtain i where i: "i < length ps" "ps ! i = p" using assms(3) by (auto simp: in_set_conv_nth)
  have "prv (list_nodes l) p \<in> set ps"
  proof (cases "i = 0")
    case True
    then have "(last ps, p) \<in> adj ps" using i by (auto simp: adj_def hd_conv_nth)
    then have "prv (list_nodes l) p = last ps" using assms(1) by (auto simp: list_shape_def)
    then show ?thesis using i(1) by (metis last_in_set length_0_conv not_less_zero)
  next
    case False
    then show ?thesis using shape_links(2) [OF assms(1) i(1)] i by auto
  qed
  moreover have "p \<in> dom (list_nodes l)" using assms(1,3) by (simp add: list_shape_def)
  ultimately show ?thesis
    using assms by (auto simp: list_step_def list_shape_def Let_def)
qed

lemma loop_left_diverges:
  assumes "list_shape l ps vs" and "list_current l = Some p" and "p \<in> set ps"
    and "list_currentIndex l < index" and "(2 ^ 64 - 1) mod length ps < index"
  shows "list_moveToIndex_loop fuel False index l = Inl Diverges"
  using assms(1-4)
proof (induction fuel arbitrary: l p)
  case 0
  then show ?case by (simp add: list_moveToIndex_loop.simps)
next
  case (Suc fuel)
  obtain l' q where l': "list_step False l = Inr l'" "list_shape l' ps vs" "list_current l' = Some q"
    "q \<in> set ps" "list_currentIndex l' = dec64 (list_currentIndex l) mod length ps"
    using step_left_shape [OF Suc.prems(1-3)] by blast
  have "(list_currentIndex l - 1) mod length ps < index"
    using Suc.prems(4) mod_less_eq_dividend [of "list_currentIndex l - 1" "length ps"] by linarith
  then have "dec64 (list_currentIndex l) mod length ps < index"
    using assms(5) by (simp add: dec64_def)
  with Suc.IH [of l' q] l' Suc.prems(4) show ?case
    by (simp add: list_moveToIndex_loop.simps [of "Suc fuel"])
qed

lemma loop_left_returns:
  assumes "list_shape l ps vs" and "list_current l = Some p" and "p \<in> set ps"
    and "index \<le> (2 ^ 64 - 1) mod length ps"
    and "(if index \<le> list_currentIndex l then list_currentIndex l - index
          else list_currentIndex l + 1 + (2 ^ 64 - 1) mod length ps - index) \<le> fuel"
    and "list_currentIndex l < length ps"
  shows "\<exists>l'. list_moveToIndex_loop fuel False index l = Inr l'"
  using assms(1-3,5,6)
proof (induction fuel arbitrary: l p)
  case 0
  with assms(4) show ?case by (auto simp: list_moveToIndex_loop.simps split: if_splits)
next
  case (Suc fuel)
  show ?case
  proof (cases "list_currentIndex l = index")
    case True
    then show ?thesis by (simp add: list_moveToIndex_loop.simps)
  next
    case False
    obtain l' q where l': "list_step False l = Inr l'" "list_shape l' ps vs" "list_current l' = Some q"
      "q \<in> set ps" "list_currentIndex l' = dec64 (list_currentIndex l) mod length ps"
      using step_left_shape [OF Suc.prems(1-3)] by blast
    have i: "list_currentIndex l' = (if list_currentIndex l = 0 then (2 ^ 64 - 1) mod length ps
        else list_currentIndex l - 1)"
      using l'(5) Suc.prems(5) by (simp add: dec64_def)
    have "list_currentIndex l' < length ps"
      unfolding l'(5) using Suc.prems(5) by (intro mod_less_divisor) linarith
    moreover have "(if index \<le> list_currentIndex l' then list_currentIndex l' - index
          else list_currentIndex l' + 1 + (2 ^ 64 - 1) mod length ps - index) \<le> fuel"
    proof -
      define w where "w = (2 ^ 64 - 1) mod length ps"
      show ?thesis
        using Suc.prems(4) False assms(4) unfolding i w_def [symmetric] by (auto split: if_splits)
    qed
    ultimately have "\<exists>l''. list_moveToIndex_loop fuel False index l' = Inr l''"
      using Suc.IH [of l' q] l'(2-4) by simp
    with False l'(1) show ?thesis by (auto simp: list_moveToIndex_loop.simps [of "Suc fuel"])
  qed
qed

lemma move_loop_fuel_complete:
  assumes rep: "list_rep l ps vs" and i: "index < length ps"
    and div: "list_moveToIndex l index = Inl Diverges"
  shows "list_moveToIndex_loop fuel (list_direction_right (length ps) (list_currentIndex l) index)
           index l = Inl Diverges"
proof -
  let ?c = "list_currentIndex l" and ?n = "length ps" and ?w = "(2 ^ 64 - 1) mod length ps"
  have "\<not> move_safe ?n ?c index" using move_rep [OF rep i] div by auto
  then have c: "?c < index" "index + 1 \<noteq> ?n" "\<not> list_direction_right ?n ?c index"
    by (auto simp: move_safe_def list_direction_right_def)
  have ne: "ps \<noteq> []" using i by auto
  note d = list_repD [OF rep]
  have p: "ps ! ?c \<in> set ps" using d(4) ne by simp
  have loop: "list_moveToIndex_loop (2 * ?n) False index l = Inl Diverges"
    using div c d(2) by (auto simp: list_moveToIndex_def)
  show ?thesis
  proof (cases "?w < index")
    case True
    then show ?thesis using loop_left_diverges [OF d(1) d(5) [OF ne] p c(1)] c(3) by simp
  next
    case False
    have "?w < ?n" using ne by (intro mod_less_divisor) auto
    with False c(1) d(4) [OF ne] have "?c + 1 + ?w - index \<le> 2 * ?n" by linarith
    with False c(1) d(4) ne have "\<exists>l'. list_moveToIndex_loop (2 * ?n) False index l = Inr l'"
      by (intro loop_left_returns [OF d(1) d(5) [OF ne] p]) auto
    with loop show ?thesis by auto
  qed
qed

section \<open>Sequential access\<close>

text \<open>
  The callers read a container by index from 0 upwards. \<open>sequential_access\<close> is what they rely
  on: index 0 and the index after the cursor can always be read.
\<close>

fun read_seq :: "('l \<Rightarrow> nat \<Rightarrow> ('a option \<times> 'l) exec) \<Rightarrow> nat \<Rightarrow> nat \<Rightarrow> 'l \<Rightarrow> ('a list \<times> 'l) exec" where
  "read_seq get 0 i l = Inr ([], l)"
| "read_seq get (Suc n) i l =
     bnd (get l i) (\<lambda>(p, l1). bnd (deref p) (\<lambda>v.
     bnd (read_seq get n (Suc i) l1) (\<lambda>(vs, l2). Inr (v # vs, l2))))"

locale sequential_access =
  fixes inv :: "'l \<Rightarrow> 'a list \<Rightarrow> bool"
    and cursor :: "'l \<Rightarrow> nat"
    and get :: "'l \<Rightarrow> nat \<Rightarrow> ('a option \<times> 'l) exec"
  assumes get_first: "inv l vs \<Longrightarrow> vs \<noteq> [] \<Longrightarrow>
      \<exists>l'. get l 0 = Inr (Some (vs ! 0), l') \<and> inv l' vs \<and> cursor l' = 0"
    and get_next: "inv l vs \<Longrightarrow> cursor l = i \<Longrightarrow> Suc i < length vs \<Longrightarrow>
      \<exists>l'. get l (Suc i) = Inr (Some (vs ! Suc i), l') \<and> inv l' vs \<and> cursor l' = Suc i"
begin

lemma read_from:
  "inv l vs \<Longrightarrow> i + n = length vs \<Longrightarrow> (i = 0 \<or> cursor l = i - 1) \<Longrightarrow>
   \<exists>l'. read_seq get n i l = Inr (drop i vs, l') \<and> inv l' vs"
proof (induction n arbitrary: i l)
  case 0
  then show ?case by simp
next
  case (Suc n)
  then have i: "i < length vs" by simp
  have "\<exists>l1. get l i = Inr (Some (vs ! i), l1) \<and> inv l1 vs \<and> cursor l1 = i"
    using Suc.prems get_first [of l vs] get_next [of l vs "i - 1"] i by (cases i) auto
  then obtain l1 where l1: "get l i = Inr (Some (vs ! i), l1)" "inv l1 vs" "cursor l1 = i"
    by blast
  with Suc.IH [of l1 "Suc i"] Suc.prems(2) i show ?case
    by (auto simp: Cons_nth_drop_Suc)
qed

lemma read_all: "inv l vs \<Longrightarrow> \<exists>l'. read_seq get (length vs) 0 l = Inr (vs, l') \<and> inv l' vs"
  using read_from [of l vs 0 "length vs"] by simp

end

interpretation list_access: sequential_access list_inv list_currentIndex list_getValue
proof
  fix l :: "'a list_t" and vs :: "'a list"
  assume "list_inv l vs" and "vs \<noteq> []"
  then show "\<exists>l'. list_getValue l 0 = Inr (Some (vs ! 0), l') \<and> list_inv l' vs \<and> list_currentIndex l' = 0"
    using inv_get [of l vs 0] by simp
next
  fix l :: "'a list_t" and vs :: "'a list" and i
  assume "list_inv l vs" and "list_currentIndex l = i" and "Suc i < length vs"
  then show "\<exists>l'. list_getValue l (Suc i) = Inr (Some (vs ! Suc i), l') \<and> list_inv l' vs
      \<and> list_currentIndex l' = Suc i"
    using inv_get [of l vs "Suc i"] by simp
qed

text \<open>A list in memory represents one sequence only.\<close>

lemma list_inv_unique: "list_inv l vs \<Longrightarrow> list_inv l us \<Longrightarrow> vs = us"
  using list_access.read_all [of l vs] list_access.read_all [of l us] list_inv_length [of l vs] list_inv_length [of l us] by auto

section \<open>Properties\<close>

text \<open>C20. The linked list refines a sequence: on a well-linked ring that holds \<open>vs\<close>, adding
  appends, reading, replacing and removing at an index the cursor can reach without going left
  past index 0 act on exactly that position, an index out of range changes nothing and yields
  null, and clearing releases every node; each operation leaves a well-linked ring.\<close>

theorem list_refines_sequence:
  assumes inv: "list_inv l vs" and safe: "move_safe (length vs) (list_currentIndex l) i"
  shows "(\<exists>l'. list_addValue l v = Inr l' \<and> list_inv l' (vs @ [v]))
    \<and> (i < length vs \<longrightarrow>
        (\<exists>l'. list_getValue l i = Inr (Some (vs ! i), l') \<and> list_inv l' vs)
      \<and> (\<exists>l'. list_setValue l i v = Inr (Some (vs ! i), l') \<and> list_inv l' (vs[i := v]))
      \<and> (\<exists>l'. list_removeValue l i = Inr (Some (vs ! i), l')
            \<and> list_inv l' (take i vs @ drop (Suc i) vs)))
    \<and> (length vs \<le> i \<longrightarrow> list_getValue l i = Inr (None, l)
        \<and> list_setValue l i v = Inr (None, l) \<and> list_removeValue l i = Inr (None, l))
    \<and> list_free l = Inr Map.empty"
proof -
  obtain l0 where "list_clear l = Inr l0" "list_inv l0 []" using inv_clear [OF inv] by blast
  then have "list_free l = Inr Map.empty" by (simp add: list_free_def inv_empty_nodes)
  then show ?thesis
    using inv_add [OF inv, of v] inv_get [OF inv _ safe] inv_set [OF inv _ safe, of v]
      inv_remove [OF inv _ safe] inv_get_none [OF inv, of i] inv_remove_none [OF inv, of i]
      list_inv_length [OF inv]
    by (auto simp: list_setValue_def)
qed

theorem list_refines_sequence_witness:
  "\<exists>l. list_inv l [True, False] \<and> (\<exists>l'. list_getValue l 1 = Inr (Some False, l') \<and> list_inv l' [True, False])"
proof -
  obtain l1 :: "bool list_t" where "list_inv l1 [True]" using inv_add [OF inv_create] by fastforce
  then obtain l where l: "list_inv l [True, False]" using inv_add by fastforce
  then have "move_safe (length [True, False]) (list_currentIndex l) 1" by (simp add: move_safe_def)
  from list_refines_sequence [OF l this, of True] l show ?thesis by auto
qed

text \<open>Reading a list by index from 0 upwards, the way every caller in the server walks
  over one, returns all values in order wherever the cursor was before.\<close>

theorem list_read_in_order:
  assumes "list_inv l vs"
  shows "\<exists>l'. read_seq list_getValue (list_getLength l) 0 l = Inr (vs, l') \<and> list_inv l' vs"
  using list_access.read_all [OF assms] list_inv_length [OF assms] by (simp add: list_getLength_def)

theorem list_read_in_order_witness:
  "\<exists>l l'. list_inv l [True, False] \<and> read_seq list_getValue (list_getLength l) 0 l = Inr ([True, False], l')"
proof -
  obtain l1 :: "bool list_t" where "list_inv l1 [True]" using inv_add [OF inv_create] by fastforce
  then obtain l where l: "list_inv l [True, False]" using inv_add by fastforce
  from list_read_in_order [OF l] l show ?thesis by blast
qed

text \<open>\<open>list_findIndex\<close> finds a value exactly when the list holds it, and then returns an index
  where it is.\<close>

theorem list_findIndex_correct:
  assumes "list_inv l vs"
  shows "\<exists>r l'. list_findIndex l v = Inr (r, l') \<and> list_inv l' vs
    \<and> (if v \<in> set vs then 0 \<le> r \<and> nat r < length vs \<and> vs ! nat r = v else r = -1)"
proof (cases "v \<in> set vs")
  case True
  obtain i l' where "list_findIndex l v = Inr (int i, l')" "i < length vs" "vs ! i = v" "list_inv l' vs"
    using inv_findIndex_hit [OF assms True] by blast
  with True show ?thesis by (intro exI [of _ "int i"] exI [of _ l']) simp
next
  case False
  with inv_findIndex_miss [OF assms False] show ?thesis by auto
qed

theorem list_findIndex_correct_witness:
  "\<exists>r l'. list_findIndex list_create True = Inr (r, l') \<and> r = -1"
  using list_findIndex_correct [OF inv_create, of True] by auto

text \<open>When the shorter way round leads left past index 0 and the target lies above
  \<open>(2 ^ 64 - 1) mod length\<close>, \<^verbatim>\<open>list_moveToIndex\<close> never returns: the index wraps as a
  \<^verbatim>\<open>size_t\<close> before it is reduced modulo the length, and no number of rounds reaches the target.\<close>

theorem list_wrap_left_diverges:
  assumes rep: "list_rep l ps vs" and "list_currentIndex l < index" and "index + 1 < length ps"
    and "1 + list_currentIndex l + length ps - index < index - list_currentIndex l"
    and "(2 ^ 64 - 1) mod length ps < index"
  shows "list_getValue l index = Inl Diverges
    \<and> (\<forall>fuel. list_moveToIndex_loop fuel
          (list_direction_right (length ps) (list_currentIndex l) index) index l = Inl Diverges)"
proof -
  have ne: "ps \<noteq> []" and dir: "\<not> list_direction_right (length ps) (list_currentIndex l) index"
    using assms by (auto simp: list_direction_right_def)
  note d = list_repD [OF rep]
  have "ps ! list_currentIndex l \<in> set ps" using d(4) ne by simp
  from loop_left_diverges [OF d(1) d(5) [OF ne] this assms(2,5)] dir d(2) assms(2,3)
  show ?thesis by (simp add: list_getValue_def list_moveToIndex_def)
qed

lemma ex_rep_at_0: "\<exists>l ps. list_rep l ps vs \<and> list_currentIndex l = 0"
proof (induction vs rule: rev_induct)
  case Nil
  show ?case using rep_create by (fastforce simp: list_create_def)
next
  case (snoc v vs)
  then show ?case using rep_add [of _ _ vs v] by fastforce
qed

theorem list_wrap_left_diverges_witness:
  "\<exists>(l :: nat list_t) ps. list_rep l ps [0..<7] \<and> list_getValue l 5 = Inl Diverges"
proof -
  obtain l :: "nat list_t" and ps where l: "list_rep l ps [0..<7]" "list_currentIndex l = 0"
    using ex_rep_at_0 by blast
  moreover have "length ps = 7" using list_repD(3) [OF l(1)] by simp
  ultimately show ?thesis using list_wrap_left_diverges [OF l(1), of 5] by auto
qed

text \<open>Where the wrapped index happens to hit the target, the cursor's node is another one:
  reading index \<open>(2 ^ 64 - 1) mod length\<close> from index 0 the short way round returns the last
  value of the list; with nine values, index 6 yields the value at index 8.\<close>

theorem list_wrap_left_wrong_value:
  assumes rep: "list_rep l ps vs" and "list_currentIndex l = 0" and "index + 1 < length ps"
    and "1 + length ps - index < index" and "index = (2 ^ 64 - 1) mod length ps"
  shows "\<exists>l'. list_getValue l index = Inr (Some (last vs), l')"
proof -
  note d = list_repD [OF rep]
  have ne: "ps \<noteq> []" "vs \<noteq> []" and z: "0 < index" and dir: "\<not> list_direction_right (length ps) 0 index"
    using assms d(3) by (auto simp: list_direction_right_def)
  have "(last ps, ps ! 0) \<in> adj ps" using ne by (simp add: adj_def hd_conv_nth)
  then have p: "prv (list_nodes l) (ps ! 0) = last ps" using d(1) by (auto simp: list_shape_def)
  have dom: "ps ! 0 \<in> dom (list_nodes l)" "last ps \<in> dom (list_nodes l)"
    using d(1) ne by (auto simp: list_shape_def)
  have v: "val (list_nodes l) (last ps) = last vs"
    using d(1) ne by (auto simp: list_shape_def last_map)
  have "list_step False l = Inr (l\<lparr>list_currentIndex := index, list_current := Some (last ps)\<rparr>)"
    using d(2,5) ne dom p assms(2,5) by (simp add: list_step_def dec64_def)
  then have "list_moveToIndex l index = Inr (l\<lparr>list_currentIndex := index, list_current := Some (last ps)\<rparr>)"
    using assms(2,3) d(2) z dir
    by (cases "2 * length ps") (auto simp: list_moveToIndex_def list_moveToIndex_loop.simps)
  then show ?thesis using assms(3) d(2) dom v by (simp add: list_getValue_def list_current_value_def)
qed

theorem list_wrap_left_wrong_value_witness:
  "\<exists>(l :: nat list_t) ps l'. list_rep l ps [0..<9] \<and> list_getValue l 6 = Inr (Some 8, l')"
proof -
  obtain l :: "nat list_t" and ps where l: "list_rep l ps [0..<9]" "list_currentIndex l = 0"
    using ex_rep_at_0 by blast
  moreover have "length ps = 9" using list_repD(3) [OF l(1)] by simp
  moreover have "last [0..<9] = (8 :: nat)" by simp
  ultimately show ?thesis using list_wrap_left_wrong_value [OF l, of 6] by fastforce
qed

end
