(* ===== verification/Message_Queue.thy ===== *)
theory Message_Queue
  imports CList
begin

text \<open>
  The blocking queue of \<^verbatim>\<open>src/datastructures/message-queue/message-queue.c\<close> that hands connections
  from the accepting thread to the pool of workers, as a transition system: any number of threads
  run \<^verbatim>\<open>message_queue_push\<close>, \<^verbatim>\<open>message_queue_pop\<close> and \<^verbatim>\<open>message_queue_unlock\<close>, one statement that
  touches shared state per step, interleaved in every possible way. The mutex and the condition
  variable behave as POSIX documents them: waiting releases the mutex atomically, a signal wakes
  at most one waiter, a waiter may also wake up spuriously, and a woken thread must take the mutex
  again. Messages are not null. The ghost fields record the order of insertions and removals.
\<close>

section \<open>State\<close>

text \<open>The program counter of a thread: which statement of which function is next.\<close>

datatype 'v mq_pc =
    Idle
  | PushLock 'v | PushAdd 'v | PushSignal | PushUnlock
  | PopLock | PopCheck | PopLoop | PopWaiting | PopRelock | PopUnlock "'v option"
  | UnlockLock | UnlockSet | UnlockBroadcast | UnlockUnlock

record 'v message_queue_t =
  mq_list :: "'v list_t"
  mq_mutex :: "nat option"
  mq_unlocked :: bool
  mq_pcs :: "'v mq_pc list"
  mq_pushed :: "'v list"
  mq_popped :: "'v list"

definition message_queue_create :: "nat \<Rightarrow> 'v message_queue_t" where
  "message_queue_create n =
     \<lparr>mq_list = list_create, mq_mutex = None, mq_unlocked = False, mq_pcs = replicate n Idle,
      mq_pushed = [], mq_popped = []\<rparr>"

definition mq_initial :: "'v message_queue_t \<Rightarrow> bool" where
  "mq_initial q \<longleftrightarrow> (\<exists>n. q = message_queue_create n)"

abbreviation goto :: "'v message_queue_t \<Rightarrow> nat \<Rightarrow> 'v mq_pc \<Rightarrow> 'v message_queue_t" where
  "goto q t pc \<equiv> q\<lparr>mq_pcs := (mq_pcs q)[t := pc]\<rparr>"

abbreviation at_pc :: "'v message_queue_t \<Rightarrow> nat \<Rightarrow> 'v mq_pc \<Rightarrow> bool" where
  "at_pc q t pc \<equiv> t < length (mq_pcs q) \<and> mq_pcs q ! t = pc"

definition wake_all :: "'v mq_pc list \<Rightarrow> 'v mq_pc list" where
  "wake_all pcs = map (\<lambda>pc. if pc = PopWaiting then PopRelock else pc) pcs"

section \<open>Steps\<close>

inductive message_queue_push :: "'v message_queue_t \<Rightarrow> 'v message_queue_t \<Rightarrow> bool" where
  push_call: "at_pc q t Idle \<Longrightarrow> message_queue_push q (goto q t (PushLock v))"
| push_lock: "at_pc q t (PushLock v) \<Longrightarrow> mq_mutex q = None \<Longrightarrow>
    message_queue_push q ((goto q t (PushAdd v))\<lparr>mq_mutex := Some t\<rparr>)"
| push_add: "at_pc q t (PushAdd v) \<Longrightarrow> list_addValue (mq_list q) v = Inr l \<Longrightarrow>
    message_queue_push q ((goto q t PushSignal)\<lparr>mq_list := l, mq_pushed := mq_pushed q @ [v]\<rparr>)"
| push_signal: "at_pc q t PushSignal \<Longrightarrow> at_pc q w PopWaiting \<Longrightarrow>
    message_queue_push q (goto (goto q w PopRelock) t PushUnlock)"
| push_signal_none: "at_pc q t PushSignal \<Longrightarrow> PopWaiting \<notin> set (mq_pcs q) \<Longrightarrow>
    message_queue_push q (goto q t PushUnlock)"
| push_unlock: "at_pc q t PushUnlock \<Longrightarrow>
    message_queue_push q ((goto q t Idle)\<lparr>mq_mutex := None\<rparr>)"

inductive message_queue_pop :: "'v message_queue_t \<Rightarrow> 'v message_queue_t \<Rightarrow> bool" where
  pop_call: "at_pc q t Idle \<Longrightarrow> message_queue_pop q (goto q t PopLock)"
| pop_lock: "at_pc q t PopLock \<Longrightarrow> mq_mutex q = None \<Longrightarrow>
    message_queue_pop q ((goto q t PopCheck)\<lparr>mq_mutex := Some t\<rparr>)"
| pop_check: "at_pc q t PopCheck \<Longrightarrow>
    message_queue_pop q (goto q t (if mq_unlocked q then PopUnlock None else PopLoop))"
| pop_break: "at_pc q t PopLoop \<Longrightarrow> mq_unlocked q \<Longrightarrow>
    message_queue_pop q (goto q t (PopUnlock None))"
| pop_take: "at_pc q t PopLoop \<Longrightarrow> \<not> mq_unlocked q \<Longrightarrow> list_removeValue (mq_list q) 0 = Inr (Some v, l) \<Longrightarrow>
    message_queue_pop q ((goto q t (PopUnlock (Some v)))\<lparr>mq_list := l, mq_popped := mq_popped q @ [v]\<rparr>)"
| pop_wait: "at_pc q t PopLoop \<Longrightarrow> \<not> mq_unlocked q \<Longrightarrow> list_removeValue (mq_list q) 0 = Inr (None, l) \<Longrightarrow>
    message_queue_pop q ((goto q t PopWaiting)\<lparr>mq_list := l, mq_mutex := None\<rparr>)"
| pop_spurious: "at_pc q t PopWaiting \<Longrightarrow> message_queue_pop q (goto q t PopRelock)"
| pop_relock: "at_pc q t PopRelock \<Longrightarrow> mq_mutex q = None \<Longrightarrow>
    message_queue_pop q ((goto q t PopLoop)\<lparr>mq_mutex := Some t\<rparr>)"
| pop_unlock: "at_pc q t (PopUnlock r) \<Longrightarrow>
    message_queue_pop q ((goto q t Idle)\<lparr>mq_mutex := None\<rparr>)"

inductive message_queue_unlock :: "'v message_queue_t \<Rightarrow> 'v message_queue_t \<Rightarrow> bool" where
  unlock_call: "at_pc q t Idle \<Longrightarrow> message_queue_unlock q (goto q t UnlockLock)"
| unlock_lock: "at_pc q t UnlockLock \<Longrightarrow> mq_mutex q = None \<Longrightarrow>
    message_queue_unlock q ((goto q t UnlockSet)\<lparr>mq_mutex := Some t\<rparr>)"
| unlock_set: "at_pc q t UnlockSet \<Longrightarrow>
    message_queue_unlock q ((goto q t UnlockBroadcast)\<lparr>mq_unlocked := True\<rparr>)"
| unlock_broadcast: "at_pc q t UnlockBroadcast \<Longrightarrow>
    message_queue_unlock q (q\<lparr>mq_pcs := (wake_all (mq_pcs q))[t := UnlockUnlock]\<rparr>)"
| unlock_unlock: "at_pc q t UnlockUnlock \<Longrightarrow>
    message_queue_unlock q ((goto q t Idle)\<lparr>mq_mutex := None\<rparr>)"

definition mq_step :: "'v message_queue_t \<Rightarrow> 'v message_queue_t \<Rightarrow> bool" where
  "mq_step q q' \<longleftrightarrow> message_queue_push q q' \<or> message_queue_pop q q' \<or> message_queue_unlock q q'"

text \<open>\<^verbatim>\<open>message_queue_free\<close> releases the list; what is left are its leaked nodes.\<close>

definition message_queue_free :: "'v message_queue_t \<Rightarrow> (nat \<Rightarrow> 'v list_node_t option) exec" where
  "message_queue_free q = list_free (mq_list q)"

inductive_cases push_stepE: "message_queue_push q q'"
inductive_cases pop_stepE: "message_queue_pop q q'"
inductive_cases unlock_stepE: "message_queue_unlock q q'"

section \<open>Invariant\<close>

text \<open>Threads that hold the mutex, and threads that will look at the list again or are about to
  signal.\<close>

fun holds_mutex :: "'v mq_pc \<Rightarrow> bool" where
  "holds_mutex (PushAdd v) = True"
| "holds_mutex PushSignal = True"
| "holds_mutex PushUnlock = True"
| "holds_mutex PopCheck = True"
| "holds_mutex PopLoop = True"
| "holds_mutex (PopUnlock r) = True"
| "holds_mutex UnlockSet = True"
| "holds_mutex UnlockBroadcast = True"
| "holds_mutex UnlockUnlock = True"
| "holds_mutex _ = False"

definition consumes :: "'v mq_pc \<Rightarrow> bool" where
  "consumes pc \<longleftrightarrow> pc = PushSignal \<or> pc = PopRelock \<or> pc = PopLoop"

definition cnt :: "('a \<Rightarrow> bool) \<Rightarrow> 'a list \<Rightarrow> nat" where
  "cnt P xs = length (filter P xs)"

lemma cnt_update:
  "i < length xs \<Longrightarrow> cnt P (xs[i := x]) + (if P (xs ! i) then 1 else 0) = cnt P xs + (if P x then 1 else 0)"
proof (induction xs arbitrary: i)
  case (Cons a xs)
  then show ?case by (cases i) (auto simp: cnt_def)
qed simp

definition mq_excl :: "'v message_queue_t \<Rightarrow> bool" where
  "mq_excl q \<longleftrightarrow> (\<forall>t < length (mq_pcs q). holds_mutex (mq_pcs q ! t) \<longleftrightarrow> mq_mutex q = Some t)
     \<and> (\<forall>t. mq_mutex q = Some t \<longrightarrow> t < length (mq_pcs q))"

definition mq_data :: "'v message_queue_t \<Rightarrow> bool" where
  "mq_data q \<longleftrightarrow> (\<exists>xs. list_inv (mq_list q) xs \<and> mq_pushed q = mq_popped q @ xs)"

definition mq_pending :: "'v message_queue_t \<Rightarrow> nat" where
  "mq_pending q = length (mq_pushed q) - length (mq_popped q)"

definition mq_wakeup :: "'v message_queue_t \<Rightarrow> bool" where
  "mq_wakeup q \<longleftrightarrow> mq_unlocked q \<or> PopWaiting \<notin> set (mq_pcs q) \<or> mq_pending q \<le> cnt consumes (mq_pcs q)"

definition mq_shutdown :: "'v message_queue_t \<Rightarrow> bool" where
  "mq_shutdown q \<longleftrightarrow>
     (mq_unlocked q \<longrightarrow> PopWaiting \<in> set (mq_pcs q) \<longrightarrow> UnlockBroadcast \<in> set (mq_pcs q))
     \<and> (UnlockBroadcast \<in> set (mq_pcs q) \<longrightarrow> mq_unlocked q)"

definition mq_inv :: "'v message_queue_t \<Rightarrow> bool" where
  "mq_inv q \<longleftrightarrow> mq_excl q \<and> mq_data q \<and> mq_wakeup q \<and> mq_shutdown q"


section \<open>Mutual exclusion\<close>

lemma excl_push: "mq_excl q \<Longrightarrow> message_queue_push q q' \<Longrightarrow> mq_excl q'"
  by (erule push_stepE) (auto simp: mq_excl_def nth_list_update)

lemma excl_pop: "mq_excl q \<Longrightarrow> message_queue_pop q q' \<Longrightarrow> mq_excl q'"
  by (erule pop_stepE) (auto simp: mq_excl_def nth_list_update)

lemma excl_unlock: "mq_excl q \<Longrightarrow> message_queue_unlock q q' \<Longrightarrow> mq_excl q'"
  by (erule unlock_stepE) (auto simp: mq_excl_def nth_list_update wake_all_def)

section \<open>The list and the histories\<close>

lemma data_add:
  assumes "mq_data q" and "list_addValue (mq_list q) v = Inr l"
  shows "mq_data (q\<lparr>mq_list := l, mq_pushed := mq_pushed q @ [v]\<rparr>)"
proof -
  obtain xs where "list_inv (mq_list q) xs" "mq_pushed q = mq_popped q @ xs"
    using assms(1) by (auto simp: mq_data_def)
  with inv_add [of "mq_list q" xs v] assms(2) show ?thesis by (auto simp: mq_data_def)
qed

lemma remove_first:
  assumes "list_inv l xs" and "list_removeValue l 0 = Inr (p, l')"
  shows "(xs = [] \<and> p = None \<and> l' = l) \<or> (\<exists>v ys. xs = v # ys \<and> p = Some v \<and> list_inv l' ys)"
proof (cases xs)
  case Nil
  with assms inv_remove_none [of l xs 0] show ?thesis by simp
next
  case (Cons v ys)
  with assms inv_remove_0 [of l v ys] show ?thesis by auto
qed

lemma data_remove:
  assumes "mq_data q" and "list_removeValue (mq_list q) 0 = Inr (p, l)"
  shows "mq_data (q\<lparr>mq_list := l, mq_popped := mq_popped q @ (case p of None \<Rightarrow> [] | Some v \<Rightarrow> [v])\<rparr>)"
proof -
  obtain xs where xs: "list_inv (mq_list q) xs" "mq_pushed q = mq_popped q @ xs"
    using assms(1) by (auto simp: mq_data_def)
  from remove_first [OF xs(1) assms(2)] xs show ?thesis by (auto simp: mq_data_def)
qed

lemma data_goto [simp]:
  "mq_data (q\<lparr>mq_pcs := pcs\<rparr>) = mq_data q" "mq_data (q\<lparr>mq_mutex := m\<rparr>) = mq_data q"
  "mq_data (q\<lparr>mq_unlocked := b\<rparr>) = mq_data q"
  by (simp_all add: mq_data_def)

lemma data_pop:
  assumes "mq_data q" and "message_queue_pop q q'"
  shows "mq_data q'"
  using assms(2)
proof cases
  case (pop_take t v l)
  from data_remove [OF assms(1) pop_take(4)] pop_take(1) show ?thesis by (simp add: mq_data_def)
next
  case (pop_wait t l)
  from data_remove [OF assms(1) pop_wait(4)] pop_wait(1) show ?thesis by (simp add: mq_data_def)
qed (use assms(1) in simp_all)

lemma data_push:
  assumes "mq_data q" and "message_queue_push q q'"
  shows "mq_data q'"
  using assms(2)
proof cases
  case (push_add t v l)
  from data_add [OF assms(1) push_add(3)] push_add(1) show ?thesis by (simp add: mq_data_def)
qed (use assms(1) in simp_all)

lemma data_unlock: "mq_data q \<Longrightarrow> message_queue_unlock q q' \<Longrightarrow> mq_data q'"
  by (erule unlock_stepE) simp_all

section \<open>No wake-up is lost\<close>

lemma set_update_other:
  "x \<in> set (xs[i := y]) \<Longrightarrow> x \<noteq> y \<Longrightarrow> x \<in> set xs"
  using set_update_subset_insert by fastforce

lemma pending_data: "list_inv (mq_list q) xs \<Longrightarrow> mq_pushed q = mq_popped q @ xs \<Longrightarrow> mq_pending q = length xs"
  by (simp add: mq_pending_def)

lemma wakeup_goto:
  assumes "mq_wakeup q" and "t < length (mq_pcs q)" and "pc \<noteq> PopWaiting"
    and "consumes (mq_pcs q ! t) \<longrightarrow> consumes pc"
  shows "mq_wakeup (goto q t pc)"
  using assms cnt_update [OF assms(2), of consumes pc] set_update_other [of PopWaiting "mq_pcs q" t pc]
  by (auto simp: mq_wakeup_def mq_pending_def split: if_splits)

lemma wakeup_fields:
  "mq_wakeup (q\<lparr>mq_mutex := m\<rparr>) = mq_wakeup q" "mq_wakeup (q\<lparr>mq_list := l\<rparr>) = mq_wakeup q"
  by (simp_all add: mq_wakeup_def mq_pending_def)

lemma wakeup_push:
  assumes "mq_wakeup q" and "message_queue_push q q'"
  shows "mq_wakeup q'"
  using assms(2)
proof cases
  case (push_add t v l)
  then show ?thesis
    using assms(1) cnt_update [of t "mq_pcs q" consumes PushSignal]
      set_update_other [of PopWaiting "mq_pcs q" t PushSignal]
    by (auto simp: mq_wakeup_def mq_pending_def consumes_def)
next
  case (push_signal t w)
  let ?pcs = "(mq_pcs q)[w := PopRelock]"
  have "t \<noteq> w" using push_signal by auto
  then have "cnt consumes (?pcs[t := PushUnlock]) = cnt consumes (mq_pcs q)"
    using cnt_update [of w "mq_pcs q" consumes PopRelock] cnt_update [of t ?pcs consumes PushUnlock]
      push_signal by (simp add: consumes_def)
  moreover have "PopWaiting \<in> set (mq_pcs q)" using push_signal by (metis nth_mem)
  ultimately show ?thesis using assms(1) push_signal by (simp add: mq_wakeup_def mq_pending_def)
next
  case (push_signal_none t)
  then show ?thesis using set_update_other [of PopWaiting "mq_pcs q" t PushUnlock]
    by (auto simp: mq_wakeup_def)
qed (use assms(1) in \<open>auto intro!: wakeup_goto simp: wakeup_fields consumes_def\<close>)

lemma wakeup_pop:
  assumes "mq_wakeup q" and "mq_data q" and "message_queue_pop q q'"
  shows "mq_wakeup q'"
  using assms(3)
proof cases
  case (pop_take t v l)
  obtain xs where xs: "list_inv (mq_list q) xs" "mq_pushed q = mq_popped q @ xs"
    using assms(2) by (auto simp: mq_data_def)
  then obtain ys where "xs = v # ys" using remove_first [OF xs(1) pop_take(4)] by auto
  then show ?thesis
    using assms(1) pop_take xs(2) cnt_update [of t "mq_pcs q" consumes "PopUnlock (Some v)"]
      set_update_other [of PopWaiting "mq_pcs q" t "PopUnlock (Some v)"]
    by (auto simp: mq_wakeup_def mq_pending_def consumes_def)
next
  case (pop_wait t l)
  obtain xs where xs: "list_inv (mq_list q) xs" "mq_pushed q = mq_popped q @ xs"
    using assms(2) by (auto simp: mq_data_def)
  then have "xs = []" using remove_first [OF xs(1) pop_wait(4)] by auto
  then show ?thesis using pop_wait(1) xs(2) by (simp add: mq_wakeup_def mq_pending_def)
next
  case (pop_break t)
  then show ?thesis by (simp add: mq_wakeup_def)
qed (use assms(1) in \<open>auto intro!: wakeup_goto simp: wakeup_fields consumes_def\<close>)

lemma wakeup_unlock:
  assumes "mq_wakeup q" and "message_queue_unlock q q'"
  shows "mq_wakeup q'"
  using assms(2)
proof cases
  case (unlock_set t)
  then show ?thesis by (simp add: mq_wakeup_def)
next
  case (unlock_broadcast t)
  have "PopWaiting \<notin> set (wake_all (mq_pcs q))" by (auto simp: wake_all_def)
  then show ?thesis using unlock_broadcast set_update_other [of PopWaiting "wake_all (mq_pcs q)" t UnlockUnlock]
    by (auto simp: mq_wakeup_def)
qed (use assms(1) in \<open>auto intro!: wakeup_goto simp: wakeup_fields consumes_def\<close>)


section \<open>Shutdown\<close>

lemma shutdown_goto:
  assumes "mq_shutdown q" and "t < length (mq_pcs q)" and "pc \<noteq> UnlockBroadcast"
    and "mq_pcs q ! t \<noteq> UnlockBroadcast" and "pc \<noteq> PopWaiting \<or> \<not> mq_unlocked q"
  shows "mq_shutdown (goto q t pc)"
proof -
  have "UnlockBroadcast \<in> set ((mq_pcs q)[t := pc]) \<longleftrightarrow> UnlockBroadcast \<in> set (mq_pcs q)"
  proof
    assume "UnlockBroadcast \<in> set (mq_pcs q)"
    then obtain i where "i < length (mq_pcs q)" "mq_pcs q ! i = UnlockBroadcast" by (auto simp: in_set_conv_nth)
    with assms(4) show "UnlockBroadcast \<in> set ((mq_pcs q)[t := pc])"
      by (metis length_list_update nth_list_update_neq nth_mem)
  qed (use assms(3) set_update_other in metis)
  then show ?thesis
    using assms set_update_other [of PopWaiting "mq_pcs q" t pc] by (auto simp: mq_shutdown_def)
qed

lemma shutdown_fields [simp]:
  "mq_shutdown (q\<lparr>mq_mutex := m\<rparr>) = mq_shutdown q" "mq_shutdown (q\<lparr>mq_list := l\<rparr>) = mq_shutdown q"
  "mq_shutdown (q\<lparr>mq_pushed := vs\<rparr>) = mq_shutdown q" "mq_shutdown (q\<lparr>mq_popped := vs\<rparr>) = mq_shutdown q"
  by (simp_all add: mq_shutdown_def)

lemma shutdown_push:
  assumes "mq_shutdown q" and "message_queue_push q q'"
  shows "mq_shutdown q'"
  using assms(2)
proof cases
  case (push_signal t w)
  have "t \<noteq> w" using push_signal by auto
  with push_signal assms(1) show ?thesis
    using shutdown_goto [OF shutdown_goto [of q w PopRelock], of t PushUnlock] by simp
qed (use assms(1) in \<open>auto intro!: shutdown_goto\<close>)

lemma shutdown_pop: "mq_shutdown q \<Longrightarrow> message_queue_pop q q' \<Longrightarrow> mq_shutdown q'"
  by (erule pop_stepE) (auto intro!: shutdown_goto)

lemma shutdown_unlock:
  assumes "mq_shutdown q" and "message_queue_unlock q q'"
  shows "mq_shutdown q'"
  using assms(2)
proof cases
  case (unlock_set t)
  then have "UnlockBroadcast \<in> set ((mq_pcs q)[t := UnlockBroadcast])" by (simp add: set_update_memI)
  then show ?thesis using unlock_set by (simp add: mq_shutdown_def)
next
  case (unlock_broadcast t)
  have "PopWaiting \<notin> set ((wake_all (mq_pcs q))[t := UnlockUnlock])"
    using set_update_other [of PopWaiting "wake_all (mq_pcs q)" t UnlockUnlock] by (auto simp: wake_all_def)
  moreover have "mq_unlocked q" using unlock_broadcast assms(1) by (metis mq_shutdown_def nth_mem)
  ultimately show ?thesis using unlock_broadcast by (simp add: mq_shutdown_def)
qed (use assms(1) in \<open>auto intro!: shutdown_goto\<close>)

section \<open>All reachable states\<close>

lemmas mq_inv_push = excl_push data_push wakeup_push shutdown_push
lemmas mq_inv_pop = excl_pop data_pop wakeup_pop shutdown_pop
lemmas mq_inv_unlock = excl_unlock data_unlock wakeup_unlock shutdown_unlock

lemma mq_inv_initial: "mq_initial q \<Longrightarrow> mq_inv q"
proof -
  assume "mq_initial q"
  then obtain n where q: "q = message_queue_create n" by (auto simp: mq_initial_def)
  have "mq_data q" unfolding mq_data_def q message_queue_create_def
    by (rule exI [of _ "[]"]) (simp add: inv_create)
  then show ?thesis
    by (auto simp: mq_inv_def q message_queue_create_def mq_excl_def mq_wakeup_def mq_pending_def mq_shutdown_def)
qed

interpretation mq: transition_system mq_initial mq_step mq_inv
proof
  fix q q' :: "'v message_queue_t"
  show "mq_initial q \<Longrightarrow> mq_inv q" by (rule mq_inv_initial)
  assume "mq_inv q" and "mq_step q q'"
  then show "mq_inv q'"
    unfolding mq_inv_def mq_step_def using mq_inv_push mq_inv_pop mq_inv_unlock by metis
qed

lemma holder_steps:
  assumes "mq_data q" and "t < length (mq_pcs q)" and "holds_mutex (mq_pcs q ! t)"
  shows "\<exists>q'. mq_step q q' \<and> mq_pcs q' ! t \<noteq> mq_pcs q ! t"
proof -
  obtain xs where xs: "list_inv (mq_list q) xs" using assms(1) by (auto simp: mq_data_def)
  show ?thesis
  proof (cases "mq_pcs q ! t")
    case (PushAdd v)
    obtain l where "list_addValue (mq_list q) v = Inr l" using inv_add [OF xs] by blast
    with push_add [of t q v l] PushAdd assms(2) show ?thesis by (force simp: mq_step_def)
  next
    case PushSignal
    show ?thesis
    proof (cases "PopWaiting \<in> set (mq_pcs q)")
      case True
      then obtain w where "w < length (mq_pcs q)" "mq_pcs q ! w = PopWaiting" by (auto simp: in_set_conv_nth)
      with push_signal [of t q w] PushSignal assms(2) show ?thesis by (force simp: mq_step_def)
    next
      case False
      with push_signal_none [of t q] PushSignal assms(2) show ?thesis by (force simp: mq_step_def)
    qed
  next
    case PopLoop
    show ?thesis
    proof (cases "mq_unlocked q")
      case True
      with pop_break [of t q] PopLoop assms(2) show ?thesis by (force simp: mq_step_def)
    next
      case False
      show ?thesis
      proof (cases xs)
        case Nil
        then have "list_removeValue (mq_list q) 0 = Inr (None, mq_list q)" using inv_remove_none [OF xs, of 0] by simp
        with pop_wait [of t q "mq_list q"] False PopLoop assms(2) show ?thesis by (force simp: mq_step_def)
      next
        case (Cons v ys)
        then obtain l where "list_removeValue (mq_list q) 0 = Inr (Some v, l)"
          using inv_remove_0 [of "mq_list q" v ys] xs by auto
        with pop_take [of t q v l] False PopLoop assms(2) show ?thesis by (force simp: mq_step_def)
      qed
    qed
  next
    case PushUnlock
    with push_unlock [of t q] assms(2) show ?thesis by (force simp: mq_step_def)
  next
    case PopCheck
    with pop_check [of t q] assms(2) show ?thesis by (cases "mq_unlocked q") (force simp: mq_step_def)+
  next
    case (PopUnlock r)
    with pop_unlock [of t q r] assms(2) show ?thesis by (force simp: mq_step_def)
  next
    case UnlockSet
    with unlock_set [of t q] assms(2) show ?thesis by (force simp: mq_step_def)
  next
    case UnlockBroadcast
    with unlock_broadcast [of t q] assms(2) show ?thesis by (force simp: mq_step_def wake_all_def)
  next
    case UnlockUnlock
    with unlock_unlock [of t q] assms(2) show ?thesis by (force simp: mq_step_def)
  qed (use assms(3) in simp_all)
qed


lemma waiter_steps:
  assumes "t < length (mq_pcs q)" and "mq_mutex q = None" and "\<not> holds_mutex (mq_pcs q ! t)"
    and "mq_pcs q ! t \<noteq> Idle" and "mq_pcs q ! t \<noteq> PopWaiting"
  shows "\<exists>q'. mq_step q q' \<and> mq_pcs q' ! t \<noteq> mq_pcs q ! t"
proof (cases "mq_pcs q ! t")
  case (PushLock v)
  with push_lock [of t q v] assms(1,2) show ?thesis by (force simp: mq_step_def)
next
  case PopLock
  with pop_lock [of t q] assms(1,2) show ?thesis by (force simp: mq_step_def)
next
  case PopRelock
  with pop_relock [of t q] assms(1,2) show ?thesis by (force simp: mq_step_def)
next
  case UnlockLock
  with unlock_lock [of t q] assms(1,2) show ?thesis by (force simp: mq_step_def)
qed (use assms(3-5) in simp_all)

lemma reachable_mq_inv: "mq_initial s \<Longrightarrow> mq_step\<^sup>*\<^sup>* s q \<Longrightarrow> mq_inv q"
  by (rule mq.reachable_inv)

text \<open>A state in which thread 0 has entered \<^verbatim>\<open>message_queue_pop\<close>.\<close>

lemma reach_pop_check:
  "mq_step\<^sup>*\<^sup>* (message_queue_create 2 :: 'v message_queue_t)
     ((message_queue_create 2)\<lparr>mq_pcs := [PopCheck, Idle], mq_mutex := Some 0\<rparr>)"
proof -
  let ?q = "message_queue_create 2 :: 'v message_queue_t"
  have "mq_step ?q (?q\<lparr>mq_pcs := [PopLock, Idle]\<rparr>)"
    using pop_call [of 0 ?q] by (simp add: mq_step_def message_queue_create_def numeral_2_eq_2)
  moreover have "mq_step (?q\<lparr>mq_pcs := [PopLock, Idle]\<rparr>) (?q\<lparr>mq_pcs := [PopCheck, Idle], mq_mutex := Some 0\<rparr>)"
    using pop_lock [of 0 "?q\<lparr>mq_pcs := [PopLock, Idle]\<rparr>"] by (simp add: mq_step_def message_queue_create_def)
  ultimately show ?thesis by (meson converse_rtranclp_into_rtranclp r_into_rtranclp)
qed

lemma reach_pop_waiting:
  "mq_step\<^sup>*\<^sup>* (message_queue_create 2 :: 'v message_queue_t)
     ((message_queue_create 2)\<lparr>mq_pcs := [PopWaiting, Idle]\<rparr>)"
proof -
  let ?q = "message_queue_create 2 :: 'v message_queue_t"
  let ?c = "?q\<lparr>mq_pcs := [PopCheck, Idle], mq_mutex := Some 0\<rparr>"
  let ?l = "?q\<lparr>mq_pcs := [PopLoop, Idle], mq_mutex := Some 0\<rparr>"
  have "mq_step ?c ?l"
    using pop_check [of 0 ?c] by (simp add: mq_step_def message_queue_create_def)
  moreover have "list_removeValue (mq_list ?l) 0 = Inr (None, mq_list ?l)"
    using inv_remove_none [OF inv_create, of 0] by (simp add: message_queue_create_def)
  then have "mq_step ?l (?q\<lparr>mq_pcs := [PopWaiting, Idle]\<rparr>)"
    using pop_wait [of 0 ?l "mq_list ?l"] by (simp add: mq_step_def message_queue_create_def)
  ultimately show ?thesis using reach_pop_check [where ?'v = 'v] by (meson rtranclp.rtrancl_into_rtrancl)
qed

lemma initial_create: "mq_initial (message_queue_create n)"
  by (auto simp: mq_initial_def)

section \<open>Properties\<close>

text \<open>C29. In every interleaving of pushes, pops and unlocks by any number of threads, at most one thread
  is between locking and unlocking the mutex, and it is the one the mutex records.\<close>

theorem mq_mutual_exclusion:
  assumes "mq_initial s" and "mq_step\<^sup>*\<^sup>* s q"
    and "t < length (mq_pcs q)" and "u < length (mq_pcs q)"
    and "holds_mutex (mq_pcs q ! t)" and "holds_mutex (mq_pcs q ! u)"
  shows "t = u \<and> mq_mutex q = Some t"
  using reachable_mq_inv [OF assms(1,2)] assms(3-6) by (auto simp: mq_inv_def mq_excl_def)

theorem mq_mutual_exclusion_witness:
  "\<exists>q :: bool message_queue_t. mq_step\<^sup>*\<^sup>* (message_queue_create 2) q \<and> mq_mutex q = Some 0"
  using mq_mutual_exclusion [OF initial_create reach_pop_check [where ?'v = bool], of 0 0] reach_pop_check [where ?'v = bool]
  by (auto simp: message_queue_create_def)





text \<open>The queue cannot deadlock: in every reachable state, if some thread is inside an operation and
  not asleep on the condition variable, some thread inside an operation can take a step.\<close>

theorem mq_no_deadlock:
  assumes "mq_initial s" and "mq_step\<^sup>*\<^sup>* s q" and "t < length (mq_pcs q)"
    and "mq_pcs q ! t \<noteq> Idle" and "mq_pcs q ! t \<noteq> PopWaiting"
  shows "\<exists>q' u. mq_step q q' \<and> u < length (mq_pcs q) \<and> mq_pcs q ! u \<noteq> Idle \<and> mq_pcs q' ! u \<noteq> mq_pcs q ! u"
proof -
  from reachable_mq_inv [OF assms(1,2)] have e: "mq_excl q" and d: "mq_data q" by (simp_all add: mq_inv_def)
  show ?thesis
  proof (cases "\<exists>u < length (mq_pcs q). holds_mutex (mq_pcs q ! u)")
    case True
    then obtain u where u: "u < length (mq_pcs q)" "holds_mutex (mq_pcs q ! u)" by blast
    then have "mq_pcs q ! u \<noteq> Idle" by auto
    with u holder_steps [OF d u] show ?thesis by blast
  next
    case False
    then have "mq_mutex q = None" using e by (metis mq_excl_def option.exhaust)
    moreover have "\<not> holds_mutex (mq_pcs q ! t)" using False assms(3) by blast
    ultimately show ?thesis using waiter_steps [OF assms(3) _ _ assms(4,5)] assms(3,4) by blast
  qed
qed

theorem mq_no_deadlock_witness:
  "\<exists>q q' :: bool message_queue_t. mq_step\<^sup>*\<^sup>* (message_queue_create 2) q \<and> mq_pcs q ! 0 = PopCheck \<and> mq_step q q'"
proof -
  let ?q = "(message_queue_create 2 :: bool message_queue_t)\<lparr>mq_pcs := [PopCheck, Idle], mq_mutex := Some 0\<rparr>"
  obtain q' where "mq_step ?q q'"
    using mq_no_deadlock [OF initial_create reach_pop_check [where ?'v = bool], of 0] by auto
  then show ?thesis using reach_pop_check [where ?'v = bool] by (intro exI [of _ ?q] exI [of _ q']) simp
qed

end
