(* ===== verification/CString.thy ===== *)
theory CString
  imports Prelude
begin

text \<open>
  The growable strings of \<^verbatim>\<open>src/string/string.c\<close>: a heap buffer, its allocated size and the
  length of the text, with cursors that walk over it. Every operation works on the buffer
  byte by byte, so that a string whose text, terminator and size disagree can be told from
  one where they agree. \<open>str_wf\<close> is the memory-safety invariant of the operations;
  \<open>pad xs k\<close> is the string that holds the text \<open>xs\<close> followed by \<open>k\<close> zero bytes, the shape every
  operation but \<open>string_clear\<close> keeps.
\<close>

section \<open>Data\<close>

record string_t =
  str_buffer :: "bytes option"
  str_bufferSize :: nat
  str_size :: nat

record string_cursor_t =
  cur_string :: string_t
  cur_offset :: nat

section \<open>Construction\<close>

definition string_create :: string_t where
  "string_create = \<lparr>str_buffer = None, str_bufferSize = 0, str_size = 0\<rparr>"

definition string_setBufferSize :: "string_t \<Rightarrow> nat \<Rightarrow> string_t exec" where
  "string_setBufferSize s n =
     (if n = str_bufferSize s then Inr s
      else
        let newBuffer = realloc (str_buffer s) (n + 1);
            newBufferSize = n + 1;
            newSize = (if str_size s + 1 \<ge> newBufferSize then newBufferSize - 1 else str_size s)
        in bnd (memset newBuffer newSize NUL (newBufferSize - newSize)) (\<lambda>b.
             Inr (s\<lparr>str_buffer := Some b, str_bufferSize := newBufferSize, str_size := newSize\<rparr>)))"

definition string_clear :: "string_t \<Rightarrow> string_t exec" where
  "string_clear s =
     (let s1 = s\<lparr>str_size := 0\<rparr>
      in if str_bufferSize s1 > 0
         then bnd (deref (str_buffer s1)) (\<lambda>b. bnd (store b 0 NUL) (\<lambda>b'.
                Inr (s1\<lparr>str_buffer := Some b'\<rparr>)))
         else Inr s1)"

definition string_createCursor :: "string_t \<Rightarrow> string_cursor_t" where
  "string_createCursor s = \<lparr>cur_string = s, cur_offset = 0\<rparr>"

definition string_resetCursor :: "string_cursor_t \<Rightarrow> string_cursor_t" where
  "string_resetCursor cu = cu\<lparr>cur_offset := 0\<rparr>"

definition string_fromBufferWithLength :: "bytes option \<Rightarrow> nat \<Rightarrow> string_t exec" where
  "string_fromBufferWithLength p n =
     bnd (deref p) (\<lambda>src.
     bnd (memcpy (malloc (n + 1)) 0 src n) (\<lambda>b.
     bnd (store b (n + 1 - 1) NUL) (\<lambda>b'.
       Inr \<lparr>str_buffer = Some b', str_bufferSize = n + 1, str_size = n\<rparr>)))"

definition string_fromBuffer :: "bytes \<Rightarrow> string_t exec" where
  "string_fromBuffer b = bnd (strlen b) (\<lambda>n. string_fromBufferWithLength (Some b) n)"

definition string_getBuffer :: "string_t \<Rightarrow> bytes option" where
  "string_getBuffer s = str_buffer s"

definition string_getSize :: "string_t \<Rightarrow> nat" where
  "string_getSize s = str_size s"

definition string_copy :: "string_t \<Rightarrow> string_t exec" where
  "string_copy s = string_fromBufferWithLength (string_getBuffer s) (string_getSize s)"

section \<open>Appending\<close>

definition string_appendBufferWithLength ::
  "string_t \<Rightarrow> bytes \<Rightarrow> nat \<Rightarrow> string_t exec" where
  "string_appendBufferWithLength s buf n =
     (let newSize = str_size s + n;
          s1 = (if newSize \<ge> str_bufferSize s
                then s\<lparr>str_buffer := Some (realloc (str_buffer s) (newSize + 1)),
                       str_bufferSize := newSize + 1\<rparr>
                else s)
      in bnd (if n > 0 then bnd (load buf (n - 1)) (\<lambda>c. Inr (c = NUL)) else Inr False) (\<lambda>endsInNul.
         bnd (deref (str_buffer s1)) (\<lambda>b.
         bnd (if endsInNul then memcpy b (str_size s1) buf (n - 1)
              else memcpy b (str_size s1) buf n) (\<lambda>b1.
         bnd (store b1 (str_bufferSize s1 - 1) NUL) (\<lambda>b2.
           Inr (s1\<lparr>str_buffer := Some b2, str_size := newSize\<rparr>))))))"

definition string_appendBuffer :: "string_t \<Rightarrow> bytes \<Rightarrow> string_t exec" where
  "string_appendBuffer s buf =
     bnd (strlen buf) (\<lambda>n. string_appendBufferWithLength s buf n)"

definition string_append :: "string_t \<Rightarrow> string_t \<Rightarrow> string_t exec" where
  "string_append s s2 = bnd (deref (str_buffer s2)) (\<lambda>b. string_appendBuffer s b)"

definition string_appendChar :: "string_t \<Rightarrow> char \<Rightarrow> string_t exec" where
  "string_appendChar s c = string_appendBufferWithLength s [c] 1"

text \<open>
  \<^verbatim>\<open>string_fromInt\<close> counts digits with \<^verbatim>\<open>(int)log10(abs(number)) + 1\<close> and extracts them with
  \<^verbatim>\<open>(int)(number / pow(10, offset - 1)) % 10\<close>; on the range of \<^verbatim>\<open>int\<close> the double results
  truncate to the integer logarithm and quotient. \<^verbatim>\<open>abs(INT_MIN)\<close> overflows.
\<close>

fun ilog10 :: "nat \<Rightarrow> nat" where
  "ilog10 n = (if n < 10 then 0 else Suc (ilog10 (n div 10)))"

declare ilog10.simps [simp del]

fun string_fromInt_digits :: "nat \<Rightarrow> nat \<Rightarrow> string_t \<Rightarrow> string_t exec" where
  "string_fromInt_digits number 0 s = Inr s"
| "string_fromInt_digits number (Suc offset) s =
     bnd (string_appendChar s (digit_char (number div 10 ^ offset mod 10)))
       (\<lambda>s'. string_fromInt_digits number offset s')"

definition string_fromInt :: "int \<Rightarrow> string_t exec" where
  "string_fromInt number =
     (if number = 0 then string_fromBuffer (lit ''0'')
      else if number = - (2 ^ 31) then Inl IntegerOverflow
      else
        let digits = ilog10 (nat \<bar>number\<bar>) + 1
        in bnd (string_setBufferSize string_create digits) (\<lambda>s.
           bnd (if number < 0 then string_appendChar s (CHR ''-'') else Inr s) (\<lambda>s1.
             string_fromInt_digits (nat \<bar>number\<bar>) digits s1)))"

section \<open>Access\<close>

definition string_getCharAt :: "string_t \<Rightarrow> nat \<Rightarrow> char exec" where
  "string_getCharAt s i =
     (if i \<ge> str_size s then Inr NUL
      else case str_buffer s of
             None \<Rightarrow> (if i = 0 then Inr NUL else Inl NullPointer)
           | Some b \<Rightarrow> load b i)"

definition string_setCharAt :: "string_t \<Rightarrow> nat \<Rightarrow> char \<Rightarrow> string_t exec" where
  "string_setCharAt s i c =
     (if i \<ge> str_size s then Inr s
      else case str_buffer s of
             None \<Rightarrow> (if i = 0 then Inr s else Inl NullPointer)
           | Some b \<Rightarrow> bnd (store b i c) (\<lambda>b'. Inr (s\<lparr>str_buffer := Some b'\<rparr>)))"

definition is_trimmed :: "char \<Rightarrow> bool" where
  "is_trimmed c \<longleftrightarrow> c = LF \<or> c = CR \<or> c = SP \<or> c = TAB"

fun string_trimEnd_loop :: "nat \<Rightarrow> bytes \<Rightarrow> nat \<Rightarrow> (bytes \<times> nat) exec" where
  "string_trimEnd_loop 0 b sz = Inr (b, sz)"
| "string_trimEnd_loop (Suc i) b sz =
     bnd (load b i) (\<lambda>c.
       if is_trimmed c
       then bnd (store b i NUL) (\<lambda>b'. string_trimEnd_loop i b' (sz - 1))
       else Inr (b, sz))"

definition string_trimEnd :: "string_t \<Rightarrow> string_t exec" where
  "string_trimEnd s =
     (if str_size s = 0 then Inr s
      else bnd (deref (str_buffer s)) (\<lambda>b.
           bnd (string_trimEnd_loop (str_size s) b (str_size s)) (\<lambda>(b', sz).
             Inr (s\<lparr>str_buffer := Some b', str_size := sz\<rparr>))))"

text \<open>
  A \<^verbatim>\<open>lastIndex\<close> below \<^verbatim>\<open>firstIndex\<close> makes the \<^verbatim>\<open>size_t\<close> difference wrap to a length no buffer
  has, so that the copy runs out of bounds.
\<close>

definition string_substring :: "string_t \<Rightarrow> nat \<Rightarrow> nat \<Rightarrow> string_t option exec" where
  "string_substring s firstIndex lastIndex =
     (if firstIndex \<ge> str_size s \<or> lastIndex > str_size s then Inr None
      else case str_buffer s of
             None \<Rightarrow> Inr None
           | Some b \<Rightarrow>
               (if lastIndex < firstIndex then Inl OutOfBounds
                else bnd (string_fromBufferWithLength (Some (drop firstIndex b))
                            (lastIndex - firstIndex))
                       (\<lambda>t. Inr (Some t))))"

section \<open>Cursors\<close>

definition string_getNextChar :: "string_cursor_t \<Rightarrow> (char \<times> string_cursor_t) exec" where
  "string_getNextChar cu =
     (if cur_offset cu \<ge> str_size (cur_string cu) then Inr (NUL, cu)
      else bnd (string_getCharAt (cur_string cu) (cur_offset cu)) (\<lambda>c.
             Inr (c, cu\<lparr>cur_offset := cur_offset cu + 1\<rparr>)))"

function string_findNextChar ::
  "string_cursor_t \<Rightarrow> char \<Rightarrow> (int \<times> string_cursor_t) exec" where
  "string_findNextChar cu needle =
     (case string_getNextChar cu of
        Inl e \<Rightarrow> Inl e
      | Inr (current, cu') \<Rightarrow>
          (if current = NUL then Inr (-1, cu')
           else if current = needle then Inr (int (cur_offset cu') - 1, cu')
           else string_findNextChar cu' needle))"
  by pat_completeness auto
termination
  by (relation "measure (\<lambda>(cu, _). str_size (cur_string cu) - cur_offset cu)")
    (auto simp: string_getNextChar_def exec_simps split: if_splits)

declare string_findNextChar.simps [simp del]

definition string_getNextLine ::
  "string_cursor_t \<Rightarrow> (string_t option \<times> string_cursor_t) exec" where
  "string_getNextLine cu =
     (if cur_offset cu \<ge> str_size (cur_string cu) then Inr (None, cu)
      else
        let start = cur_offset cu in
        bnd (string_findNextChar cu LF) (\<lambda>(lastLineIndex, cu').
        bnd (if lastLineIndex > 0
             then bnd (string_getCharAt (cur_string cu') (nat lastLineIndex - 1)) (\<lambda>c.
                    Inr (if c = CR then lastLineIndex - 1 else lastLineIndex))
             else Inr (int (str_size (cur_string cu')))) (\<lambda>lastContentIndex.
        bnd (if lastContentIndex \<ge> int start
             then string_substring (cur_string cu') start (nat lastContentIndex)
             else bnd (string_fromBuffer (lit [])) (\<lambda>t. Inr (Some t))) (\<lambda>line.
          Inr (line, cu')))))"

definition string_getOffset :: "string_cursor_t \<Rightarrow> nat" where
  "string_getOffset cu = cur_offset cu"

definition string_setOffset :: "string_cursor_t \<Rightarrow> nat \<Rightarrow> string_cursor_t" where
  "string_setOffset cu offset = cu\<lparr>cur_offset := offset\<rparr>"

section \<open>Comparison and release\<close>

definition string_equalsBuffer :: "string_t \<Rightarrow> bytes \<Rightarrow> bool exec" where
  "string_equalsBuffer s buf = bnd (deref (str_buffer s)) (\<lambda>b. strcmp_eq b buf)"

definition string_equals :: "string_t \<Rightarrow> string_t \<Rightarrow> bool exec" where
  "string_equals s s2 = bnd (deref (str_buffer s2)) (\<lambda>b. string_equalsBuffer s b)"

text \<open>Releasing a string dereferences it; releasing the null pointer is a fault.\<close>

definition string_free :: "string_t option \<Rightarrow> unit exec" where
  "string_free p = bnd (deref p) (\<lambda>_. Inr ())"

section \<open>Invariant and canonical form\<close>

definition str_wf :: "string_t \<Rightarrow> bool" where
  "str_wf s = (case str_buffer s of
       None \<Rightarrow> str_bufferSize s = 0 \<and> str_size s = 0
     | Some b \<Rightarrow> length b = str_bufferSize s \<and> str_size s < str_bufferSize s
               \<and> b ! (str_bufferSize s - 1) = NUL)"

definition content :: "string_t \<Rightarrow> string" where
  "content s = (case str_buffer s of None \<Rightarrow> [] | Some b \<Rightarrow> take (str_size s) b)"

definition pad :: "string \<Rightarrow> nat \<Rightarrow> string_t" where
  "pad xs k = \<lparr>str_buffer = Some (xs @ replicate k NUL),
               str_bufferSize = length xs + k, str_size = length xs\<rparr>"

abbreviation str :: "string \<Rightarrow> string_t" where
  "str xs \<equiv> pad xs (Suc 0)"

definition str_tight :: "string_t \<Rightarrow> bool" where
  "str_tight s = (s = string_create \<or> (\<exists>xs k. s = pad xs k \<and> 0 < k \<and> NUL \<notin> set xs))"

text \<open>The zero bytes left after writing \<open>n\<close> bytes into \<open>k\<close> of them.\<close>

definition cap_after :: "nat \<Rightarrow> nat \<Rightarrow> nat" where
  "cap_after k n = (if n < k then k - n else 1)"

section \<open>Equations on the canonical form\<close>

named_theorems str_simps "string operations on the canonical form"

lemma pad_fields [simp, str_simps]:
  "str_buffer (pad xs k) = Some (xs @ replicate k NUL)"
  "str_bufferSize (pad xs k) = length xs + k"
  "str_size (pad xs k) = length xs"
  by (simp_all add: pad_def)

lemma content_pad [simp, str_simps]: "content (pad xs k) = xs"
  by (simp add: content_def)

lemma pad_inj [simp]: "pad xs k = pad ys l \<longleftrightarrow> xs = ys \<and> k = l"
  by (auto simp: pad_def)

lemma replicate_last: "0 < k \<Longrightarrow> (xs @ replicate k c)[length xs + k - 1 := c] = xs @ replicate k c"
  by (rule nth_equalityI) (auto simp: nth_append nth_list_update)

lemma nth_replicate_last: "0 < k \<Longrightarrow> (xs @ replicate k c) ! (length xs + k - 1) = c"
  by (cases k) (simp_all add: nth_append del: replicate_Suc)

lemma last_text: "NUL \<notin> set ys \<Longrightarrow> ys = [] \<or> (ys @ rest) ! (length ys - Suc 0) \<noteq> NUL"
  by (cases ys rule: rev_cases) (auto simp: nth_append)

lemma str_wf_pad [simp]: "0 < k \<Longrightarrow> str_wf (pad xs k)"
  using nth_replicate_last [of k xs NUL] by (simp add: str_wf_def)

lemma str_wf_create [simp]: "str_wf string_create"
  by (simp add: str_wf_def string_create_def)

lemma str_tightE:
  assumes "str_tight s"
  obtains "s = string_create" | xs k where "s = pad xs k" "0 < k" "NUL \<notin> set xs"
  using assms by (auto simp: str_tight_def)

lemma str_tight_wf: "str_tight s \<Longrightarrow> str_wf s"
  by (auto simp: str_tight_def)

lemma memcpy_then_terminate:
  assumes "length b = off + n + 1" and "n \<le> length src"
  shows "bnd (memcpy b off src n) (\<lambda>b1. bnd (store b1 (off + n) NUL) f)
       = f (take off b @ take n src @ [NUL])"
proof -
  have "length (drop (off + n) b) = 1" using assms(1) by simp
  then obtain c where c: "drop (off + n) b = [c]" by (auto simp: length_Suc_conv simp del: length_drop)
  have "memcpy b off src n = Inr (take off b @ take n src @ [c])"
    using assms c by (simp add: memcpy_def)
  moreover have "store (take off b @ take n src @ [c]) (off + n) NUL
      = Inr (take off b @ take n src @ [NUL])"
    using assms by (simp add: store_def list_update_append)
  ultimately show ?thesis by simp
qed

lemma fromBufferWithLength_eq [str_simps]:
  "n \<le> length b \<Longrightarrow> string_fromBufferWithLength (Some b) n = Inr (str (take n b))"
  using memcpy_then_terminate [of "malloc (n + 1)" 0 n b]
  by (simp add: string_fromBufferWithLength_def malloc_def pad_def)

lemma fromBuffer_lit [str_simps]:
  "NUL \<notin> set xs \<Longrightarrow> string_fromBuffer (lit xs) = Inr (str xs)"
  by (simp add: string_fromBuffer_def fromBufferWithLength_eq)

lemma copy_pad [str_simps]: "string_copy (pad xs k) = Inr (str xs)"
  by (simp add: string_copy_def string_getBuffer_def string_getSize_def fromBufferWithLength_eq)

lemma setBufferSize_create [str_simps]:
  "0 < n \<Longrightarrow> string_setBufferSize string_create n = Inr (pad [] (n + 1))"
  by (simp add: string_setBufferSize_def string_create_def Let_def realloc_def malloc_def
      memset_def pad_def)

lemma cap_after_pos [simp]: "0 < cap_after k n"
  by (simp add: cap_after_def)

lemma cap_after_1 [simp]: "cap_after (Suc 0) n = 1"
  by (simp add: cap_after_def)

lemma cap_after_twice [simp]: "cap_after (cap_after k m) n = cap_after k (m + n)"
  by (auto simp: cap_after_def)

lemma appendBufferWithLength_pad [str_simps]:
  assumes k: "0 < k" and n: "n \<le> length ys" and last: "n = 0 \<or> ys ! (n - 1) \<noteq> NUL"
  shows "string_appendBufferWithLength (pad xs k) ys n
       = Inr (pad (xs @ take n ys) (cap_after k n))"
proof -
  have ends: "(if n > 0 then bnd (load ys (n - 1)) (\<lambda>c. Inr (c = NUL)) else Inr False) = Inr False"
    using n last by (auto simp: load_def)
  show ?thesis
  proof (cases "n < k")
    case True
    have "(xs @ take n ys @ replicate (k - n) NUL)[length xs + k - 1 := NUL]
        = xs @ take n ys @ replicate (k - n) NUL"
      using replicate_last [of "k - n" "xs @ take n ys" NUL] True n by simp
    with True n k show ?thesis
      by (simp add: string_appendBufferWithLength_def Let_def ends memcpy_def store_def
          pad_def cap_after_def)
  next
    case False
    let ?b = "realloc (Some (xs @ replicate k NUL)) (length xs + n + 1)"
    have "take (length xs) ?b = xs" and "length ?b = length xs + n + 1"
      using False by (simp_all add: realloc_def malloc_def)
    with memcpy_then_terminate [of ?b "length xs" n ys] False n show ?thesis
      by (simp add: string_appendBufferWithLength_def Let_def ends pad_def cap_after_def)
  qed
qed

lemma appendBufferWithLength_create [str_simps]:
  assumes n: "n \<le> length ys" and last: "n = 0 \<or> ys ! (n - 1) \<noteq> NUL"
  shows "string_appendBufferWithLength string_create ys n = Inr (str (take n ys))"
proof -
  have ends: "(if n > 0 then bnd (load ys (n - 1)) (\<lambda>c. Inr (c = NUL)) else Inr False) = Inr False"
    using n last by (auto simp: load_def)
  show ?thesis
    using memcpy_then_terminate [of "realloc None (n + 1)" 0 n ys] n
    by (simp add: string_appendBufferWithLength_def string_create_def Let_def ends realloc_def
        malloc_def pad_def)
qed

lemma appendBuffer_lit [str_simps]:
  assumes "0 < k" and "NUL \<notin> set ys"
  shows "string_appendBuffer (pad xs k) (lit ys) = Inr (pad (xs @ ys) (cap_after k (length ys)))"
  using assms last_text [OF assms(2), of "[NUL]"]
  by (simp add: string_appendBuffer_def str_simps lit_def [symmetric])

lemma append_pad [str_simps]:
  assumes "0 < k" and "0 < l" and "NUL \<notin> set ys"
  shows "string_append (pad xs k) (pad ys l) = Inr (pad (xs @ ys) (cap_after k (length ys)))"
  using assms last_text [OF assms(3), of "replicate l NUL"]
  by (simp add: string_append_def string_appendBuffer_def str_simps)

lemma append_create [str_simps]:
  assumes "0 < l" and "NUL \<notin> set ys"
  shows "string_append string_create (pad ys l) = Inr (str ys)"
  using assms last_text [OF assms(2), of "replicate l NUL"]
  by (simp add: string_append_def string_appendBuffer_def str_simps)

lemma appendChar_pad [str_simps]:
  "0 < k \<Longrightarrow> c \<noteq> NUL \<Longrightarrow> string_appendChar (pad xs k) c = Inr (pad (xs @ [c]) (cap_after k 1))"
  by (simp add: string_appendChar_def str_simps)

lemma appendChar_create [str_simps]:
  "c \<noteq> NUL \<Longrightarrow> string_appendChar string_create c = Inr (str [c])"
  by (simp add: string_appendChar_def str_simps)

lemma getCharAt_pad [str_simps]:
  "string_getCharAt (pad xs k) i = Inr (if i < length xs then xs ! i else NUL)"
  by (simp add: string_getCharAt_def load_def nth_append)

lemma setCharAt_pad [str_simps]:
  "string_setCharAt (pad xs k) i c = Inr (pad (xs[i := c]) k)"
  by (simp add: string_setCharAt_def store_def pad_def list_update_append list_update_beyond)

lemma substring_pad [str_simps]:
  "string_substring (pad xs k) i j =
     (if i \<ge> length xs \<or> j > length xs then Inr None
      else if j < i then Inl OutOfBounds
      else Inr (Some (str (take (j - i) (drop i xs)))))"
  by (auto simp: string_substring_def fromBufferWithLength_eq)

lemma equalsBuffer_pad [str_simps]:
  assumes "0 < k" and "NUL \<notin> set xs" and "NUL \<notin> set ys"
  shows "string_equalsBuffer (pad xs k) (lit ys) = Inr (xs = ys)"
  using assms by (simp add: string_equalsBuffer_def strcmp_eq_def)

lemma equals_pad [str_simps]:
  assumes "0 < k" and "0 < l" and "NUL \<notin> set xs" and "NUL \<notin> set ys"
  shows "string_equals (pad xs k) (pad ys l) = Inr (xs = ys)"
  using assms by (simp add: string_equals_def string_equalsBuffer_def strcmp_eq_def)

section \<open>Strings that hold a C string, and strings under construction\<close>

text \<open>\<open>is_text s\<close>: the buffer is the content followed by terminators only. \<open>accum a\<close> is a string
  that starts as \<open>string_create\<close> and is only appended to: \<open>None\<close> as long as nothing was.\<close>

definition is_text :: "string_t \<Rightarrow> bool" where
  "is_text s \<longleftrightarrow> (\<exists>k > 0. s = pad (content s) k) \<and> NUL \<notin> set (content s)"

definition accum :: "string option \<Rightarrow> string_t" where
  "accum a = (case a of None \<Rightarrow> string_create | Some xs \<Rightarrow> str xs)"

definition acc_text :: "string option \<Rightarrow> string" where
  "acc_text a = (case a of None \<Rightarrow> [] | Some xs \<Rightarrow> xs)"

abbreviation accs :: "string option \<Rightarrow> string \<Rightarrow> string option" where
  "accs a ys \<equiv> Some (acc_text a @ ys)"

lemma acc_text_simps [simp]: "acc_text None = []" "acc_text (Some xs) = xs"
  by (simp_all add: acc_text_def)

lemma is_textE:
  assumes "is_text s"
  obtains xs k where "s = pad xs k" "0 < k" "NUL \<notin> set xs" "content s = xs"
  using assms unfolding is_text_def by blast

lemma is_text_pad [simp]: "is_text (pad xs k) \<longleftrightarrow> 0 < k \<and> NUL \<notin> set xs"
  by (auto simp: is_text_def)

lemma accum_simps: "accum None = string_create" "accum (Some xs) = str xs"
  by (simp_all add: accum_def)

lemma append_accum [str_simps]: "is_text s \<Longrightarrow> string_append (accum a) s = Inr (accum (accs a (content s)))"
  by (cases a; elim is_textE) (simp_all add: accum_def str_simps)

lemma appendChar_accum [str_simps]:
  "c \<noteq> NUL \<Longrightarrow> string_appendChar (accum a) c = Inr (accum (accs a [c]))"
  by (cases a) (simp_all add: accum_def str_simps)

lemma appendBuffer_accum [str_simps]:
  "NUL \<notin> set ys \<Longrightarrow> string_appendBuffer (accum a) (lit ys) = Inr (accum (accs a ys))"
  using last_text [of ys "[NUL]"]
  by (cases a) (simp_all add: accum_def str_simps string_appendBuffer_def lit_def [symmetric])

lemma copy_is_text [str_simps]: "is_text s \<Longrightarrow> string_copy s = Inr (str (content s))"
  by (elim is_textE) (simp add: str_simps)

section \<open>Cursors over the canonical form\<close>

abbreviation at :: "string_t \<Rightarrow> nat \<Rightarrow> string_cursor_t" where
  "at s i \<equiv> \<lparr>cur_string = s, cur_offset = i\<rparr>"

lemma createCursor_at [simp]: "string_createCursor s = at s 0"
  by (simp add: string_createCursor_def)

lemma getNextChar_at [str_simps]:
  "string_getNextChar (at (pad xs k) i) =
     (if i < length xs then Inr (xs ! i, at (pad xs k) (Suc i)) else Inr (NUL, at (pad xs k) i))"
  by (simp add: string_getNextChar_def str_simps)

lemma getNextChar_create [str_simps]:
  "string_getNextChar (at string_create i) = Inr (NUL, at string_create i)"
  by (simp add: string_getNextChar_def string_create_def)

text \<open>The first occurrence of a byte at or after an offset, and where the search stops.\<close>

definition find_from :: "string \<Rightarrow> nat \<Rightarrow> char \<Rightarrow> nat" where
  "find_from xs i c = i + length (takeWhile (\<lambda>x. x \<noteq> c) (drop i xs))"

lemma find_from_Suc:
  "i < length xs \<Longrightarrow> xs ! i \<noteq> c \<Longrightarrow> find_from xs i c = find_from xs (Suc i) c"
  by (simp add: find_from_def Cons_nth_drop_Suc [symmetric])

lemma find_from_here: "i < length xs \<Longrightarrow> xs ! i = c \<Longrightarrow> find_from xs i c = i"
  by (simp add: find_from_def Cons_nth_drop_Suc [symmetric])

lemma find_from_end: "length xs \<le> i \<Longrightarrow> find_from xs i c = i"
  by (simp add: find_from_def)

lemma find_from_le: "i \<le> length xs \<Longrightarrow> find_from xs i c \<le> length xs"
  using length_takeWhile_le [of "\<lambda>x. x \<noteq> c" "drop i xs"] by (simp add: find_from_def)

lemma find_from_ge: "i \<le> find_from xs i c"
  by (simp add: find_from_def)

lemma find_from_append:
  "c \<notin> set xs \<Longrightarrow> find_from (xs @ c # ys) 0 c = length xs"
  by (simp add: find_from_def) (subst takeWhile_append2, auto)

lemma find_from_none: "c \<notin> set (drop i xs) \<Longrightarrow> i \<le> length xs \<Longrightarrow> find_from xs i c = length xs"
proof -
  assume c: "c \<notin> set (drop i xs)" and i: "i \<le> length xs"
  have "takeWhile (\<lambda>x. x \<noteq> c) (drop i xs) = drop i xs" using c by auto
  then show ?thesis using i by (simp only: find_from_def) simp
qed

lemma find_from_less_iff: "i \<le> length xs \<Longrightarrow> find_from xs i c < length xs \<longleftrightarrow> c \<in> set (drop i xs)"
proof (induction "length xs - i" arbitrary: i)
  case 0
  then show ?case by (simp add: find_from_end)
next
  case (Suc n)
  then have i: "i < length xs" by simp
  then show ?case
  proof (cases "xs ! i = c")
    case True
    with i show ?thesis
      by (simp add: find_from_here Cons_nth_drop_Suc [symmetric])
  next
    case False
    with i Suc.hyps(1) [of "Suc i"] Suc.hyps(2) show ?thesis
      by (simp add: find_from_Suc Cons_nth_drop_Suc [symmetric])
  qed
qed

lemma findNextChar_at [str_simps]:
  assumes "NUL \<notin> set xs" and "i \<le> length xs" and "needle \<noteq> NUL"
  shows "string_findNextChar (at (pad xs k) i) needle =
     (let j = find_from xs i needle
      in if j < length xs then Inr (int j, at (pad xs k) (Suc j))
         else Inr (-1, at (pad xs k) (length xs)))"
  using assms(2)
proof (induction "length xs - i" arbitrary: i)
  case 0
  then show ?case
    by (simp add: string_findNextChar.simps [of "at (pad xs k) i"] getNextChar_at find_from_end)
next
  case (Suc n)
  then have i: "i < length xs" by simp
  with assms(1) have "xs ! i \<noteq> NUL" by (metis nth_mem)
  with i Suc.hyps(1) [of "Suc i"] Suc.hyps(2) show ?case
    by (cases "xs ! i = needle")
      (simp_all add: string_findNextChar.simps [of "at (pad xs k) i"] getNextChar_at
        find_from_here find_from_Suc)
qed

lemma findNextChar_create [str_simps]:
  "string_findNextChar (at string_create i) needle = Inr (-1, at string_create i)"
  by (simp add: string_findNextChar.simps [of "at string_create i"] getNextChar_create)

section \<open>Trimming\<close>

definition rtrim :: "string \<Rightarrow> string" where
  "rtrim xs = rev (dropWhile is_trimmed (rev xs))"

lemma rtrim_Nil [simp]: "rtrim [] = []"
  by (simp add: rtrim_def)

lemma rtrim_snoc [simp]: "rtrim (xs @ [c]) = (if is_trimmed c then rtrim xs else xs @ [c])"
  by (simp add: rtrim_def)

lemma rtrim_length: "length (rtrim xs) \<le> length xs"
  using length_dropWhile_le [of is_trimmed "rev xs"] by (simp add: rtrim_def)

lemma trimEnd_loop_eq:
  "string_trimEnd_loop (length xs) (xs @ zs) (length xs)
   = Inr (rtrim xs @ replicate (length xs - length (rtrim xs)) NUL @ zs, length (rtrim xs))"
proof (induction xs arbitrary: zs rule: rev_induct)
  case Nil
  then show ?case by simp
next
  case (snoc c xs)
  show ?case
  proof (cases "is_trimmed c")
    case False
    then show ?thesis by (simp add: load_def nth_append)
  next
    case True
    have "replicate (length xs - length (rtrim xs)) NUL @ NUL # zs
        = replicate (Suc (length xs) - length (rtrim xs)) NUL @ zs"
      using rtrim_length [of xs]
      by (simp add: Suc_diff_le replicate_append_same [symmetric])
    with True snoc.IH [of "NUL # zs"] show ?thesis
      by (simp add: load_def store_def nth_append list_update_append)
  qed
qed

lemma trimEnd_pad [str_simps]:
  "string_trimEnd (pad xs k) = Inr (pad (rtrim xs) (length xs - length (rtrim xs) + k))"
  using rtrim_length [of xs] trimEnd_loop_eq [of xs "replicate k NUL"]
  by (auto simp: string_trimEnd_def pad_def replicate_add [symmetric])

section \<open>Decimal conversion\<close>

lemma ilog10_bounds: "0 < n \<Longrightarrow> 10 ^ ilog10 n \<le> n \<and> n < 10 ^ Suc (ilog10 n)"
proof (induction n rule: ilog10.induct)
  case (1 n)
  show ?case
  proof (cases "n < 10")
    case True
    with 1 show ?thesis by (simp add: ilog10.simps [of n])
  next
    case False
    then have "10 ^ ilog10 (n div 10) \<le> n div 10 \<and> n div 10 < 10 ^ Suc (ilog10 (n div 10))"
      using 1 by simp
    with False show ?thesis
      by (auto simp: ilog10.simps [of n] less_mult_imp_div_less div_less_iff_less_mult
          less_eq_div_iff_mult_less_eq mult.commute)
  qed
qed

text \<open>The digits of \<open>n\<close> from position \<open>k - 1\<close> down to 0.\<close>

fun digits_from :: "nat \<Rightarrow> nat \<Rightarrow> string" where
  "digits_from n 0 = []"
| "digits_from n (Suc k) = digit_char (n div 10 ^ k mod 10) # digits_from n k"

lemma digits_from_snoc:
  "digits_from n (Suc k) = digits_from (n div 10) k @ [digit_char (n mod 10)]"
proof (induction k)
  case 0
  then show ?case by simp
next
  case (Suc k)
  have "n div 10 ^ Suc k = n div 10 div 10 ^ k" by (simp add: div_mult2_eq)
  then show ?case using Suc by simp
qed

lemma digits_from_dec: "0 < n \<Longrightarrow> digits_from n (Suc (ilog10 n)) = dec n"
proof (induction n rule: ilog10.induct)
  case (1 n)
  show ?case
  proof (cases "n < 10")
    case True
    then show ?thesis by (simp add: ilog10.simps [of n] dec.simps [of n])
  next
    case False
    then have "digits_from (n div 10) (Suc (ilog10 (n div 10))) = dec (n div 10)"
      using 1 by simp
    with False show ?thesis
      unfolding ilog10.simps [of n] dec.simps [of n]
      by (simp only: digits_from_snoc if_False)
  qed
qed

lemma digit_char_not_NUL [simp]: "d < 10 \<Longrightarrow> digit_char d \<noteq> NUL"
  using is_digit_digit_char is_digit_cases by blast

lemma length_digits_from [simp]: "length (digits_from n k) = k"
  by (induction k) auto

lemma fromInt_digits_pad:
  "0 < l \<Longrightarrow> string_fromInt_digits n k (pad xs l)
     = Inr (pad (xs @ digits_from n k) (cap_after l k))"
proof (induction k arbitrary: xs l)
  case 0
  then show ?case by (simp add: cap_after_def)
next
  case (Suc k)
  then show ?case by (simp add: appendChar_pad)
qed

lemma string_fromInt_eq [str_simps]:
  assumes "- (2 ^ 31) < number" and "number < 2 ^ 31"
  shows "string_fromInt number = Inr (str (dec_int number))"
proof -
  consider "number = 0" | "number > 0" | "number < 0" by linarith
  then show ?thesis
  proof cases
    case 1
    then show ?thesis
      by (simp add: string_fromInt_def fromBuffer_lit dec_int_def dec.simps [of 0])
  next
    case 2
    then show ?thesis
      using digits_from_dec [of "nat number"]
      by (simp add: string_fromInt_def Let_def setBufferSize_create fromInt_digits_pad
          cap_after_def dec_int_def del: digits_from.simps
          string_fromInt_digits.simps)
  next
    case 3
    then show ?thesis
      using digits_from_dec [of "nat (- number)"] assms(1)
      by (simp add: string_fromInt_def Let_def setBufferSize_create fromInt_digits_pad
          appendChar_pad cap_after_def dec_int_def del: digits_from.simps
          string_fromInt_digits.simps)
  qed
qed

section \<open>Memory safety\<close>

lemma str_wf_cases:
  assumes "str_wf s"
  obtains "s = string_create"
  | b where "str_buffer s = Some b" "length b = str_bufferSize s"
      "str_size s < str_bufferSize s" "b ! (str_bufferSize s - 1) = NUL"
  using assms by (cases s) (auto simp: str_wf_def string_create_def split: option.splits)

lemma wf_setBufferSize:
  assumes "str_wf s"
  shows "\<exists>s'. string_setBufferSize s n = Inr s' \<and> str_wf s'"
proof (cases "n = str_bufferSize s")
  case True
  with assms show ?thesis by (simp add: string_setBufferSize_def)
next
  case False
  have "length (realloc (str_buffer s) (n + 1)) = n + 1"
    by (cases "str_buffer s") (auto simp: realloc_def malloc_def)
  with False show ?thesis
    by (auto simp: string_setBufferSize_def Let_def memset_def str_wf_def nth_append
        simp del: replicate_Suc)
qed

lemma wf_clear: "str_wf s \<Longrightarrow> \<exists>s'. string_clear s = Inr s' \<and> str_wf s' \<and> content s' = []"
  by (erule str_wf_cases)
    (auto simp: string_clear_def string_create_def str_wf_def content_def Let_def store_def
      nth_list_update)

lemma length_realloc [simp]: "length (realloc p n) = n"
  by (cases p) (auto simp: realloc_def malloc_def)

lemma wf_fields:
  "str_wf s \<Longrightarrow> str_size s \<le> str_bufferSize s"
  "str_wf s \<Longrightarrow> str_buffer s = Some b \<Longrightarrow> length b = str_bufferSize s"
  "str_wf s \<Longrightarrow> 0 < str_bufferSize s \<Longrightarrow> \<exists>b. str_buffer s = Some b"
  by (auto simp: str_wf_def split: option.splits)

lemma wf_appendBufferWithLength:
  assumes wf: "str_wf s" and n: "n \<le> length buf"
  shows "\<exists>s'. string_appendBufferWithLength s buf n = Inr s' \<and> str_wf s'
           \<and> str_size s' = str_size s + n"
proof -
  define s1 where "s1 = (if str_size s + n \<ge> str_bufferSize s
      then s\<lparr>str_buffer := Some (realloc (str_buffer s) (str_size s + n + 1)),
             str_bufferSize := str_size s + n + 1\<rparr> else s)"
  obtain b where b: "str_buffer s1 = Some b" "length b = str_bufferSize s1"
    and sz: "str_size s1 = str_size s" "str_size s + n < str_bufferSize s1"
    using wf_fields [OF wf] by (cases "str_size s + n \<ge> str_bufferSize s") (auto simp: s1_def)
  obtain e where e: "(if n > 0 then bnd (load buf (n - 1)) (\<lambda>c. Inr (c = NUL)) else Inr False) = Inr e"
    using n by (cases n) (auto simp: load_def)
  obtain b1 where b1: "(if e then memcpy b (str_size s1) buf (n - 1)
      else memcpy b (str_size s1) buf n) = Inr b1" and len: "length b1 = length b"
    using n b sz by (cases e; cases n) (auto simp: memcpy_def)
  have "string_appendBufferWithLength s buf n =
      Inr (s1\<lparr>str_buffer := Some (b1[str_bufferSize s1 - 1 := NUL]), str_size := str_size s + n\<rparr>)"
    unfolding string_appendBufferWithLength_def Let_def s1_def [symmetric] e
    using b b1 len sz by (simp add: store_def)
  moreover have "str_wf (s1\<lparr>str_buffer := Some (b1[str_bufferSize s1 - 1 := NUL]), str_size := str_size s + n\<rparr>)"
    using b len sz by (simp add: str_wf_def)
  ultimately show ?thesis by simp
qed

lemma wf_setCharAt: "str_wf s \<Longrightarrow> \<exists>s'. string_setCharAt s i c = Inr s' \<and> str_wf s'"
  by (erule str_wf_cases)
    (auto simp: string_setCharAt_def string_create_def str_wf_def store_def nth_list_update)

lemma wf_getCharAt: "str_wf s \<Longrightarrow> \<exists>c. string_getCharAt s i = Inr c"
  by (erule str_wf_cases) (auto simp: string_getCharAt_def string_create_def load_def)

lemma wf_substring:
  assumes "str_wf s" and "i \<le> j"
  shows "\<exists>r. string_substring s i j = Inr r \<and> (\<forall>t. r = Some t \<longrightarrow> str_wf t)"
  using assms(1)
  by (rule str_wf_cases)
    (use assms(2) in \<open>auto simp: string_substring_def string_create_def fromBufferWithLength_eq\<close>)

lemma trimEnd_loop_wf:
  assumes "n \<le> length b"
  shows "\<exists>b' m. string_trimEnd_loop n b n = Inr (b', m) \<and> length b' = length b \<and> m \<le> n
           \<and> (\<forall>i. n \<le> i \<longrightarrow> b' ! i = b ! i)"
  using assms
proof (induction n arbitrary: b)
  case 0
  then show ?case by simp
next
  case (Suc n)
  show ?case
  proof (cases "is_trimmed (b ! n)")
    case True
    obtain b' m where "string_trimEnd_loop n (b[n := NUL]) n = Inr (b', m)"
      "length b' = length b" "m \<le> n" "\<forall>i. n \<le> i \<longrightarrow> b' ! i = b[n := NUL] ! i"
      using Suc.IH [of "b[n := NUL]"] Suc.prems by auto
    with True Suc.prems show ?thesis by (auto simp: load_def store_def)
  next
    case False
    with Suc.prems show ?thesis by (simp add: load_def)
  qed
qed

lemma wf_trimEnd: "str_wf s \<Longrightarrow> \<exists>s'. string_trimEnd s = Inr s' \<and> str_wf s'"
proof (erule str_wf_cases)
  assume "s = string_create"
  then show ?thesis by (simp add: string_trimEnd_def string_create_def str_wf_def)
next
  fix b
  assume b: "str_buffer s = Some b" "length b = str_bufferSize s"
    "str_size s < str_bufferSize s" "b ! (str_bufferSize s - 1) = NUL"
  then obtain b' m where "string_trimEnd_loop (str_size s) b (str_size s) = Inr (b', m)"
    "length b' = length b" "m \<le> str_size s" "\<forall>i. str_size s \<le> i \<longrightarrow> b' ! i = b ! i"
    using trimEnd_loop_wf [of "str_size s" b] by auto
  with b show ?thesis by (auto simp: string_trimEnd_def str_wf_def)
qed

lemmas wf_string_ops = wf_setBufferSize wf_clear wf_appendBufferWithLength wf_setCharAt
  wf_getCharAt wf_substring wf_trimEnd

lemma atoi_dec_int:
  assumes "- (2 ^ 31) < i" and "i < 2 ^ 31"
  shows "atoi (dec_int i @ NUL # rest) = Inr i"
proof (cases "i < 0")
  case False
  then show ?thesis using atoi_dec [of "nat i" rest] assms by (simp add: dec_int_def)
next
  case True
  have "takeWhile is_digit (dec (nat (- i))) = dec (nat (- i))" by (rule takeWhile_dec)
  moreover have "NUL \<in> set (dec_int i @ NUL # rest)"
    and "cstr (dec_int i @ NUL # rest) = CHR ''-'' # dec (nat (- i))"
    using True cstr_append [of "CHR ''-'' # dec (nat (- i))" rest] by (simp_all add: dec_int_def)
  ultimately show ?thesis
    using True assms by (simp add: atoi_def strlen_def Let_def is_space_def)
qed

section \<open>Properties\<close>



text \<open>Appending a string to a string yields exactly the concatenated text, whatever spare
  capacity either of them has, and keeps the canonical form.\<close>

theorem string_append_concat:
  assumes "0 < k" and "0 < l" and "NUL \<notin> set ys"
  shows "\<exists>m > 0. string_append (pad xs k) (pad ys l) = Inr (pad (xs @ ys) m)"
  using append_pad [OF assms] cap_after_pos by blast

theorem string_append_concat_witness:
  "\<exists>m > 0. string_append (pad ''Host'' 9) (pad '': a'' 2) = Inr (pad ''Host: a'' m)"
  using string_append_concat [of 9 2 "'': a''" "''Host''"] by simp

text \<open>Every \<^verbatim>\<open>int\<close> but \<^verbatim>\<open>INT_MIN\<close> survives the round trip through \<open>string_fromInt\<close> and
  \<^verbatim>\<open>atoi\<close>; the text is its decimal notation.\<close>

theorem string_fromInt_atoi:
  assumes "- (2 ^ 31) < i" and "i < 2 ^ 31"
  shows "\<exists>s. string_fromInt i = Inr s \<and> content s = dec_int i
           \<and> bnd (deref (string_getBuffer s)) atoi = Inr i"
  using assms atoi_dec_int [OF assms, of "[]"] by (simp add: str_simps string_getBuffer_def)

theorem string_fromInt_atoi_witness:
  "\<exists>s. string_fromInt (-8080) = Inr s \<and> content s = dec_int (-8080)
     \<and> bnd (deref (string_getBuffer s)) atoi = Inr (-8080)"
  using string_fromInt_atoi [of "-8080"] by simp

text \<open>A line that ends in a carriage return and a newline, after text already consumed, is
  returned without its terminator, and the cursor moves just behind the newline.\<close>

theorem string_getNextLine_crlf:
  assumes "NUL \<notin> set (pre @ line @ rest)" and "LF \<notin> set line" and "0 < k"
  shows "string_getNextLine (at (pad (pre @ line @ CR # LF # rest) k) (length pre))
       = Inr (Some (str line), at (pad (pre @ line @ CR # LF # rest) k) (length pre + length line + 2))"
proof -
  let ?t = "pre @ line @ CR # LF # rest"
  have "takeWhile (\<lambda>x. x \<noteq> LF) (line @ CR # LF # rest) = line @ [CR]"
    using assms(2) by (subst takeWhile_append2) auto
  then have j: "find_from ?t (length pre) LF = length pre + length line + 1"
    by (simp add: find_from_def)
  have "?t ! (length pre + length line) = CR"
    by (simp add: nth_append)
  then show ?thesis
    using assms
    by (auto simp: string_getNextLine_def findNextChar_at j Let_def str_simps nat_add_distrib)
qed

theorem string_getNextLine_crlf_witness:
  "string_getNextLine (at (pad ([] @ ''a: b'' @ CR # LF # ''c'') 1) 0)
   = Inr (Some (str ''a: b''), at (pad (''a: b'' @ CR # LF # ''c'') 1) 6)"
  using string_getNextLine_crlf [of "[]" "''a: b''" "''c''" 1] by simp

text \<open>Text that starts with a newline is not split there: the first line returned is the
  whole remaining text, newlines included.\<close>

theorem string_getNextLine_leading_newline:
  assumes "NUL \<notin> set rest" and "0 < k"
  shows "\<exists>cu. string_getNextLine (at (pad (LF # rest) k) 0) = Inr (Some (str (LF # rest)), cu)"
  using assms by (simp add: string_getNextLine_def findNextChar_at find_from_here str_simps)

theorem string_getNextLine_leading_newline_witness:
  "\<exists>cu. string_getNextLine (at (pad (LF # ''a'') 1) 0) = Inr (Some (str (LF # ''a'')), cu)"
  using string_getNextLine_leading_newline [of "''a''" 1] by simp

text \<open>\<open>string_clear\<close> leaves the old bytes behind the first one in place: after clearing a
  text of at least two bytes and appending one character, the size says one character but
  the C string in the buffer still ends in the old text.\<close>

theorem string_clear_leaves_stale_bytes:
  assumes "NUL \<notin> set (a # b # rest)" and "c \<noteq> NUL"
  shows "\<exists>s. bnd (string_clear (str (a # b # rest))) (\<lambda>s. string_appendChar s c) = Inr s
           \<and> content s = [c] \<and> map_option cstr (string_getBuffer s) = Some (c # b # rest)"
proof -
  have "(c # b # rest @ [NUL])[Suc (Suc (length rest)) := NUL] = c # b # rest @ [NUL]"
    by (simp add: list_update_append)
  then show ?thesis
    using assms cstr_append [of "c # b # rest" "[]"]
    by (auto simp: string_clear_def string_appendChar_def string_appendBufferWithLength_def
        Let_def load_def store_def memcpy_def content_def string_getBuffer_def
        simp del: cstr_append)
qed

theorem string_clear_leaves_stale_bytes_witness:
  "\<exists>s. bnd (string_clear (str ''abc'')) (\<lambda>s. string_appendChar s (CHR ''x'')) = Inr s
     \<and> content s = ''x'' \<and> map_option cstr (string_getBuffer s) = Some ''xbc''"
  using string_clear_leaves_stale_bytes [of "CHR ''a''" "CHR ''b''" "''c''" "CHR ''x''"] by simp

end
