(* ===== verification/Hash_Table.thy ===== *)
theory Hash_Table
  imports CString CList
begin

text \<open>
  The hash table of \<^verbatim>\<open>src/datastructures/hash-table/hash-table.c\<close>: the table-driven CRC-32 hash
  with its lazily filled static lookup table, and the list of entries that is searched by hash
  from the cursor on. The hash is shown equal to the bit-by-bit CRC-32; the operations are shown
  to implement a finite map from hashes to values (\<open>ht_inv\<close>), which is the contract
  \<open>keyed_store\<close> that the clients of the table (URL parameters, HTTP headers, CGI environment,
  page templates) rely on. The keys themselves are never compared.
\<close>

unbundle bit_operations_syntax

section \<open>The hash function\<close>

definition crc_bit :: "32 word \<Rightarrow> 32 word" where
  "crc_bit crc = (let mask = - (crc AND 1) in drop_bit 1 crc XOR (0xEDB88320 AND mask))"

definition crc_byte :: "32 word \<Rightarrow> 32 word" where
  "crc_byte crc = (crc_bit ^^ 8) crc"

definition hashLookup_init :: "32 word list" where
  "hashLookup_init = replicate 256 0"

definition hashLookup_fill :: "32 word list" where
  "hashLookup_fill = map (\<lambda>byte. crc_byte (of_nat byte)) [0..<256]"

fun hash_table_hash_loop :: "32 word list \<Rightarrow> bytes \<Rightarrow> 32 word \<Rightarrow> 32 word exec" where
  "hash_table_hash_loop tab [] crc = Inl OutOfBounds"
| "hash_table_hash_loop tab (c # cs) crc =
     (if c = NUL then Inr crc
      else hash_table_hash_loop tab cs
             (drop_bit 8 crc XOR tab ! unat ((crc XOR word_of_int (schar c)) AND 0xFF)))"

text \<open>The static lookup table is state: it is filled by the first call. The bytes are read as
  signed \<^verbatim>\<open>char\<close> and sign-extended before the mask.\<close>

definition hash_table_hash_static ::
  "32 word list \<Rightarrow> bytes option \<Rightarrow> (32 word \<times> 32 word list) exec" where
  "hash_table_hash_static hashLookup value =
     (let tab = (if hashLookup ! 1 = 0 then hashLookup_fill else hashLookup)
      in bnd (deref value) (\<lambda>b.
         bnd (hash_table_hash_loop tab b 0xFFFFFFFF) (\<lambda>crc. Inr (NOT crc, tab))))"

text \<open>By \<open>hash_static_idem\<close> the result does not depend on whether the table is filled already,
  so the clients use the hash as a function of the key.\<close>

definition hash_table_hash :: "bytes option \<Rightarrow> 32 word exec" where
  "hash_table_hash value =
     bnd (hash_table_hash_static hashLookup_init value) (\<lambda>(h, _). Inr h)"

text \<open>The bit-by-bit CRC-32 with the reflected polynomial.\<close>

fun crc32_step :: "32 word \<Rightarrow> string \<Rightarrow> 32 word" where
  "crc32_step crc [] = crc"
| "crc32_step crc (c # cs) = crc32_step (crc_byte (crc XOR of_nat (of_char c))) cs"

definition crc32 :: "string \<Rightarrow> 32 word" where
  "crc32 xs = NOT (crc32_step 0xFFFFFFFF xs)"

section \<open>Table-driven and bitwise CRC agree\<close>

lemma crc_bit_alt: "crc_bit x = drop_bit 1 x XOR (if bit x 0 then 0xEDB88320 else 0)"
proof -
  have "x AND 1 = (if bit x 0 then 1 else 0)"
    by (simp add: and_one_eq bit_0 odd_iff_mod_2_eq_one)
  then show ?thesis by (simp add: crc_bit_def Let_def)
qed

lemma crc_byte_unfold:
  "crc_byte x = crc_bit (crc_bit (crc_bit (crc_bit (crc_bit (crc_bit (crc_bit (crc_bit x)))))))"
  by (simp add: crc_byte_def numeral_eq_Suc)

lemma crc_bit_xor: "crc_bit (x XOR y) = crc_bit x XOR crc_bit y"
  by (simp add: crc_bit_alt bit_xor_iff drop_bit_xor ac_simps)

lemma crc_bits_xor: "(crc_bit ^^ n) (x XOR y) = (crc_bit ^^ n) x XOR (crc_bit ^^ n) y"
  by (induction n) (simp_all add: crc_bit_xor)

lemma crc_bits_shift: "(\<And>i. i < n \<Longrightarrow> \<not> bit x i) \<Longrightarrow> (crc_bit ^^ n) x = drop_bit n x"
proof (induction n)
  case (Suc n)
  then have "(crc_bit ^^ Suc n) x = crc_bit (drop_bit n x)" by simp
  also have "\<dots> = drop_bit (Suc n) x"
    using Suc.prems [of n] by (simp add: crc_bit_alt bit_drop_bit_eq)
  finally show ?case .
qed simp

lemma and_FF: "(x :: 32 word) AND 0xFF = take_bit 8 x"
  by (simp add: take_bit_eq_mask mask_eq_exp_minus_1)

lemma split_low_byte: "(x :: 32 word) = take_bit 8 x XOR push_bit 8 (drop_bit 8 x)"
  by (rule bit_eqI) (auto simp: bit_xor_iff bit_take_bit_iff bit_push_bit_iff bit_drop_bit_eq)

lemma crc_byte_table: "crc_byte x = drop_bit 8 x XOR crc_byte (take_bit 8 x)"
proof -
  have "crc_byte (push_bit 8 (drop_bit 8 x)) = drop_bit 8 (push_bit 8 (drop_bit 8 x))"
    unfolding crc_byte_def by (rule crc_bits_shift) (simp add: bit_push_bit_iff)
  also have "\<dots> = drop_bit 8 x"
    by (rule bit_eqI) (auto simp: bit_drop_bit_eq bit_push_bit_iff dest: bit_imp_le_length)
  finally show ?thesis
    using crc_bits_xor [of 8 "take_bit 8 x" "push_bit 8 (drop_bit 8 x)"]
    by (simp add: split_low_byte [symmetric] crc_byte_def xor.commute)
qed

lemma fill_nth: "hashLookup_fill ! unat (take_bit 8 (x :: 32 word)) = crc_byte (take_bit 8 x)"
proof -
  have "unat (take_bit 8 x) < 256"
    unfolding unsigned_take_bit_eq by (simp add: take_bit_eq_mod)
  then show ?thesis by (simp add: hashLookup_fill_def)
qed

lemma schar_low_byte: "take_bit 8 (word_of_int (schar c) :: 32 word) = take_bit 8 (of_nat (of_char c))"
proof -
  have "take_bit 8 (schar c) = take_bit 8 (int (of_char c))"
    by (simp add: schar_def Let_def take_bit_eq_mod)
  then have "take_bit 8 (word_of_int (schar c) :: 32 word) = take_bit 8 (word_of_int (int (of_char c)))"
    by (metis take_bit_of_int)
  then show ?thesis by simp
qed


lemma table_step:
  "drop_bit 8 crc XOR hashLookup_fill ! unat ((crc XOR word_of_int (schar c)) AND 0xFF)
   = crc_byte (crc XOR of_nat (of_char c))"
proof -
  have low: "take_bit 8 (crc XOR word_of_int (schar c)) = take_bit 8 (crc XOR of_nat (of_char c))"
    by (simp add: take_bit_xor schar_low_byte)
  have "unat (of_nat (of_char c) :: 32 word) < 256"
    using nat_of_char_less_256 [of c]
    by (simp add: unat_of_nat order.strict_trans1 [OF mod_less_eq_dividend])
  then have "unat (drop_bit 8 (of_nat (of_char c) :: 32 word)) = 0"
    by (simp add: drop_bit_eq_div unat_div)
  then have "drop_bit 8 (of_nat (of_char c) :: 32 word) = 0" by (simp only: unat_eq_0)
  then have "drop_bit 8 (crc XOR of_nat (of_char c)) = drop_bit 8 crc" by (simp add: drop_bit_xor)
  then show ?thesis
    unfolding and_FF low fill_nth using crc_byte_table [of "crc XOR of_nat (of_char c)"] by simp
qed

lemma hash_loop_crc:
  "NUL \<in> set b \<Longrightarrow> hash_table_hash_loop hashLookup_fill b crc = Inr (crc32_step crc (cstr b))"
proof (induction b arbitrary: crc)
  case (Cons c b)
  show ?case
  proof (cases "c = NUL")
    case True
    then show ?thesis by (simp add: cstr_def)
  next
    case False
    with Cons.prems have "NUL \<in> set b" by auto
    from Cons.IH [OF this] False show ?thesis by (simp add: table_step cstr_def)
  qed
qed simp

lemma fill_1: "hashLookup_fill ! 1 \<noteq> 0"
proof -
  have "hashLookup_fill ! 1 = crc_byte 1" by (simp add: hashLookup_fill_def)
  also have "\<dots> = 0x77073096" by code_simp
  finally show ?thesis by simp
qed

lemma hash_static_eq:
  assumes "NUL \<in> set b" and "tab = hashLookup_init \<or> tab = hashLookup_fill"
  shows "hash_table_hash_static tab (Some b) = Inr (crc32 (cstr b), hashLookup_fill)"
  using assms fill_1
  by (auto simp: hash_table_hash_static_def hash_loop_crc crc32_def hashLookup_init_def)

lemma hash_eq [simp]: "NUL \<in> set b \<Longrightarrow> hash_table_hash (Some b) = Inr (crc32 (cstr b))"
  by (simp add: hash_table_hash_def hash_static_eq)

lemma hash_None [simp]: "hash_table_hash None = Inl NullPointer"
  by (simp add: hash_table_hash_def hash_table_hash_static_def)

section \<open>Entries and operations\<close>

record 'v hash_table_entry_t =
  ent_keyHash :: "32 word"
  ent_key :: string_t
  ent_value :: "'v option"

text \<open>The structure \<^verbatim>\<open>hash_table_t\<close> holds nothing but its list of entries. An entry belongs to
  exactly one node, so it is kept in the node itself.\<close>

type_synonym 'v hash_table_t = "'v hash_table_entry_t list_t"

definition hash_table_create :: "'v hash_table_t" where
  "hash_table_create = list_create"

fun hash_table_findIndex_loop :: "nat \<Rightarrow> 'v hash_table_t \<Rightarrow> 32 word \<Rightarrow> (int \<times> 'v hash_table_t) exec" where
  "hash_table_findIndex_loop 0 t keyHash = Inr (-1, t)"
| "hash_table_findIndex_loop (Suc rest) t keyHash =
     bnd (list_current_value t) (\<lambda>entry.
       if ent_keyHash entry = keyHash then Inr (int (list_currentIndex t), t)
       else bnd (list_moveToIndex t ((list_currentIndex t + 1) mod list_length t)) (\<lambda>t1.
              hash_table_findIndex_loop rest t1 keyHash))"

definition hash_table_findIndex :: "'v hash_table_t \<Rightarrow> 32 word \<Rightarrow> (int \<times> 'v hash_table_t) exec" where
  "hash_table_findIndex t keyHash = hash_table_findIndex_loop (list_length t) t keyHash"

definition hash_table_setValue ::
  "'v hash_table_t \<Rightarrow> string_t \<Rightarrow> 'v option \<Rightarrow> ('v option \<times> 'v hash_table_t) exec" where
  "hash_table_setValue t key value =
     bnd (hash_table_hash (string_getBuffer key)) (\<lambda>keyHash.
     bnd (hash_table_findIndex t keyHash) (\<lambda>(keyIndex, t1).
       if keyIndex = -1
       then bnd (list_addValue t1 \<lparr>ent_keyHash = keyHash, ent_key = key, ent_value = value\<rparr>)
              (\<lambda>t2. Inr (None, t2))
       else bnd (list_getValue t1 (nat keyIndex)) (\<lambda>(p, t2).
            bnd (deref p) (\<lambda>entry.
            bnd (string_free (Some (ent_key entry))) (\<lambda>_.
            bnd (list_setValue t2 (nat keyIndex) (entry\<lparr>ent_value := value, ent_key := key\<rparr>)) (\<lambda>(_, t3).
              Inr (ent_value entry, t3)))))))"

definition hash_table_removeValue ::
  "'v hash_table_t \<Rightarrow> string_t \<Rightarrow> ('v option \<times> 'v hash_table_t) exec" where
  "hash_table_removeValue t key =
     bnd (hash_table_hash (string_getBuffer key)) (\<lambda>keyHash.
     bnd (hash_table_findIndex t keyHash) (\<lambda>(keyIndex, t1).
       if keyIndex = -1 then Inr (None, t1)
       else bnd (list_removeValue t1 (nat keyIndex)) (\<lambda>(p, t2).
            bnd (deref p) (\<lambda>entry.
            bnd (string_free (Some (ent_key entry))) (\<lambda>_. Inr (ent_value entry, t2))))))"

definition hash_table_getValue ::
  "'v hash_table_t \<Rightarrow> string_t \<Rightarrow> ('v option \<times> 'v hash_table_t) exec" where
  "hash_table_getValue t key =
     bnd (hash_table_hash (string_getBuffer key)) (\<lambda>keyHash.
     bnd (hash_table_findIndex t keyHash) (\<lambda>(keyIndex, t1).
       if keyIndex = -1 then Inr (None, t1)
       else bnd (list_getValue t1 (nat keyIndex)) (\<lambda>(p, t2).
            bnd (deref p) (\<lambda>entry. Inr (ent_value entry, t2)))))"

definition hash_table_getEntryByIndex ::
  "'v hash_table_t \<Rightarrow> nat \<Rightarrow> ('v hash_table_entry_t option \<times> 'v hash_table_t) exec" where
  "hash_table_getEntryByIndex t index =
     (if list_getLength t \<le> index then Inr (None, t) else list_getValue t index)"

definition hash_table_getKeyByIndex ::
  "'v hash_table_t \<Rightarrow> nat \<Rightarrow> (string_t option \<times> 'v hash_table_t) exec" where
  "hash_table_getKeyByIndex t index =
     bnd (hash_table_getEntryByIndex t index) (\<lambda>(p, t1). Inr (map_option ent_key p, t1))"

definition hash_table_getValueByIndex ::
  "'v hash_table_t \<Rightarrow> nat \<Rightarrow> ('v option \<times> 'v hash_table_t) exec" where
  "hash_table_getValueByIndex t index =
     bnd (hash_table_getEntryByIndex t index) (\<lambda>(p, t1). Inr (Option.bind p ent_value, t1))"

definition hash_table_getLength :: "'v hash_table_t \<Rightarrow> nat" where
  "hash_table_getLength t = list_getLength t"

fun hash_table_clear_loop :: "nat \<Rightarrow> 'v hash_table_t \<Rightarrow> 'v hash_table_t exec" where
  "hash_table_clear_loop 0 t = Inr t"
| "hash_table_clear_loop (Suc n) t =
     (if list_length t > 0
      then bnd (list_removeValue t 0) (\<lambda>(p, t1). bnd (deref p) (\<lambda>entry.
           bnd (string_free (Some (ent_key entry))) (\<lambda>_. hash_table_clear_loop n t1)))
      else Inr t)"

definition hash_table_clear :: "'v hash_table_t \<Rightarrow> 'v hash_table_t exec" where
  "hash_table_clear t = hash_table_clear_loop (list_length t) t"

definition hash_table_free ::
  "'v hash_table_t \<Rightarrow> (nat \<Rightarrow> 'v hash_table_entry_t list_node_t option) exec" where
  "hash_table_free t = bnd (hash_table_clear t) list_free"


section \<open>Representation\<close>

definition key_ok :: "string_t \<Rightarrow> bool" where
  "key_ok s = (case str_buffer s of None \<Rightarrow> False | Some b \<Rightarrow> NUL \<in> set b)"

definition key_text :: "string_t \<Rightarrow> string" where
  "key_text s = (case str_buffer s of None \<Rightarrow> [] | Some b \<Rightarrow> cstr b)"

definition key_hash :: "string_t \<Rightarrow> 32 word" where
  "key_hash s = crc32 (key_text s)"

definition ent_ok :: "'v hash_table_entry_t \<Rightarrow> bool" where
  "ent_ok e \<longleftrightarrow> key_ok (ent_key e) \<and> ent_keyHash e = key_hash (ent_key e)"

definition ht_rep :: "'v hash_table_t \<Rightarrow> 'v hash_table_entry_t list \<Rightarrow> bool" where
  "ht_rep t es \<longleftrightarrow> list_inv t es \<and> distinct (map ent_keyHash es) \<and> list_all ent_ok es"

definition entries_map :: "'v hash_table_entry_t list \<Rightarrow> 32 word \<Rightarrow> 'v option option" where
  "entries_map es = map_of (map (\<lambda>e. (ent_keyHash e, ent_value e)) es)"

definition ht_inv :: "'v hash_table_t \<Rightarrow> (32 word \<Rightarrow> 'v option option) \<Rightarrow> bool" where
  "ht_inv t m \<longleftrightarrow> (\<exists>es. ht_rep t es \<and> m = entries_map es)"

text \<open>What an update by hash does to the sequence of entries.\<close>

definition entries_set ::
  "'v hash_table_entry_t list \<Rightarrow> string_t \<Rightarrow> 'v option \<Rightarrow> 'v hash_table_entry_t list" where
  "entries_set es key v =
     (if key_hash key \<in> ent_keyHash ` set es
      then map (\<lambda>e. if ent_keyHash e = key_hash key
                    then e\<lparr>ent_value := v, ent_key := key\<rparr> else e) es
      else es @ [\<lparr>ent_keyHash = key_hash key, ent_key = key, ent_value = v\<rparr>])"

lemma key_pad [simp]:
  "0 < k \<Longrightarrow> key_ok (pad xs k)" "0 < k \<Longrightarrow> NUL \<notin> set xs \<Longrightarrow> key_text (pad xs k) = xs"
  by (simp_all add: key_ok_def key_text_def pad_def)

lemma key_text_is_text [simp]: "is_text s \<Longrightarrow> key_text s = content s" "is_text s \<Longrightarrow> key_ok s"
  by (auto elim!: is_textE)

lemma hash_key: "key_ok s \<Longrightarrow> hash_table_hash (string_getBuffer s) = Inr (key_hash s)"
  by (auto simp: key_ok_def key_hash_def key_text_def string_getBuffer_def split: option.splits)

lemma string_free_Some [simp]: "string_free (Some s) = Inr ()"
  by (simp add: string_free_def)

section \<open>Searching\<close>

lemma findIndex_loop:
  assumes "list_inv t es" and "es \<noteq> []"
  shows "(\<exists>j < rest. ent_keyHash (es ! ((list_currentIndex t + j) mod length es)) = h) \<and>
      (\<exists>i t'. hash_table_findIndex_loop rest t h = Inr (int i, t') \<and> i < length es
          \<and> ent_keyHash (es ! i) = h \<and> list_inv t' es \<and> list_currentIndex t' = i)
    \<or> (\<forall>j < rest. ent_keyHash (es ! ((list_currentIndex t + j) mod length es)) \<noteq> h) \<and>
      (\<exists>t'. hash_table_findIndex_loop rest t h = Inr (-1, t') \<and> list_inv t' es)"
  using assms
proof (induction rest arbitrary: t)
  case (Suc rest)
  let ?c = "list_currentIndex t"
  have c: "?c < length es" using list_inv_cursor Suc.prems by blast
  have cur: "list_current_value t = Inr (es ! ?c)" using inv_current_value Suc.prems by blast
  show ?case
  proof (cases "ent_keyHash (es ! ?c) = h")
    case True
    then show ?thesis using c cur Suc.prems by (intro disjI1) (auto intro!: exI [of _ 0])
  next
    case False
    have "Suc ?c mod length es < length es" using c by (intro mod_less_divisor) linarith
    then obtain t1 where t1: "list_moveToIndex t (Suc ?c mod length es) = Inr t1" "list_inv t1 es"
      "list_currentIndex t1 = Suc ?c mod length es"
      using inv_move [OF Suc.prems(1) _ move_safe_next [OF c]] by blast
    have step: "hash_table_findIndex_loop (Suc rest) t h = hash_table_findIndex_loop rest t1 h"
      using cur False t1(1) list_inv_length [OF Suc.prems(1)] by simp
    have shift: "es ! (Suc (?c + j) mod length es)
        = es ! ((list_currentIndex t1 + j) mod length es)" for j
      by (simp add: t1(3) mod_add_left_eq)
    have "(\<exists>j < Suc rest. ent_keyHash (es ! ((?c + j) mod length es)) = h) \<longleftrightarrow>
        (\<exists>j < rest. ent_keyHash (es ! ((list_currentIndex t1 + j) mod length es)) = h)"
      using False c by (simp add: Ex_less_Suc2 shift)
    then show ?thesis using Suc.IH [OF t1(2) Suc.prems(2)] unfolding step by blast
  qed
qed auto

lemma cyclic_index:
  assumes "c < n" and "i < (n :: nat)"
  shows "\<exists>j < n. (c + j) mod n = i"
proof (cases "c \<le> i")
  case True
  with assms show ?thesis by (intro exI [of _ "i - c"]) simp
next
  case False
  with assms show ?thesis by (intro exI [of _ "n + i - c"]) simp
qed

lemma findIndex_hit:
  assumes "list_inv t es" and "h \<in> ent_keyHash ` set es"
  shows "\<exists>i t'. hash_table_findIndex t h = Inr (int i, t') \<and> i < length es
          \<and> ent_keyHash (es ! i) = h \<and> list_inv t' es \<and> list_currentIndex t' = i"
proof -
  from assms(2) obtain k where k: "k < length es" "ent_keyHash (es ! k) = h"
    by (auto simp: in_set_conv_nth)
  have ne: "es \<noteq> []" using k by auto
  obtain j where "j < length es" "(list_currentIndex t + j) mod length es = k"
    using cyclic_index [OF list_inv_cursor [OF assms(1) ne] k(1)] by blast
  with k findIndex_loop [OF assms(1) ne, of "length es" h] show ?thesis
    by (auto simp: hash_table_findIndex_def list_inv_length [OF assms(1)])
qed

lemma findIndex_miss:
  assumes "list_inv t es" and "h \<notin> ent_keyHash ` set es"
  shows "\<exists>t'. hash_table_findIndex t h = Inr (-1, t') \<and> list_inv t' es"
proof (cases "es = []")
  case True
  then show ?thesis using assms(1) by (simp add: hash_table_findIndex_def list_inv_length)
next
  case False
  have "ent_keyHash (es ! (j mod length es)) \<noteq> h" for j
    using assms(2) False by (metis image_eqI length_greater_0_conv mod_less_divisor nth_mem)
  with findIndex_loop [OF assms(1) False, of "length es" h] show ?thesis
    by (auto simp: hash_table_findIndex_def list_inv_length [OF assms(1)])
qed

lemma list_update_distinct_hash:
  assumes "distinct (map ent_keyHash es)" and "i < length es"
  shows "es[i := f (es ! i)] = map (\<lambda>e. if ent_keyHash e = ent_keyHash (es ! i) then f e else e) es"
proof (rule nth_equalityI)
  fix j assume "j < length (es[i := f (es ! i)])"
  then have j: "j < length es" by simp
  have "ent_keyHash (es ! j) = ent_keyHash (es ! i) \<longleftrightarrow> j = i"
    using assms j by (metis length_map nth_eq_iff_index_eq nth_map)
  then show "es[i := f (es ! i)] ! j
      = map (\<lambda>e. if ent_keyHash e = ent_keyHash (es ! i) then f e else e) es ! j"
    using assms(2) j by (auto simp: nth_list_update)
qed simp

lemma filter_middle:
  "distinct (map f (as @ x # bs)) \<Longrightarrow> filter (\<lambda>e. f e \<noteq> f x) (as @ x # bs) = as @ bs"
proof -
  assume d: "distinct (map f (as @ x # bs))"
  then have "\<forall>e \<in> set as. f e \<noteq> f x" and "\<forall>e \<in> set bs. f e \<noteq> f x"
    by (simp_all add: image_iff) metis+
  then show ?thesis by simp
qed

lemma list_remove_distinct_hash:
  assumes "distinct (map ent_keyHash es)" and "i < length es"
  shows "take i es @ drop (Suc i) es = filter (\<lambda>e. ent_keyHash e \<noteq> ent_keyHash (es ! i)) es"
proof -
  have "es = take i es @ es ! i # drop (Suc i) es" using assms(2) by (simp add: id_take_nth_drop)
  moreover have "distinct (map ent_keyHash (take i es @ es ! i # drop (Suc i) es))"
    using assms(1) calculation by simp
  ultimately show ?thesis using filter_middle by metis
qed


section \<open>The operations on the sequence of entries\<close>

lemma ht_rep_create: "ht_rep hash_table_create []"
  by (simp add: ht_rep_def hash_table_create_def inv_create)

lemma ht_rep_length: "ht_rep t es \<Longrightarrow> hash_table_getLength t = length es"
  by (simp add: ht_rep_def hash_table_getLength_def list_getLength_def list_inv_length)

lemma entries_map_get:
  "distinct (map ent_keyHash es) \<Longrightarrow> i < length es \<Longrightarrow>
   entries_map es (ent_keyHash (es ! i)) = Some (ent_value (es ! i))"
  unfolding entries_map_def by (rule map_of_is_SomeI) (auto simp: o_def)

lemma entries_map_None [simp]: "entries_map es h = None \<longleftrightarrow> h \<notin> ent_keyHash ` set es"
  by (auto simp: entries_map_def map_of_eq_None_iff image_iff)

lemma entries_map_miss [simp]: "h \<notin> ent_keyHash ` set es \<Longrightarrow> entries_map es h = None"
  by simp

lemma ht_rep_get:
  assumes rep: "ht_rep t es" and ok: "key_ok key"
  shows "\<exists>t'. hash_table_getValue t key = Inr (Option.bind (entries_map es (key_hash key)) id, t')
           \<and> ht_rep t' es"
proof (cases "key_hash key \<in> ent_keyHash ` set es")
  case True
  from rep have inv: "list_inv t es" and d: "distinct (map ent_keyHash es)" by (simp_all add: ht_rep_def)
  obtain i t1 where i: "hash_table_findIndex t (key_hash key) = Inr (int i, t1)" "i < length es"
    "ent_keyHash (es ! i) = key_hash key" "list_inv t1 es" "list_currentIndex t1 = i"
    using findIndex_hit [OF inv True] by blast
  then obtain t2 where "list_getValue t1 i = Inr (Some (es ! i), t2)" "list_inv t2 es"
    using inv_get [of t1 es i] by auto
  then show ?thesis using i rep entries_map_get [OF d i(2)]
    by (simp add: hash_table_getValue_def hash_key [OF ok] ht_rep_def)
next
  case False
  then show ?thesis
    using findIndex_miss [of t es "key_hash key"] rep entries_map_miss [OF False]
    by (auto simp: hash_table_getValue_def hash_key [OF ok] ht_rep_def)
qed

lemma ht_rep_remove:
  assumes rep: "ht_rep t es" and ok: "key_ok key"
  shows "\<exists>t'. hash_table_removeValue t key = Inr (Option.bind (entries_map es (key_hash key)) id, t')
           \<and> ht_rep t' (filter (\<lambda>e. ent_keyHash e \<noteq> key_hash key) es)"
proof (cases "key_hash key \<in> ent_keyHash ` set es")
  case True
  from rep have inv: "list_inv t es" and d: "distinct (map ent_keyHash es)" by (simp_all add: ht_rep_def)
  obtain i t1 where i: "hash_table_findIndex t (key_hash key) = Inr (int i, t1)" "i < length es"
    "ent_keyHash (es ! i) = key_hash key" "list_inv t1 es" "list_currentIndex t1 = i"
    using findIndex_hit [OF inv True] by blast
  then obtain t2 where "list_removeValue t1 i = Inr (Some (es ! i), t2)"
    "list_inv t2 (take i es @ drop (Suc i) es)"
    using inv_remove [of t1 es i] by auto
  then show ?thesis using i rep entries_map_get [OF d i(2)] list_remove_distinct_hash [OF d i(2)]
    by (simp add: hash_table_removeValue_def hash_key [OF ok] ht_rep_def distinct_map_filter list_all_iff)
next
  case False
  then have "filter (\<lambda>e. ent_keyHash e \<noteq> key_hash key) es = es"
    by (metis (mono_tags, lifting) filter_True image_eqI)
  then show ?thesis
    using findIndex_miss [of t es "key_hash key"] rep False entries_map_miss [OF False]
    by (auto simp: hash_table_removeValue_def hash_key [OF ok] ht_rep_def)
qed

lemma entries_set_ok:
  assumes "distinct (map ent_keyHash es)" and "list_all ent_ok es" and "key_ok key"
  shows "distinct (map ent_keyHash (entries_set es key v))" and "list_all ent_ok (entries_set es key v)"
proof -
  have m: "map ent_keyHash (map (\<lambda>e. if ent_keyHash e = key_hash key
      then e\<lparr>ent_value := v, ent_key := key\<rparr> else e) es) = map ent_keyHash es"
    by simp
  show "distinct (map ent_keyHash (entries_set es key v))"
    using assms(1) by (auto simp: entries_set_def m simp del: map_map)
  show "list_all ent_ok (entries_set es key v)"
    using assms(2,3) by (auto simp: entries_set_def list_all_iff ent_ok_def)
qed

lemma ht_rep_set:
  assumes rep: "ht_rep t es" and ok: "key_ok key"
  shows "\<exists>t'. hash_table_setValue t key v = Inr (Option.bind (entries_map es (key_hash key)) id, t')
           \<and> ht_rep t' (entries_set es key v)"
proof -
  from rep have inv: "list_inv t es" and d: "distinct (map ent_keyHash es)"
    and a: "list_all ent_ok es" by (simp_all add: ht_rep_def)
  note wf = entries_set_ok [OF d a ok, of v]
  show ?thesis
  proof (cases "key_hash key \<in> ent_keyHash ` set es")
    case True
    obtain i t1 where i: "hash_table_findIndex t (key_hash key) = Inr (int i, t1)" "i < length es"
      "ent_keyHash (es ! i) = key_hash key" "list_inv t1 es" "list_currentIndex t1 = i"
      using findIndex_hit [OF inv True] by blast
    then obtain t2 where t2: "list_getValue t1 i = Inr (Some (es ! i), t2)" "list_inv t2 es"
      "list_currentIndex t2 = i" using inv_get [of t1 es i] by auto
    let ?e = "(es ! i)\<lparr>ent_value := v, ent_key := key\<rparr>"
    obtain t3 where t3: "list_setValue t2 i ?e = Inr (Some (es ! i), t3)" "list_inv t3 (es[i := ?e])"
      using inv_set [OF t2(2) i(2), of ?e] t2(3) by auto
    have "es[i := ?e] = entries_set es key v"
      using list_update_distinct_hash [OF d i(2), of "\<lambda>e. e\<lparr>ent_value := v, ent_key := key\<rparr>"] i(3) True
      by (simp add: entries_set_def)
    with t3 i t2 wf entries_map_get [OF d i(2)] show ?thesis
      by (simp add: hash_table_setValue_def hash_key [OF ok] ht_rep_def)
  next
    case False
    let ?e = "\<lparr>ent_keyHash = key_hash key, ent_key = key, ent_value = v\<rparr>"
    obtain t1 where t1: "hash_table_findIndex t (key_hash key) = Inr (-1, t1)" "list_inv t1 es"
      using findIndex_miss [OF inv False] by blast
    obtain t2 where "list_addValue t1 ?e = Inr t2" "list_inv t2 (es @ [?e])"
      using inv_add [OF t1(2)] by blast
    with t1 wf False entries_map_miss [OF False] show ?thesis
      by (simp add: hash_table_setValue_def hash_key [OF ok] ht_rep_def entries_set_def del: entries_map_None)
  qed
qed


lemma ht_clear_loop:
  "list_inv t es \<Longrightarrow> length es \<le> n \<Longrightarrow> \<exists>t'. hash_table_clear_loop n t = Inr t' \<and> list_inv t' []"
proof (induction n arbitrary: t es)
  case (Suc n)
  show ?case
  proof (cases es)
    case Nil
    then show ?thesis using Suc.prems(1) list_inv_length [OF Suc.prems(1)] by simp
  next
    case (Cons e fs)
    obtain t1 where "list_removeValue t 0 = Inr (Some e, t1)" "list_inv t1 fs"
      using inv_remove_0 [of t e fs] Suc.prems(1) unfolding Cons by blast
    moreover have "0 < list_length t" using list_inv_length [OF Suc.prems(1)] Cons by simp
    ultimately have "hash_table_clear_loop (Suc n) t = hash_table_clear_loop n t1"
      by (simp only: hash_table_clear_loop.simps bnd_Inr deref_Some string_free_Some prod.case if_True)
    then show ?thesis using Suc.IH [of t1 fs] \<open>list_inv t1 fs\<close> Suc.prems(2) Cons by auto
  qed
qed simp

lemma ht_rep_clear: "ht_rep t es \<Longrightarrow> \<exists>t'. hash_table_clear t = Inr t' \<and> ht_rep t' []"
  using ht_clear_loop [of t es "length es"] list_inv_length [of t es]
  by (simp add: hash_table_clear_def ht_rep_def)

lemma ht_rep_free: "ht_rep t es \<Longrightarrow> hash_table_free t = Inr Map.empty"
proof -
  assume "ht_rep t es"
  then obtain t1 where t1: "hash_table_clear t = Inr t1" "list_inv t1 []"
    using ht_rep_clear by (force simp: ht_rep_def)
  moreover obtain t2 where "list_clear t1 = Inr t2" "list_inv t2 []"
    using inv_clear [OF t1(2)] by blast
  ultimately show ?thesis by (simp add: hash_table_free_def list_free_def inv_empty_nodes)
qed

interpretation entry_access: sequential_access ht_rep list_currentIndex hash_table_getEntryByIndex
proof
  fix t :: "'v hash_table_t" and es
  assume "ht_rep t es" "es \<noteq> []"
  then show "\<exists>t'. hash_table_getEntryByIndex t 0 = Inr (Some (es ! 0), t') \<and> ht_rep t' es
      \<and> list_currentIndex t' = 0"
    using list_access.get_first [of t es]
    by (auto simp: ht_rep_def hash_table_getEntryByIndex_def list_getLength_def list_inv_length)
next
  fix t :: "'v hash_table_t" and es i
  assume "ht_rep t es" "list_currentIndex t = i" "Suc i < length es"
  then show "\<exists>t'. hash_table_getEntryByIndex t (Suc i) = Inr (Some (es ! Suc i), t') \<and> ht_rep t' es
      \<and> list_currentIndex t' = Suc i"
    using list_access.get_next [of t es i]
    by (auto simp: ht_rep_def hash_table_getEntryByIndex_def list_getLength_def list_inv_length)
qed

section \<open>The contract of a keyed store\<close>

text \<open>
  A store from keys to values, seen through the hash of the key: what an operation returns and
  how it changes the map. Null values can be stored, and a lookup that finds one cannot be told
  from a lookup that finds nothing.
\<close>

fun set_all ::
  "('t \<Rightarrow> 'k \<Rightarrow> 'v option \<Rightarrow> ('v option \<times> 't) exec) \<Rightarrow> 't \<Rightarrow> ('k \<times> 'v option) list \<Rightarrow> 't exec" where
  "set_all put t [] = Inr t"
| "set_all put t ((k, v) # kvs) = bnd (put t k v) (\<lambda>(_, t1). set_all put t1 kvs)"

locale keyed_store =
  fixes inv :: "'t \<Rightarrow> ('h \<Rightarrow> 'v option option) \<Rightarrow> bool"
    and valid :: "'k \<Rightarrow> bool"
    and hash :: "'k \<Rightarrow> 'h"
    and put :: "'t \<Rightarrow> 'k \<Rightarrow> 'v option \<Rightarrow> ('v option \<times> 't) exec"
    and get :: "'t \<Rightarrow> 'k \<Rightarrow> ('v option \<times> 't) exec"
    and remove :: "'t \<Rightarrow> 'k \<Rightarrow> ('v option \<times> 't) exec"
  assumes put_law: "inv t m \<Longrightarrow> valid k \<Longrightarrow>
      \<exists>t'. put t k v = Inr (Option.bind (m (hash k)) id, t') \<and> inv t' (m(hash k \<mapsto> v))"
    and get_law: "inv t m \<Longrightarrow> valid k \<Longrightarrow>
      \<exists>t'. get t k = Inr (Option.bind (m (hash k)) id, t') \<and> inv t' m"
    and remove_law: "inv t m \<Longrightarrow> valid k \<Longrightarrow>
      \<exists>t'. remove t k = Inr (Option.bind (m (hash k)) id, t') \<and> inv t' (m(hash k := None))"
begin

lemma set_all_inv:
  "inv t m \<Longrightarrow> list_all (\<lambda>(k, v). valid k) kvs \<Longrightarrow>
   \<exists>t'. set_all put t kvs = Inr t' \<and> inv t' (m ++ map_of (rev (map (\<lambda>(k, v). (hash k, v)) kvs)))"
proof (induction kvs arbitrary: t m)
  case (Cons kv kvs)
  obtain k v where kv: "kv = (k, v)" by (cases kv)
  obtain t1 where t1: "put t k v = Inr (Option.bind (m (hash k)) id, t1)" "inv t1 (m(hash k \<mapsto> v))"
    using put_law Cons.prems kv by fastforce
  moreover have "m(hash k \<mapsto> v) ++ map_of (rev (map (\<lambda>(k, v). (hash k, v)) kvs))
      = m ++ map_of (rev (map (\<lambda>(k, v). (hash k, v)) (kv # kvs)))"
    by (simp add: kv)
  moreover have "set_all put t (kv # kvs) = set_all put t1 kvs" using t1(1) kv by simp
  ultimately show ?case using Cons.IH [OF t1(2)] Cons.prems(2) by (metis list.pred_inject(2))
qed simp

lemma get_last_put:
  assumes "inv t m" and "list_all (\<lambda>(k, v). valid k) kvs" and "valid k"
  shows "\<exists>t' t''. set_all put t kvs = Inr t' \<and> get t' k =
     Inr (Option.bind ((m ++ map_of (rev (map (\<lambda>(k, v). (hash k, v)) kvs))) (hash k)) id, t'')"
  using set_all_inv [OF assms(1,2)] get_law assms(3) by blast

lemma get_after_remove:
  assumes "inv t m" and "valid k" and "valid k'"
  shows "\<exists>v t' t''. remove t k = Inr (v, t') \<and> get t' k' =
     Inr (if hash k' = hash k then None else Option.bind (m (hash k')) id, t'')"
proof -
  obtain t' where t': "remove t k = Inr (Option.bind (m (hash k)) id, t')" "inv t' (m(hash k := None))"
    using remove_law assms(1,2) by blast
  obtain t'' where "get t' k' = Inr (Option.bind ((m(hash k := None)) (hash k')) id, t'')"
    using get_law [OF t'(2) assms(3)] by blast
  with t'(1) show ?thesis by auto
qed

end

lemma entries_map_append:
  "entries_map (es @ fs) = entries_map fs ++ entries_map es"
  by (simp add: entries_map_def)

lemma entries_map_set:
  "entries_map (entries_set es key v) = (entries_map es)(key_hash key \<mapsto> v)"
proof (cases "key_hash key \<in> ent_keyHash ` set es")
  case True
  have "entries_map (map (\<lambda>e. if ent_keyHash e = key_hash key
      then e\<lparr>ent_value := v, ent_key := key\<rparr> else e) es) h
      = (if h = key_hash key \<and> h \<in> ent_keyHash ` set es then Some v else entries_map es h)" for h
    by (induction es) (auto simp: entries_map_def)
  with True show ?thesis by (auto simp: entries_set_def)
next
  case False
  have "entries_map es (key_hash key) = None" using False by simp
  then show ?thesis using False
    by (auto simp: entries_set_def entries_map_append map_add_def fun_eq_iff entries_map_def split: option.splits)
qed

lemma entries_map_filter:
  "entries_map (filter (\<lambda>e. ent_keyHash e \<noteq> h) es) = (entries_map es)(h := None)"
  by (induction es) (auto simp: entries_map_def fun_eq_iff)

interpretation table: keyed_store ht_inv key_ok key_hash hash_table_setValue hash_table_getValue
  hash_table_removeValue
proof
  fix t :: "'v hash_table_t" and m k and v :: "'v option"
  assume "ht_inv t m" and ok: "key_ok k"
  then obtain es where es: "ht_rep t es" "m = entries_map es" by (auto simp: ht_inv_def)
  show "\<exists>t'. hash_table_setValue t k v = Inr (Option.bind (m (key_hash k)) id, t')
      \<and> ht_inv t' (m(key_hash k \<mapsto> v))"
    using ht_rep_set [OF es(1) ok, of v] es(2) by (auto simp: ht_inv_def entries_map_set [symmetric])
  show "\<exists>t'. hash_table_getValue t k = Inr (Option.bind (m (key_hash k)) id, t') \<and> ht_inv t' m"
    using ht_rep_get [OF es(1) ok] es(2) by (auto simp: ht_inv_def)
  show "\<exists>t'. hash_table_removeValue t k = Inr (Option.bind (m (key_hash k)) id, t')
      \<and> ht_inv t' (m(key_hash k := None))"
    using ht_rep_remove [OF es(1) ok] es(2) by (auto simp: ht_inv_def entries_map_filter [symmetric])
qed


lemma ht_inv_create: "ht_inv hash_table_create Map.empty"
  unfolding ht_inv_def using ht_rep_create by (intro exI [of _ "[]"]) (simp add: entries_map_def)

section \<open>Properties\<close>

text \<open>C40. The table-driven hash of a null-terminated buffer is the CRC-32 of the bytes before the
  terminator, computed bit by bit, whether the static lookup table is still all zero or has been
  filled by an earlier call; the call leaves the table filled.\<close>

theorem hash_is_crc32:
  assumes "NUL \<in> set b" and "tab = hashLookup_init \<or> tab = hashLookup_fill"
  shows "hash_table_hash_static tab (Some b) = Inr (crc32 (cstr b), hashLookup_fill)"
  using assms by (rule hash_static_eq)

theorem hash_is_crc32_witness:
  "hash_table_hash_static hashLookup_init (Some (lit ''123456789'')) = Inr (0xCBF43926, hashLookup_fill)"
proof -
  have "crc32 ''123456789'' = 0xCBF43926" by (simp add: crc32_def crc_byte_unfold crc_bit_alt)
  then show ?thesis
    using hash_is_crc32 [of "lit ''123456789''" hashLookup_init] by simp
qed

text \<open>C23. A fresh hash table into which any sequence of keys and values is written answers a lookup
  with the value last written under the hash of the key, and with null when there is none.\<close>

theorem hash_table_get_last_set:
  assumes "list_all (\<lambda>(k, v). key_ok k) kvs" and "key_ok k"
  shows "\<exists>t' t''. set_all hash_table_setValue hash_table_create kvs = Inr t'
    \<and> hash_table_getValue t' k
        = Inr (Option.bind (map_of (rev (map (\<lambda>(k, v). (key_hash k, v)) kvs)) (key_hash k)) id, t'')"
  using table.get_last_put [OF ht_inv_create assms] by simp

theorem hash_table_get_last_set_witness:
  "\<exists>t' t''. set_all hash_table_setValue hash_table_create [(str ''a'', Some (1::nat)), (str ''a'', Some 2)] = Inr t'
    \<and> hash_table_getValue t' (str ''a'') = Inr (Some 2, t'')"
  using hash_table_get_last_set [of "[(str ''a'', Some (1::nat)), (str ''a'', Some 2)]" "str ''a''"]
  by simp

text \<open>Removing a key makes exactly the keys with its hash disappear: lookups under any other hash
  are unchanged.\<close>

theorem hash_table_get_after_remove:
  assumes "ht_inv t m" and "key_ok k" and "key_ok k'"
  shows "\<exists>v t' t''. hash_table_removeValue t k = Inr (v, t')
    \<and> hash_table_getValue t' k'
        = Inr (if key_hash k' = key_hash k then None else Option.bind (m (key_hash k')) id, t'')"
  using table.get_after_remove [OF assms] .

theorem hash_table_get_after_remove_witness:
  "\<exists>v t' t''. hash_table_removeValue (hash_table_create :: nat hash_table_t) (str ''a'') = Inr (v, t')
    \<and> hash_table_getValue t' (str ''a'') = Inr (None, t'')"
  using hash_table_get_after_remove [OF ht_inv_create, of "str ''a''" "str ''a''"] by simp

text \<open>Entries can be read by index from 0 on, in the order of their first insertion, and freeing
  the table releases every node of its list.\<close>

theorem hash_table_iterates_in_order:
  assumes "ht_rep t es"
  shows "(\<exists>t'. read_seq hash_table_getEntryByIndex (hash_table_getLength t) 0 t = Inr (es, t') \<and> ht_rep t' es)
    \<and> hash_table_free t = Inr Map.empty"
  using entry_access.read_all [OF assms] ht_rep_length [OF assms] ht_rep_free [OF assms] by simp

theorem hash_table_iterates_in_order_witness:
  "\<exists>t' t'' :: nat hash_table_t. hash_table_setValue hash_table_create (str ''a'') None = Inr (None, t')
    \<and> read_seq hash_table_getEntryByIndex (hash_table_getLength t') 0 t'
        = Inr ([\<lparr>ent_keyHash = crc32 ''a'', ent_key = str ''a'', ent_value = None\<rparr>], t'')"
proof -
  obtain t' :: "nat hash_table_t" where
    t': "hash_table_setValue hash_table_create (str ''a'') None = Inr (None, t')"
    "ht_rep t' (entries_set [] (str ''a'') None)"
    using ht_rep_set [OF ht_rep_create, of "str ''a''" "None :: nat option"] by (auto simp: entries_map_def)
  then show ?thesis using hash_table_iterates_in_order [OF t'(2)]
    by (auto simp: entries_set_def key_hash_def)
qed

text \<open>Only hashes are compared, so two different keys with the same CRC-32 are one key: a value
  stored under \<^verbatim>\<open>plumless\<close> is returned for \<^verbatim>\<open>buckeroo\<close>.\<close>

theorem hash_table_collision:
  "\<exists>t' t''. set_all hash_table_setValue hash_table_create [(str ''plumless'', Some v)] = Inr t'
    \<and> hash_table_getValue t' (str ''buckeroo'') = Inr (Some v, t'')"
proof -
  have "key_hash (str ''plumless'') = key_hash (str ''buckeroo'')"
    by (simp add: key_hash_def crc32_def crc_byte_unfold crc_bit_alt)
  then show ?thesis
    using table.get_last_put [OF ht_inv_create, of "[(str ''plumless'', Some v)]" "str ''buckeroo''"]
    by simp
qed

end
