(* ===== verification/Url.thy ===== *)
theory Url
  imports Hash_Table
begin

text \<open>
  URLs as \<^verbatim>\<open>src/url/url.c\<close> keeps them: optional protocol, domain name and path, a 16-bit port and
  a hash table of parameters. The readers take a \<^verbatim>\<open>const url_t *\<close> but move the cursor of the
  parameter list, so they return the URL as well.
\<close>

section \<open>Data and operations\<close>

record url_t =
  url_protocol :: "string_t option"
  url_domainName :: "string_t option"
  url_port :: nat
  url_path :: "string_t option"
  url_parameters :: "string_t hash_table_t"

definition url_create :: url_t where
  "url_create = \<lparr>url_protocol = None, url_domainName = None, url_port = 0, url_path = None,
                 url_parameters = hash_table_create\<rparr>"

definition url_setProtocol :: "url_t \<Rightarrow> string_t option \<Rightarrow> url_t exec" where
  "url_setProtocol url protocol =
     bnd (if url_protocol url \<noteq> None then string_free (url_protocol url) else Inr ()) (\<lambda>_.
       Inr (url\<lparr>url_protocol := protocol\<rparr>))"

definition url_getProtocol :: "url_t \<Rightarrow> string_t option" where
  "url_getProtocol url = url_protocol url"

definition url_setDomainName :: "url_t \<Rightarrow> string_t option \<Rightarrow> url_t exec" where
  "url_setDomainName url domainName =
     bnd (if url_domainName url \<noteq> None then string_free (url_domainName url) else Inr ()) (\<lambda>_.
       Inr (url\<lparr>url_domainName := domainName\<rparr>))"

definition url_getDomainName :: "url_t \<Rightarrow> string_t option" where
  "url_getDomainName url = url_domainName url"

definition url_setPort :: "url_t \<Rightarrow> int \<Rightarrow> url_t" where
  "url_setPort url port = url\<lparr>url_port := to_u16 port\<rparr>"

definition url_getPort :: "url_t \<Rightarrow> nat" where
  "url_getPort url = url_port url"

definition url_setPath :: "url_t \<Rightarrow> string_t option \<Rightarrow> url_t exec" where
  "url_setPath url path =
     bnd (if url_path url \<noteq> None then string_free (url_path url) else Inr ()) (\<lambda>_.
       Inr (url\<lparr>url_path := path\<rparr>))"

definition url_getPath :: "url_t \<Rightarrow> string_t option" where
  "url_getPath url = url_path url"

definition url_setParameter :: "url_t \<Rightarrow> string_t \<Rightarrow> string_t option \<Rightarrow> url_t exec" where
  "url_setParameter url key value =
     bnd (hash_table_setValue (url_parameters url) key value) (\<lambda>(oldValue, t).
     bnd (if oldValue \<noteq> None then string_free oldValue else Inr ()) (\<lambda>_.
       Inr (url\<lparr>url_parameters := t\<rparr>)))"

definition url_getParameter :: "url_t \<Rightarrow> string_t \<Rightarrow> (string_t option \<times> url_t) exec" where
  "url_getParameter url key =
     bnd (hash_table_getValue (url_parameters url) key) (\<lambda>(v, t). Inr (v, url\<lparr>url_parameters := t\<rparr>))"

text \<open>The loop over the parameters of \<^verbatim>\<open>url_copy\<close>.\<close>

fun url_copy_parameters :: "nat \<Rightarrow> nat \<Rightarrow> string_t hash_table_t \<Rightarrow> url_t \<Rightarrow> (url_t \<times> string_t hash_table_t) exec" where
  "url_copy_parameters 0 i t newUrl = Inr (newUrl, t)"
| "url_copy_parameters (Suc rest) i t newUrl =
     bnd (hash_table_getKeyByIndex t i) (\<lambda>(key, t1).
     bnd (hash_table_getValueByIndex t1 i) (\<lambda>(value, t2).
     bnd (deref key) (\<lambda>k. bnd (string_copy k) (\<lambda>key'.
     bnd (deref value) (\<lambda>v. bnd (string_copy v) (\<lambda>value'.
     bnd (url_setParameter newUrl key' (Some value')) (\<lambda>newUrl1.
       url_copy_parameters rest (Suc i) t2 newUrl1)))))))"

definition copy_opt :: "string_t option \<Rightarrow> string_t option exec" where
  "copy_opt p = (case p of None \<Rightarrow> Inr None | Some s \<Rightarrow> bnd (string_copy s) (\<lambda>c. Inr (Some c)))"

definition url_copy :: "url_t \<Rightarrow> (url_t \<times> url_t) exec" where
  "url_copy url =
     bnd (copy_opt (url_protocol url)) (\<lambda>protocol.
     bnd (copy_opt (url_domainName url)) (\<lambda>domainName.
     bnd (copy_opt (url_path url)) (\<lambda>path.
       let newUrl = url_create\<lparr>url_protocol := protocol, url_domainName := domainName,
                               url_port := url_port url, url_path := path\<rparr>
       in bnd (url_copy_parameters (hash_table_getLength (url_parameters url)) 0 (url_parameters url) newUrl)
            (\<lambda>(newUrl', t). Inr (newUrl', url\<lparr>url_parameters := t\<rparr>)))))"

text \<open>The loop \<^verbatim>\<open>key=value&key=value\<close> shared by \<^verbatim>\<open>url_toString\<close> and \<^verbatim>\<open>url_toQueryString\<close>.\<close>

fun url_appendParameters ::
  "nat \<Rightarrow> nat \<Rightarrow> string_t hash_table_t \<Rightarrow> string_t \<Rightarrow> (string_t \<times> string_t hash_table_t) exec" where
  "url_appendParameters 0 i t result = Inr (result, t)"
| "url_appendParameters (Suc rest) i t result =
     bnd (hash_table_getKeyByIndex t i) (\<lambda>(key, t1).
     bnd (hash_table_getValueByIndex t1 i) (\<lambda>(value, t2).
     bnd (deref key) (\<lambda>k. bnd (string_append result k) (\<lambda>r1.
     bnd (string_appendChar r1 (CHR ''='')) (\<lambda>r2.
     bnd (deref value) (\<lambda>v. bnd (string_append r2 v) (\<lambda>r3.
     bnd (if 0 < rest then string_appendChar r3 (CHR ''&'') else Inr r3) (\<lambda>r4.
       url_appendParameters rest (Suc i) t2 r4))))))))"

definition append_opt :: "string_t \<Rightarrow> string_t option \<Rightarrow> string_t exec" where
  "append_opt result p = (case p of None \<Rightarrow> Inr result | Some s \<Rightarrow> string_append result s)"

definition url_toString :: "url_t \<Rightarrow> (string_t \<times> url_t) exec" where
  "url_toString url =
     (let result = string_create in
     bnd (if url_protocol url \<noteq> None
          then bnd (append_opt result (url_protocol url)) (\<lambda>r. string_appendBuffer r (lit ''://''))
          else Inr result) (\<lambda>r1.
     bnd (append_opt r1 (url_domainName url)) (\<lambda>r2.
     bnd (if url_port url \<noteq> 0 \<and> url_port url \<noteq> 80
          then bnd (string_fromInt (int (url_port url))) (\<lambda>port.
               bnd (string_appendChar r2 (CHR '':'')) (\<lambda>r. string_append r port))
          else Inr r2) (\<lambda>r3.
     bnd (append_opt r3 (url_path url)) (\<lambda>r4.
     (let parameters = hash_table_getLength (url_parameters url) in
     bnd (if parameters > 0 then string_appendChar r4 (CHR ''?'') else Inr r4) (\<lambda>r5.
     bnd (url_appendParameters parameters 0 (url_parameters url) r5) (\<lambda>(r6, t).
       Inr (r6, url\<lparr>url_parameters := t\<rparr>)))))))))"

definition url_toQueryString :: "url_t \<Rightarrow> (string_t \<times> url_t) exec" where
  "url_toQueryString url =
     bnd (url_appendParameters (hash_table_getLength (url_parameters url)) 0 (url_parameters url) string_create)
       (\<lambda>(result, t). Inr (result, url\<lparr>url_parameters := t\<rparr>))"

fun url_free_parameters :: "nat \<Rightarrow> string_t hash_table_t \<Rightarrow> string_t hash_table_t exec" where
  "url_free_parameters 0 t = Inr t"
| "url_free_parameters (Suc n) t =
     (if hash_table_getLength t > 0
      then bnd (hash_table_getKeyByIndex t 0) (\<lambda>(key, t1).
           bnd (deref key) (\<lambda>k.
           bnd (hash_table_removeValue t1 k) (\<lambda>(value, t2).
           bnd (string_free value) (\<lambda>_. url_free_parameters n t2))))
      else Inr t)"

definition free_opt :: "string_t option \<Rightarrow> unit exec" where
  "free_opt p = (if p \<noteq> None then string_free p else Inr ())"

definition url_free :: "url_t \<Rightarrow> (nat \<Rightarrow> string_t hash_table_entry_t list_node_t option) exec" where
  "url_free url =
     bnd (free_opt (url_protocol url)) (\<lambda>_.
     bnd (free_opt (url_domainName url)) (\<lambda>_.
     bnd (free_opt (url_path url)) (\<lambda>_.
     bnd (url_free_parameters (hash_table_getLength (url_parameters url)) (url_parameters url)) hash_table_free)))"

section \<open>Well-formed URLs and their text\<close>

definition param_ok :: "string_t hash_table_entry_t \<Rightarrow> bool" where
  "param_ok e \<longleftrightarrow> is_text (ent_key e) \<and> (case ent_value e of None \<Rightarrow> False | Some v \<Rightarrow> is_text v)"

definition opt_ok :: "string_t option \<Rightarrow> bool" where
  "opt_ok p = (case p of None \<Rightarrow> True | Some s \<Rightarrow> is_text s)"

definition url_wf :: "url_t \<Rightarrow> string_t hash_table_entry_t list \<Rightarrow> bool" where
  "url_wf u es \<longleftrightarrow> opt_ok (url_protocol u) \<and> opt_ok (url_domainName u) \<and> opt_ok (url_path u)
     \<and> url_port u < 65536 \<and> ht_rep (url_parameters u) es \<and> list_all param_ok es"

definition param_text :: "string_t hash_table_entry_t \<Rightarrow> string" where
  "param_text e = content (ent_key e) @ ''='' @ content (the (ent_value e))"

fun query_text :: "string_t hash_table_entry_t list \<Rightarrow> string" where
  "query_text [] = []"
| "query_text [e] = param_text e"
| "query_text (e # f # es) = param_text e @ ''&'' @ query_text (f # es)"

definition opt_text :: "string_t option \<Rightarrow> string" where
  "opt_text p = (case p of None \<Rightarrow> [] | Some s \<Rightarrow> content s)"

definition url_text :: "url_t \<Rightarrow> string_t hash_table_entry_t list \<Rightarrow> string" where
  "url_text u es =
     (if url_protocol u = None then [] else opt_text (url_protocol u) @ ''://'')
     @ opt_text (url_domainName u)
     @ (if url_port u \<noteq> 0 \<and> url_port u \<noteq> 80 then '':'' @ dec (url_port u) else [])
     @ opt_text (url_path u)
     @ (if es = [] then [] else ''?'' @ query_text es)"

section \<open>Reading the parameters\<close>

lemma entry_at:
  assumes rep: "ht_rep t es" and i: "i < length es"
    and cur: "i = 0 \<or> list_currentIndex t = i - 1 \<or> list_currentIndex t = i"
  shows "\<exists>t'. hash_table_getEntryByIndex t i = Inr (Some (es ! i), t') \<and> ht_rep t' es
           \<and> list_currentIndex t' = i"
proof -
  have inv: "list_inv t es" using rep by (simp add: ht_rep_def)
  have "move_safe (length es) (list_currentIndex t) i" using i cur by (cases i) (auto simp: move_safe_def)
  from inv_get [OF inv i this] rep i show ?thesis
    by (auto simp: hash_table_getEntryByIndex_def list_getLength_def list_inv_length [OF inv] ht_rep_def)
qed

lemma param_at:
  assumes "ht_rep t es" and "i < length es" and "i = 0 \<or> list_currentIndex t = i - 1"
  shows "\<exists>t1 t2. hash_table_getKeyByIndex t i = Inr (Some (ent_key (es ! i)), t1)
    \<and> hash_table_getValueByIndex t1 i = Inr (ent_value (es ! i), t2)
    \<and> ht_rep t2 es \<and> list_currentIndex t2 = i"
proof -
  obtain t1 where t1: "hash_table_getEntryByIndex t i = Inr (Some (es ! i), t1)" "ht_rep t1 es"
    "list_currentIndex t1 = i" using entry_at [OF assms(1,2)] assms(3) by blast
  obtain t2 where "hash_table_getEntryByIndex t1 i = Inr (Some (es ! i), t2)" "ht_rep t2 es"
    "list_currentIndex t2 = i" using entry_at [OF t1(2) assms(2)] t1(3) by blast
  with t1 show ?thesis
    by (simp add: hash_table_getKeyByIndex_def hash_table_getValueByIndex_def)
qed

lemma query_text_drop:
  "i < length es \<Longrightarrow> query_text (drop i es) = param_text (es ! i)
     @ (if Suc i < length es then ''&'' @ query_text (drop (Suc i) es) else [])"
  using drop_eq_Nil [of "Suc i" es]
  by (cases "drop (Suc i) es") (auto simp: Cons_nth_drop_Suc [symmetric])

lemma appendParameters_accum:
  assumes "ht_rep t es" and "list_all param_ok es" and "i + rest = length es"
    and "i = 0 \<or> list_currentIndex t = i - 1"
  shows "\<exists>t'. url_appendParameters rest i t (accum a)
      = Inr (accum (if rest = 0 then a else accs a (query_text (drop i es))), t') \<and> ht_rep t' es"
  using assms
proof (induction rest arbitrary: i t a)
  case (Suc rest)
  then have i: "i < length es" by simp
  obtain t1 t2 where t: "hash_table_getKeyByIndex t i = Inr (Some (ent_key (es ! i)), t1)"
    "hash_table_getValueByIndex t1 i = Inr (ent_value (es ! i), t2)"
    "ht_rep t2 es" "list_currentIndex t2 = i"
    using param_at [OF Suc.prems(1) i Suc.prems(4)] by blast
  have "param_ok (es ! i)" using Suc.prems(2) i by (simp add: list_all_length)
  then obtain v where k: "is_text (ent_key (es ! i))" and v: "ent_value (es ! i) = Some v" "is_text v"
    by (auto simp: param_ok_def split: option.splits)
  let ?a = "accs a (param_text (es ! i) @ (if 0 < rest then ''&'' else []))"
  have step: "url_appendParameters (Suc rest) i t (accum a) = url_appendParameters rest (Suc i) t2 (accum ?a)"
    using t(1,2) k v by (cases "0 < rest") (simp_all add: str_simps param_text_def)
  obtain t' where "url_appendParameters rest (Suc i) t2 (accum ?a)
      = Inr (accum (if rest = 0 then ?a else accs ?a (query_text (drop (Suc i) es))), t')" "ht_rep t' es"
    using Suc.IH [OF t(3) Suc.prems(2), of "Suc i" ?a] Suc.prems(3) t(4) by auto
  then show ?case
    unfolding step using Suc.prems(3) query_text_drop [OF i] by (cases "rest = 0") auto
qed auto

lemma distinct_map_nth_take:
  assumes "distinct (map f xs)" and "i < length xs"
  shows "f (xs ! i) \<notin> f ` set (take i xs)"
proof
  assume "f (xs ! i) \<in> f ` set (take i xs)"
  then obtain j where "j < i" "f (xs ! j) = f (xs ! i)" by (auto simp: in_set_conv_nth)
  with assms nth_eq_iff_index_eq [OF assms(1), of j i] show False by simp
qed

lemma copy_parameters:
  assumes "ht_rep t es" and "list_all param_ok es" and "i + rest = length es"
    and "i = 0 \<or> list_currentIndex t = i - 1"
    and "ht_rep (url_parameters u) fs" and "map ent_keyHash fs = map ent_keyHash (take i es)"
    and "map param_text fs = map param_text (take i es)" and "list_all param_ok fs"
  shows "\<exists>u' t' gs. url_copy_parameters rest i t u = Inr (u', t') \<and> ht_rep t' es
    \<and> u' = u\<lparr>url_parameters := url_parameters u'\<rparr> \<and> ht_rep (url_parameters u') gs
    \<and> map param_text gs = map param_text es \<and> list_all param_ok gs"
  using assms
proof (induction rest arbitrary: i t u fs)
  case 0
  then show ?case by (intro exI [of _ u] exI [of _ t] exI [of _ fs]) simp
next
  case (Suc rest)
  then have i: "i < length es" by simp
  obtain t1 t2 where t: "hash_table_getKeyByIndex t i = Inr (Some (ent_key (es ! i)), t1)"
    "hash_table_getValueByIndex t1 i = Inr (ent_value (es ! i), t2)"
    "ht_rep t2 es" "list_currentIndex t2 = i"
    using param_at [OF Suc.prems(1) i Suc.prems(4)] by blast
  have "param_ok (es ! i)" using Suc.prems(2) i by (simp add: list_all_length)
  then obtain v where k: "is_text (ent_key (es ! i))" and v: "ent_value (es ! i) = Some v" "is_text v"
    by (auto simp: param_ok_def split: option.splits)
  let ?key = "str (content (ent_key (es ! i)))" and ?v = "Some (str (content v))"
  have key: "key_ok ?key" "NUL \<notin> set (content (ent_key (es ! i)))" using k by (auto elim!: is_textE)
  have hash: "key_hash ?key = ent_keyHash (es ! i)"
    using Suc.prems(1) i k key(2) by (simp add: ht_rep_def list_all_length ent_ok_def key_hash_def)
  have d: "distinct (map ent_keyHash es)" using Suc.prems(1) by (simp add: ht_rep_def)
  then have "ent_keyHash (es ! i) \<notin> ent_keyHash ` set (take i es)"
    using distinct_map_nth_take i by blast
  then have new: "key_hash ?key \<notin> ent_keyHash ` set fs"
    using Suc.prems(6) hash by (metis list.set_map)
  let ?e = "\<lparr>ent_keyHash = key_hash ?key, ent_key = ?key, ent_value = ?v\<rparr>"
  obtain p where p: "hash_table_setValue (url_parameters u) ?key ?v = Inr (None, p)" "ht_rep p (fs @ [?e])"
    using ht_rep_set [OF Suc.prems(5) key(1), of ?v] new entries_map_miss [OF new]
    by (auto simp: entries_set_def)
  have step: "url_copy_parameters (Suc rest) i t u
      = url_copy_parameters rest (Suc i) t2 (u\<lparr>url_parameters := p\<rparr>)"
    using t(1,2) k v p(1) by (simp add: str_simps url_setParameter_def)
  have "param_ok ?e" and "param_text ?e = param_text (es ! i)"
    using k v by (auto simp: param_ok_def param_text_def elim!: is_textE)
  then show ?case
    unfolding step
    using Suc.IH [OF t(3) Suc.prems(2), of "Suc i" "u\<lparr>url_parameters := p\<rparr>" "fs @ [?e]"]
      Suc.prems(3,6,7,8) t(4) p(2) hash i
    by (simp add: take_Suc_conv_app_nth)
qed


lemma copy_opt_ok:
  "opt_ok p \<Longrightarrow> \<exists>q. copy_opt p = Inr q \<and> opt_ok q \<and> opt_text q = opt_text p \<and> (q = None \<longleftrightarrow> p = None)"
  by (cases p) (auto simp: copy_opt_def opt_ok_def opt_text_def str_simps elim!: is_textE)

lemma free_opt_Inr [simp]: "free_opt p = Inr ()"
  by (cases p) (auto simp: free_opt_def)

lemma query_text_cong: "map param_text es = map param_text fs \<Longrightarrow> query_text es = query_text fs"
proof (induction es arbitrary: fs rule: query_text.induct)
  case (3 e f es)
  then show ?case by (cases fs; cases "tl fs") auto
qed auto

lemma append_opt_accum:
  "opt_ok p \<Longrightarrow> append_opt (accum a) p
     = Inr (accum (if p = None then a else accs a (opt_text p)))"
  by (cases p) (simp_all add: append_opt_def opt_ok_def opt_text_def str_simps)

lemma url_fromInt: "n < 65536 \<Longrightarrow> string_fromInt (int n) = Inr (str (dec n))"
  by (simp add: string_fromInt_eq dec_int_def)

lemma port_accum:
  "n < 65536 \<Longrightarrow> bnd (string_fromInt (int n)) (\<lambda>port.
     bnd (string_appendChar (accum a) (CHR '':'')) (\<lambda>r. string_append r port))
   = Inr (accum (accs a ('':'' @ dec n)))"
  by (simp add: url_fromInt str_simps dec_int_def)

lemma toString_wf:
  assumes "url_wf u es"
  shows "\<exists>u' a. url_toString u = Inr (accum a, u') \<and> acc_text a = url_text u es
     \<and> url_wf u' es \<and> url_text u' es = url_text u es"
proof -
  from assms have ok: "opt_ok (url_protocol u)" "opt_ok (url_domainName u)" "opt_ok (url_path u)"
    "url_port u < 65536" and rep: "ht_rep (url_parameters u) es" and ps: "list_all param_ok es"
    by (simp_all add: url_wf_def)
  let ?n = "length es"
  have par: "\<exists>t'. url_appendParameters ?n 0 (url_parameters u) (accum a)
      = Inr (accum (if ?n = 0 then a else accs a (query_text es)), t') \<and> ht_rep t' es" for a
    using appendParameters_accum [OF rep ps, of 0 ?n a] unfolding drop_0 by (simp only: add_0 simp_thms)
  let ?a1 = "if url_protocol u = None then None else accs None (opt_text (url_protocol u) @ ''://'')"
  let ?a2 = "if url_domainName u = None then ?a1 else accs ?a1 (opt_text (url_domainName u))"
  let ?a3 = "if url_port u \<noteq> 0 \<and> url_port u \<noteq> 80 then accs ?a2 ('':'' @ dec (url_port u)) else ?a2"
  let ?a4 = "if url_path u = None then ?a3 else accs ?a3 (opt_text (url_path u))"
  let ?a5 = "if ?n = 0 then ?a4 else accs ?a4 ''?''"
  let ?a6 = "if ?n = 0 then ?a5 else accs ?a5 (query_text es)"
  obtain t' where t': "url_appendParameters ?n 0 (url_parameters u) (accum ?a5) = Inr (accum ?a6, t')"
    "ht_rep t' es" using par by blast
  have r1: "(if url_protocol u \<noteq> None
          then bnd (append_opt string_create (url_protocol u)) (\<lambda>r. string_appendBuffer r (lit ''://''))
          else Inr string_create) = Inr (accum ?a1)"
    using append_opt_accum [OF ok(1), of None] by (auto simp: accum_simps(1) str_simps)
  have r3: "(if url_port u \<noteq> 0 \<and> url_port u \<noteq> 80
          then bnd (string_fromInt (int (url_port u))) (\<lambda>port.
               bnd (string_appendChar (accum ?a2) (CHR '':'')) (\<lambda>r. string_append r port))
          else Inr (accum ?a2)) = Inr (accum ?a3)"
    by (simp only: port_accum [OF ok(4)] if_distrib [of accum, symmetric] split: if_splits) simp
  have r5: "(if ?n > 0 then string_appendChar (accum ?a4) (CHR ''?'') else Inr (accum ?a4)) = Inr (accum ?a5)"
    by (simp add: str_simps)
  have "url_toString u = Inr (accum ?a6, u\<lparr>url_parameters := t'\<rparr>)"
    unfolding url_toString_def Let_def ht_rep_length [OF rep] r1 bnd_Inr append_opt_accum [OF ok(2)] r3
      append_opt_accum [OF ok(3)] r5 t'(1) prod.case ..
  moreover have "acc_text ?a6 = url_text u es"
    by (auto simp: url_text_def opt_text_def)
  moreover have "url_wf (u\<lparr>url_parameters := t'\<rparr>) es" using assms t'(2) by (simp add: url_wf_def)
  moreover have "url_text (u\<lparr>url_parameters := t'\<rparr>) es = url_text u es" by (simp add: url_text_def)
  ultimately show ?thesis by blast
qed


lemma url_copy_wf:
  assumes "url_wf u es"
  shows "\<exists>v u' fs. url_copy u = Inr (v, u') \<and> url_wf u' es \<and> url_wf v fs \<and> url_text v fs = url_text u es"
proof -
  from assms have ok: "opt_ok (url_protocol u)" "opt_ok (url_domainName u)" "opt_ok (url_path u)"
    "url_port u < 65536" and rep: "ht_rep (url_parameters u) es" and ps: "list_all param_ok es"
    by (simp_all add: url_wf_def)
  obtain p d q where c: "copy_opt (url_protocol u) = Inr p" "opt_ok p" "opt_text p = opt_text (url_protocol u)"
      "(p = None) = (url_protocol u = None)"
    "copy_opt (url_domainName u) = Inr d" "opt_ok d" "opt_text d = opt_text (url_domainName u)"
    "copy_opt (url_path u) = Inr q" "opt_ok q" "opt_text q = opt_text (url_path u)"
    using copy_opt_ok [OF ok(1)] copy_opt_ok [OF ok(2)] copy_opt_ok [OF ok(3)] by metis
  let ?u = "url_create\<lparr>url_protocol := p, url_domainName := d, url_port := url_port u, url_path := q\<rparr>"
  have "ht_rep (url_parameters ?u) []" by (simp add: url_create_def ht_rep_create)
  then obtain v t' gs where v: "url_copy_parameters (length es) 0 (url_parameters u) ?u = Inr (v, t')"
    "ht_rep t' es" "v = ?u\<lparr>url_parameters := url_parameters v\<rparr>" "ht_rep (url_parameters v) gs"
    "map param_text gs = map param_text es" "list_all param_ok gs"
    using copy_parameters [OF rep ps, of 0 "length es" ?u "[]"] by auto
  have f: "url_protocol v = p" "url_domainName v = d" "url_port v = url_port u" "url_path v = q"
    by (subst v(3), simp)+
  have "url_copy u = Inr (v, u\<lparr>url_parameters := t'\<rparr>)"
    using c(1,5,8) v(1) by (simp add: url_copy_def Let_def ht_rep_length [OF rep])
  moreover have "url_wf (u\<lparr>url_parameters := t'\<rparr>) es" using assms v(2) by (simp add: url_wf_def)
  moreover have "url_wf v gs" using f c ok(4) v(4,6) by (simp add: url_wf_def)
  moreover have "url_text v gs = url_text u es"
    using f c query_text_cong [OF v(5)] v(5) by (auto simp: url_text_def)
  ultimately show ?thesis by blast
qed

lemma free_parameters_wf:
  "ht_rep t es \<Longrightarrow> list_all param_ok es \<Longrightarrow> length es \<le> n \<Longrightarrow>
   \<exists>t'. url_free_parameters n t = Inr t' \<and> ht_rep t' []"
proof (induction n arbitrary: t es)
  case (Suc n)
  show ?case
  proof (cases es)
    case Nil
    then show ?thesis using Suc.prems(1) ht_rep_length [OF Suc.prems(1)] by auto
  next
    case (Cons e fs)
    obtain t1 where "hash_table_getEntryByIndex t 0 = Inr (Some e, t1)" and t1: "ht_rep t1 es"
      using entry_at [OF Suc.prems(1), of 0] Cons by auto
    then have key: "hash_table_getKeyByIndex t 0 = Inr (Some (ent_key e), t1)"
      by (simp add: hash_table_getKeyByIndex_def)
    have d: "distinct (map ent_keyHash es)" and e: "ent_ok e" "key_ok (ent_key e)"
      using Suc.prems(1) Cons by (auto simp: ht_rep_def ent_ok_def)
    from Suc.prems(2) Cons obtain v where v: "ent_value e = Some v"
      by (auto simp: param_ok_def split: option.splits)
    have "filter (\<lambda>e'. ent_keyHash e' \<noteq> ent_keyHash e) es = fs"
      using filter_middle [of ent_keyHash "[]" e fs] d Cons by simp
    moreover have "entries_map es (ent_keyHash e) = Some (Some v)"
      using entries_map_get [OF d, of 0] Cons v by simp
    ultimately obtain t2 where t2: "hash_table_removeValue t1 (ent_key e) = Inr (Some v, t2)" "ht_rep t2 fs"
      using ht_rep_remove [OF t1 e(2)] e(1) by (auto simp: ent_ok_def)
    have "0 < hash_table_getLength t" using ht_rep_length [OF Suc.prems(1)] Cons by simp
    then have "url_free_parameters (Suc n) t = url_free_parameters n t2"
      using key t2(1) by simp
    then show ?thesis using Suc.IH [OF t2(2)] Suc.prems(2,3) Cons by simp
  qed
qed auto

lemma url_wf_create: "url_wf url_create []"
  by (simp add: url_wf_def url_create_def opt_ok_def ht_rep_create)

lemma setParameter_frame: "url_setParameter u k v = Inr u' \<Longrightarrow> \<exists>t. u' = u\<lparr>url_parameters := t\<rparr>"
  by (auto simp: url_setParameter_def bnd_def split: sum.splits prod.splits)

lemma url_setParameter_wf:
  assumes "url_wf u es" and "is_text k" and "is_text v"
  shows "\<exists>u'. url_setParameter u k (Some v) = Inr u' \<and> url_wf u' (entries_set es k (Some v))"
proof -
  obtain t where t: "hash_table_setValue (url_parameters u) k (Some v)
      = Inr (Option.bind (entries_map es (key_hash k)) id, t)" "ht_rep t (entries_set es k (Some v))"
    using ht_rep_set [of "url_parameters u" es k "Some v"] assms by (auto simp: url_wf_def)
  have "list_all param_ok (entries_set es k (Some v))"
    using assms by (auto simp: url_wf_def entries_set_def list_all_iff param_ok_def)
  with t assms(1) show ?thesis
    by (cases "Option.bind (entries_map es (key_hash k)) id")
      (auto simp: url_setParameter_def url_wf_def)
qed


section \<open>Properties\<close>

text \<open>The text of a well-formed URL: protocol and \<^verbatim>\<open>://\<close>, domain name, the port unless it is 0
  or 80, the path, and a question mark followed by the parameters in insertion order, joined with
  ampersands.\<close>

theorem url_toString_text:
  assumes "url_wf u es"
  shows "\<exists>a u'. url_toString u = Inr (accum a, u') \<and> acc_text a = url_text u es"
  using toString_wf [OF assms] by blast

theorem url_toString_text_witness:
  "\<exists>u a u'. url_setParameter (url_create\<lparr>url_path := Some (str ''/p''), url_port := 8080\<rparr>) (str ''k'') (Some (str ''v'')) = Inr u
     \<and> url_toString u = Inr (accum a, u') \<and> acc_text a = '':8080/p?k=v''"
proof -
  let ?u = "url_create\<lparr>url_path := Some (str ''/p''), url_port := 8080\<rparr>"
  let ?es = "entries_set [] (str ''k'') (Some (str ''v''))"
  have "url_wf ?u []" using url_wf_create by (simp add: url_wf_def opt_ok_def)
  from url_setParameter_wf [OF this, of "str ''k''" "str ''v''"]
  obtain u where u: "url_setParameter ?u (str ''k'') (Some (str ''v'')) = Inr u" "url_wf u ?es"
    by auto
  obtain t where "u = ?u\<lparr>url_parameters := t\<rparr>" using setParameter_frame [OF u(1)] by blast
  then have f: "url_path u = Some (str ''/p'')" "url_port u = 8080" "url_protocol u = None"
    "url_domainName u = None" by (simp_all add: url_create_def)
  have "dec 8080 = ''8080''" by (simp add: dec.simps)
  then have "url_text u ?es = '':8080/p?k=v''"
    by (simp add: url_text_def f opt_text_def entries_set_def param_text_def)
  with url_toString_text [OF u(2)] u(1) show ?thesis by auto
qed

text \<open>Copying a well-formed URL succeeds and yields a well-formed URL with the same text;
  the original keeps its parameters.\<close>

theorem url_copy_same_text:
  assumes "url_wf u es"
  shows "\<exists>v u' fs a v'. url_copy u = Inr (v, u') \<and> url_wf u' es \<and> url_wf v fs
     \<and> url_toString v = Inr (accum a, v') \<and> acc_text a = url_text u es"
  using url_copy_wf [OF assms] toString_wf by metis

theorem url_copy_same_text_witness:
  "\<exists>v u' fs a v'. url_copy url_create = Inr (v, u') \<and> url_wf u' [] \<and> url_wf v fs
     \<and> url_toString v = Inr (accum a, v') \<and> acc_text a = []"
  using url_copy_same_text [OF url_wf_create]
  by (simp add: url_text_def url_create_def opt_text_def)

text \<open>A parameter that was set is returned by the next lookup of its key, and freeing a
  well-formed URL releases every parameter.\<close>

theorem url_parameter_roundtrip:
  assumes "url_wf u es" and "is_text k" and "is_text v"
  shows "\<exists>u' u''. url_setParameter u k (Some v) = Inr u' \<and> url_getParameter u' k = Inr (Some v, u'')
     \<and> url_free u' = Inr Map.empty"
proof -
  obtain u' where u': "url_setParameter u k (Some v) = Inr u'" "url_wf u' (entries_set es k (Some v))"
    using url_setParameter_wf [OF assms] by blast
  then have rep: "ht_rep (url_parameters u') (entries_set es k (Some v))"
    and ps: "list_all param_ok (entries_set es k (Some v))" by (simp_all add: url_wf_def)
  obtain u'' where "url_getParameter u' k = Inr (Some v, u'')"
    using ht_rep_get [OF rep, of k] assms(2) by (auto simp: url_getParameter_def entries_map_set)
  moreover have "url_free u' = Inr Map.empty"
    using free_parameters_wf [OF rep ps order_refl] ht_rep_free ht_rep_length [OF rep]
    by (auto simp: url_free_def)
  ultimately show ?thesis using u'(1) by blast
qed

theorem url_parameter_roundtrip_witness:
  "\<exists>u' u''. url_setParameter url_create (str ''k'') (Some (str ''v'')) = Inr u'
     \<and> url_getParameter u' (str ''k'') = Inr (Some (str ''v''), u'') \<and> url_free u' = Inr Map.empty"
  using url_parameter_roundtrip [OF url_wf_create, of "str ''k''" "str ''v''"] by simp

text \<open>A parameter can be set to the null pointer (as the request parser does for an empty
  value), but then printing, copying and freeing the URL dereference it.\<close>

theorem url_null_parameter_faults:
  assumes "is_text k"
  shows "\<exists>u. url_setParameter url_create k None = Inr u \<and> url_toString u = Inl NullPointer
     \<and> url_copy u = Inl NullPointer \<and> url_free u = Inl NullPointer"
proof -
  let ?e = "\<lparr>ent_keyHash = key_hash k, ent_key = k, ent_value = None\<rparr>"
  let ?u = "\<lambda>t. url_create\<lparr>url_parameters := t\<rparr>"
  obtain t :: "string_t hash_table_t"
    where t: "hash_table_setValue hash_table_create k None = Inr (None, t)" "ht_rep t [?e]"
    using ht_rep_set [OF ht_rep_create, of k "None :: string_t option"] assms
    by (auto simp: entries_set_def entries_map_def)
  obtain t1 t2 where g: "hash_table_getKeyByIndex t 0 = Inr (Some k, t1)"
    "hash_table_getValueByIndex t1 0 = Inr (None, t2)"
    using param_at [OF t(2), of 0] by auto
  have t1: "ht_rep t1 [?e]"
    using entry_at [OF t(2), of 0] g(1) by (auto simp: hash_table_getKeyByIndex_def)
  obtain t3 where r: "hash_table_removeValue t1 k = Inr (None, t3)"
    using ht_rep_remove [OF t1, of k] assms by (auto simp: entries_map_def)
  have n: "hash_table_getLength t = Suc 0" using ht_rep_length [OF t(2)] by simp
  have "url_setParameter url_create k None = Inr (?u t)"
    using t(1) by (simp add: url_setParameter_def url_create_def)
  moreover have "url_toString (?u t) = Inl NullPointer"
    using append_accum [OF assms, of "Some ''?''"] appendChar_accum [of "CHR ''?''" None]
    by (simp add: url_toString_def url_create_def append_opt_def n g accum_simps str_simps)
  moreover have "url_copy (?u t) = Inl NullPointer"
    using g n by (simp add: url_copy_def url_create_def copy_opt_def Let_def copy_is_text [OF assms])
  moreover have "url_free (?u t) = Inl NullPointer"
    using g n r by (simp add: url_free_def string_free_def)
  ultimately show ?thesis by blast
qed

theorem url_null_parameter_faults_witness:
  "\<exists>u. url_setParameter url_create (str ''a'') None = Inr u \<and> url_free u = Inl NullPointer"
  using url_null_parameter_faults [of "str ''a''"] by auto

end
