(* ===== verification/Http.thy ===== *)
theory Http
  imports Url Response_Codes
begin

text \<open>
  Requests and responses of \<^verbatim>\<open>src/http/http.c\<close>: the structure \<^verbatim>\<open>http_t\<close>, its setters, the parser
  of the request line, the request target, a header line and the host, and the text of a
  response. A parser returns its Boolean and the structure, which keeps what was parsed before a
  failure.
\<close>

section \<open>Data\<close>

datatype httpMethod =
    HTTP_METHOD_UNKNOWN | HTTP_METHOD_GET | HTTP_METHOD_PUT | HTTP_METHOD_POST
  | HTTP_METHOD_HEAD | HTTP_METHOD_OPTIONS

record http_t =
  http_method :: httpMethod
  http_version :: "string_t option"
  http_responseCode :: nat
  http_responseCodeText :: "string_t option"
  http_headers :: "string_t hash_table_t"
  http_body :: "string_t option"
  http_url :: "url_t option"

section \<open>Accessors\<close>

definition http_create :: http_t where
  "http_create = \<lparr>http_method = HTTP_METHOD_UNKNOWN, http_version = None, http_responseCode = 0,
     http_responseCodeText = None, http_headers = hash_table_create, http_body = None,
     http_url = None\<rparr>"

definition http_setMethod :: "http_t \<Rightarrow> httpMethod \<Rightarrow> http_t" where
  "http_setMethod http method = http\<lparr>http_method := method\<rparr>"

definition http_getMethod :: "http_t \<Rightarrow> httpMethod" where
  "http_getMethod http = http_method http"

definition http_setVersion :: "http_t \<Rightarrow> string_t option \<Rightarrow> http_t exec" where
  "http_setVersion http version =
     bnd (free_opt (http_version http)) (\<lambda>_. Inr (http\<lparr>http_version := version\<rparr>))"

definition http_getVersion :: "http_t \<Rightarrow> string_t option" where
  "http_getVersion http = http_version http"

definition http_setResponseCode :: "http_t \<Rightarrow> nat \<Rightarrow> http_t exec" where
  "http_setResponseCode http code =
     bnd (http_codeToString code) (\<lambda>t.
       Inr (http\<lparr>http_responseCode := code, http_responseCodeText := Some t\<rparr>))"

definition http_getResponseCode :: "http_t \<Rightarrow> nat" where
  "http_getResponseCode http = http_responseCode http"

definition http_setHeader :: "http_t \<Rightarrow> string_t \<Rightarrow> string_t option \<Rightarrow> http_t exec" where
  "http_setHeader http key value =
     bnd (hash_table_setValue (http_headers http) key value) (\<lambda>(oldValue, t).
     bnd (free_opt oldValue) (\<lambda>_. Inr (http\<lparr>http_headers := t\<rparr>)))"

definition http_getHeader :: "http_t \<Rightarrow> string_t \<Rightarrow> (string_t option \<times> http_t) exec" where
  "http_getHeader http key =
     bnd (hash_table_getValue (http_headers http) key) (\<lambda>(v, t). Inr (v, http\<lparr>http_headers := t\<rparr>))"

text \<open>The size, a \<^verbatim>\<open>size_t\<close>, is passed to \<^verbatim>\<open>string_fromInt\<close> as an \<^verbatim>\<open>int\<close>.\<close>

definition http_setBody :: "http_t \<Rightarrow> string_t option \<Rightarrow> http_t exec" where
  "http_setBody http body =
     bnd (free_opt (http_body http)) (\<lambda>_.
       let http1 = http\<lparr>http_body := body\<rparr> in
       case body of None \<Rightarrow> Inr http1
       | Some b \<Rightarrow>
           bnd (string_fromBuffer (lit ''Content-Length'')) (\<lambda>key.
           bnd (string_fromInt (to_int32 (int (string_getSize b)))) (\<lambda>value.
             http_setHeader http1 key (Some value))))"

definition http_getBody :: "http_t \<Rightarrow> string_t option" where
  "http_getBody http = http_body http"

definition http_getUrl :: "http_t \<Rightarrow> url_t option" where
  "http_getUrl http = http_url http"

section \<open>Responses\<close>

abbreviation CRLF :: string where "CRLF \<equiv> [CR, LF]"

fun http_appendHeaders ::
  "nat \<Rightarrow> nat \<Rightarrow> string_t hash_table_t \<Rightarrow> string_t \<Rightarrow> (string_t \<times> string_t hash_table_t) exec" where
  "http_appendHeaders 0 i t result = Inr (result, t)"
| "http_appendHeaders (Suc rest) i t result =
     bnd (hash_table_getKeyByIndex t i) (\<lambda>(key, t1).
     bnd (hash_table_getValueByIndex t1 i) (\<lambda>(value, t2).
     bnd (deref key) (\<lambda>k. bnd (string_append result k) (\<lambda>r1.
     bnd (string_appendBuffer r1 (lit '': '')) (\<lambda>r2.
     bnd (deref value) (\<lambda>v. bnd (string_append r2 v) (\<lambda>r3.
     bnd (string_appendBuffer r3 (lit CRLF)) (\<lambda>r4.
       http_appendHeaders rest (Suc i) t2 r4))))))))"

definition http_toResponseString :: "http_t \<Rightarrow> (string_t \<times> http_t) exec" where
  "http_toResponseString http =
     (let headers = hash_table_getLength (http_headers http);
          bodySize = (case http_body http of None \<Rightarrow> 0 | Some b \<Rightarrow> string_getSize b) in
     bnd (string_setBufferSize string_create (40 + headers * 40 + bodySize)) (\<lambda>r0.
     bnd (case http_version http of None \<Rightarrow> Inr r0
          | Some version \<Rightarrow>
              bnd (string_appendBuffer r0 (lit ''HTTP/'')) (\<lambda>r.
              bnd (string_append r version) (\<lambda>r. string_appendChar r SP))) (\<lambda>r1.
     bnd (string_fromInt (int (http_responseCode http))) (\<lambda>responseCode.
     bnd (string_append r1 responseCode) (\<lambda>r2.
     bnd (string_appendChar r2 SP) (\<lambda>r3.
     bnd (case http_responseCodeText http of None \<Rightarrow> Inr r3 | Some t \<Rightarrow> string_append r3 t) (\<lambda>r4.
     bnd (string_appendBuffer r4 (lit CRLF)) (\<lambda>r5.
     bnd (http_appendHeaders headers 0 (http_headers http) r5) (\<lambda>(r6, t).
     bnd (string_appendBuffer r6 (lit CRLF)) (\<lambda>r7.
     bnd (case http_body http of None \<Rightarrow> Inr r7 | Some b \<Rightarrow> string_append r7 b) (\<lambda>r8.
       Inr (r8, http\<lparr>http_headers := t\<rparr>))))))))))))"

section \<open>The parser\<close>

definition http_parseMethod :: "string_t \<Rightarrow> httpMethod exec" where
  "http_parseMethod method =
     bnd (string_equalsBuffer method (lit ''GET'')) (\<lambda>e. if e then Inr HTTP_METHOD_GET else
     bnd (string_equalsBuffer method (lit ''PUT'')) (\<lambda>e. if e then Inr HTTP_METHOD_PUT else
     bnd (string_equalsBuffer method (lit ''POST'')) (\<lambda>e. if e then Inr HTTP_METHOD_POST else
     bnd (string_equalsBuffer method (lit ''HEAD'')) (\<lambda>e. if e then Inr HTTP_METHOD_HEAD else
     bnd (string_equalsBuffer method (lit ''OPTIONS'')) (\<lambda>e. if e then Inr HTTP_METHOD_OPTIONS else
       Inr HTTP_METHOD_UNKNOWN)))))"

definition http_methodToString :: "httpMethod \<Rightarrow> string_t option exec" where
  "http_methodToString method =
     (case method of
        HTTP_METHOD_GET \<Rightarrow> bnd (string_fromBuffer (lit ''GET'')) (\<lambda>s. Inr (Some s))
      | HTTP_METHOD_PUT \<Rightarrow> bnd (string_fromBuffer (lit ''PUT'')) (\<lambda>s. Inr (Some s))
      | HTTP_METHOD_POST \<Rightarrow> bnd (string_fromBuffer (lit ''POST'')) (\<lambda>s. Inr (Some s))
      | HTTP_METHOD_HEAD \<Rightarrow> bnd (string_fromBuffer (lit ''HEAD'')) (\<lambda>s. Inr (Some s))
      | HTTP_METHOD_OPTIONS \<Rightarrow> bnd (string_fromBuffer (lit ''OPTIONS'')) (\<lambda>s. Inr (Some s))
      | HTTP_METHOD_UNKNOWN \<Rightarrow> Inr None)"

text \<open>The reading loops of \<^verbatim>\<open>http_parseRequestLine\<close>: append characters until the end of the text
  or, for the method and the target, a space; the character that ended the loop is returned.\<close>

function http_readWord :: "bool \<Rightarrow> string_cursor_t \<Rightarrow> string_t \<Rightarrow> (char \<times> string_cursor_t \<times> string_t) exec" where
  "http_readWord stopAtSpace cu temp =
     bnd (string_getNextChar cu) (\<lambda>(current, cu1).
       if current = NUL \<or> stopAtSpace \<and> current = SP then Inr (current, cu1, temp)
       else bnd (string_appendChar temp current) (\<lambda>temp1. http_readWord stopAtSpace cu1 temp1))"
  by pat_completeness auto
termination
  by (relation "measure (\<lambda>(_, cu, _). str_size (cur_string cu) - cur_offset cu)")
    (auto simp: string_getNextChar_def exec_simps split: if_splits)

declare http_readWord.simps [simp del]

lemma findNextChar_progress:
  "string_findNextChar cu needle = Inr (i, cu') \<Longrightarrow>
   cur_string cu' = cur_string cu \<and> cur_offset cu \<le> cur_offset cu'
   \<and> (i \<noteq> -1 \<longrightarrow> cur_offset cu < cur_offset cu' \<and> cur_offset cu < str_size (cur_string cu))"
proof (induction cu needle rule: string_findNextChar.induct)
  case (1 cu needle)
  obtain c cu1 where g: "string_getNextChar cu = Inr (c, cu1)"
    using "1.prems" by (auto simp: string_findNextChar.simps [of cu] split: sum.splits)
  have cu1: "c = NUL \<and> cu1 = cu \<or> cur_string cu1 = cur_string cu \<and> cur_offset cu1 = Suc (cur_offset cu)
      \<and> cur_offset cu < str_size (cur_string cu)"
    using g by (auto simp: string_getNextChar_def exec_simps split: if_splits)
  show ?case
  proof (cases "c = NUL \<or> c = needle")
    case True
    with g cu1 "1.prems" show ?thesis by (auto simp: string_findNextChar.simps [of cu] split: if_splits)
  next
    case False
    then have "string_findNextChar cu1 needle = Inr (i, cu')"
      using g "1.prems" by (simp add: string_findNextChar.simps [of cu])
    with "1.IH" [OF g refl] False cu1 show ?thesis by auto
  qed
qed

text \<open>The loop over the parameters of a request target; \<open>firstParameter\<close> is the index of the
  question mark or ampersand before the next key.\<close>

function http_parseParameters ::
  "url_t \<Rightarrow> string_t \<Rightarrow> string_cursor_t \<Rightarrow> int \<Rightarrow> (bool \<times> url_t) exec" where
  "http_parseParameters url requestTarget cu firstParameter =
     bnd (string_findNextChar cu (CHR ''='')) (\<lambda>(equals, cu1).
       if equals = -1 then Inr (False, url)
       else
         bnd (string_substring requestTarget (nat (firstParameter + 1)) (nat equals)) (\<lambda>key.
         bnd (string_findNextChar cu1 (CHR ''&'')) (\<lambda>(next, cu2).
           if next = -1
           then bnd (string_substring requestTarget (nat (equals + 1)) (string_getSize requestTarget)) (\<lambda>value.
                bnd (deref key) (\<lambda>k.
                bnd (url_setParameter url k value) (\<lambda>url1. Inr (True, url1))))
           else bnd (string_substring requestTarget (nat (equals + 1)) (nat next)) (\<lambda>value.
                bnd (deref key) (\<lambda>k.
                bnd (url_setParameter url k value) (\<lambda>url1.
                  http_parseParameters url1 requestTarget cu2 next))))))"
  by pat_completeness auto
termination
proof (relation "measure (\<lambda>(_, _, cu, _). str_size (cur_string cu) - cur_offset cu)", goal_cases)
  case (2 url t cu f x equals cu1 key y "next" cu2)
  then have "string_findNextChar cu (CHR ''='') = Inr (equals, cu1)" "equals \<noteq> -1"
    "string_findNextChar cu1 (CHR ''&'') = Inr (next, cu2)" "next \<noteq> -1" by auto
  from findNextChar_progress [OF this(1)] findNextChar_progress [OF this(3)] this(2,4)
  show ?case by auto
qed simp

declare http_parseParameters.simps [simp del]

definition http_parseRequestTarget :: "http_t \<Rightarrow> string_t \<Rightarrow> (bool \<times> http_t) exec" where
  "http_parseRequestTarget http requestTarget =
     bnd (string_findNextChar (string_createCursor requestTarget) (CHR ''?'')) (\<lambda>(firstParameter, cu).
     bnd (string_substring requestTarget 0
            (if firstParameter = -1 then string_getSize requestTarget else nat firstParameter)) (\<lambda>path.
     bnd (deref (http_url http)) (\<lambda>url.
     bnd (url_setPath url path) (\<lambda>url1.
       if firstParameter = -1 then Inr (True, http\<lparr>http_url := Some url1\<rparr>)
       else bnd (string_getNextChar cu) (\<lambda>(current, cu1).
         if current = NUL then Inr (True, http\<lparr>http_url := Some url1\<rparr>)
         else bnd (http_parseParameters url1 requestTarget cu1 firstParameter) (\<lambda>(ok, url2).
                Inr (ok, http\<lparr>http_url := Some url2\<rparr>)))))))"

text \<open>The check of the three characters after \<^verbatim>\<open>HTTP/\<close>, as written: the upper bound of the third
  is tested on the first.\<close>

definition http_version_ok :: "string_t \<Rightarrow> bool exec" where
  "http_version_ok version =
     bnd (string_getCharAt version 0) (\<lambda>c0.
     bnd (string_getCharAt version 1) (\<lambda>c1.
     bnd (string_getCharAt version 2) (\<lambda>c2.
       let firstCharIsNotInt = schar c0 < schar (CHR ''0'') \<or> schar c0 > schar (CHR ''9'');
           secondCharIsNotDot = c1 \<noteq> CHR ''.'';
           thirdCharIsNotInt = schar c2 < schar (CHR ''0'') \<or> schar c0 > schar (CHR ''9'')
       in Inr (\<not> (firstCharIsNotInt \<or> secondCharIsNotDot \<or> thirdCharIsNotInt)))))"

definition http_parseVersion :: "http_t \<Rightarrow> string_t \<Rightarrow> (bool \<times> http_t) exec" where
  "http_parseVersion http versionString =
     bnd (string_substring versionString 0 5) (\<lambda>compareString.
       case compareString of None \<Rightarrow> Inr (False, http)
       | Some c \<Rightarrow>
           bnd (string_equalsBuffer c (lit ''HTTP/'')) (\<lambda>eq.
             if \<not> eq then Inr (False, http)
             else bnd (string_substring versionString 5 8) (\<lambda>version.
               case version of None \<Rightarrow> Inr (False, http)
               | Some v \<Rightarrow>
                   bnd (http_version_ok v) (\<lambda>ok.
                     if \<not> ok then Inr (False, http)
                     else bnd (http_setVersion http (Some v)) (\<lambda>http1. Inr (True, http1))))))"

definition http_parseRequestLine :: "http_t \<Rightarrow> string_t \<Rightarrow> (bool \<times> http_t) exec" where
  "http_parseRequestLine http s =
     bnd (http_readWord True (string_createCursor s) string_create) (\<lambda>(current, cu1, tempString).
       if current = NUL then Inr (False, http)
       else
         bnd (http_parseMethod tempString) (\<lambda>method.
         bnd (string_fromBuffer (lit ''http'')) (\<lambda>protocol.
         bnd (url_setProtocol (case http_url http of None \<Rightarrow> url_create | Some u \<Rightarrow> u) (Some protocol)) (\<lambda>url.
           let http1 = http\<lparr>http_method := method, http_url := Some url\<rparr> in
           bnd (http_readWord True cu1 string_create) (\<lambda>(current, cu2, requestTarget).
             if current = NUL then Inr (False, http1)
             else
               bnd (http_parseRequestTarget http1 requestTarget) (\<lambda>(correctlyParsed, http2).
                 if \<not> correctlyParsed then Inr (False, http2)
                 else bnd (http_readWord False cu2 string_create) (\<lambda>(_, _, versionString).
                        http_parseVersion http2 versionString)))))))"

definition http_parseHeader :: "http_t \<Rightarrow> string_t \<Rightarrow> (bool \<times> http_t) exec" where
  "http_parseHeader http s =
     bnd (string_findNextChar (string_createCursor s) (CHR '':'')) (\<lambda>(offset, _).
       if offset = -1 then Inr (False, http)
       else bnd (string_getCharAt s (nat (offset + 1))) (\<lambda>c.
         if c \<noteq> SP then Inr (False, http)
         else
           bnd (string_substring s 0 (nat offset)) (\<lambda>key.
           bnd (string_substring s (nat (offset + 2)) (string_getSize s)) (\<lambda>value.
             if value = None then Inr (False, http)
             else bnd (deref key) (\<lambda>k.
                  bnd (http_setHeader http k value) (\<lambda>http1. Inr (True, http1)))))))"

definition http_parseBody :: "http_t \<Rightarrow> string_t \<Rightarrow> nat \<Rightarrow> http_t exec" where
  "http_parseBody http s offset =
     bnd (free_opt (http_body http)) (\<lambda>_.
     bnd (string_substring s offset (string_getSize s)) (\<lambda>body.
       Inr (http\<lparr>http_body := body\<rparr>)))"

definition http_parseHost :: "http_t \<Rightarrow> (bool \<times> http_t) exec" where
  "http_parseHost http =
     bnd (string_fromBuffer (lit ''Host'')) (\<lambda>keyHost.
     bnd (hash_table_getValue (http_headers http) keyHost) (\<lambda>(value, t).
       let http1 = http\<lparr>http_headers := t\<rparr> in
       case value of None \<Rightarrow> Inr (False, http1)
       | Some host \<Rightarrow>
           bnd (string_findNextChar (string_createCursor host) (CHR '':'')) (\<lambda>(parameter, _).
             let url = (case http_url http1 of None \<Rightarrow> url_create | Some u \<Rightarrow> u);
                 http2 = http1\<lparr>http_url := Some url\<rparr> in
             if parameter = -1
             then bnd (deref (string_getBuffer host)) (\<lambda>b.
                  bnd (string_fromBuffer b) (\<lambda>domainName.
                  bnd (url_setDomainName (url_setPort url 80) (Some domainName)) (\<lambda>url1.
                    Inr (True, http2\<lparr>http_url := Some url1\<rparr>))))
             else
               bnd (string_substring host (nat (parameter + 1)) (string_getSize host)) (\<lambda>portString.
               bnd (deref portString) (\<lambda>ps.
               bnd (deref (string_getBuffer ps)) (\<lambda>b.
               bnd (atoi b) (\<lambda>port.
                 if port < 0 \<or> port > 2 ^ 16 then Inr (False, http2)
                 else bnd (string_substring host 0 (nat parameter)) (\<lambda>domainName.
                      bnd (url_setDomainName (url_setPort url port) domainName) (\<lambda>url1.
                        Inr (True, http2\<lparr>http_url := Some url1\<rparr>))))))))))"

definition http_free :: "http_t \<Rightarrow> unit exec" where
  "http_free http =
     bnd (free_opt (http_version http)) (\<lambda>_.
     bnd (free_opt (http_responseCodeText http)) (\<lambda>_.
     bnd (free_opt (http_body http)) (\<lambda>_.
     bnd (url_free_parameters (hash_table_getLength (http_headers http)) (http_headers http)) (\<lambda>t.
     bnd (hash_table_free t) (\<lambda>_.
       case http_url http of None \<Rightarrow> Inr () | Some url \<Rightarrow> bnd (url_free url) (\<lambda>_. Inr ()))))))"


section \<open>Reading words\<close>

definition accw :: "string option \<Rightarrow> string \<Rightarrow> string option" where
  "accw a w = (if w = [] then a else accs a w)"

lemma accw_Nil [simp]: "accw a [] = a"
  by (simp add: accw_def)

lemma accw_step [simp]: "accw (accs a [c]) w = accw a (c # w)"
  by (simp add: accw_def)

lemma accum_accw_ne: "w \<noteq> [] \<Longrightarrow> accum (accw None w) = str w"
  by (simp add: accw_def accum_simps)

lemma readWord_at:
  assumes "NUL \<notin> set xs" and "i \<le> length xs"
  shows "http_readWord stop (at (pad xs k) i) (accum a) =
    (let w = takeWhile (\<lambda>c. \<not> (stop \<and> c = SP)) (drop i xs); j = i + length w
     in if j < length xs then Inr (SP, at (pad xs k) (Suc j), accum (accw a w))
        else Inr (NUL, at (pad xs k) (length xs), accum (accw a w)))"
  using assms(2)
proof (induction "length xs - i" arbitrary: i a)
  case 0
  then show ?case by (simp add: http_readWord.simps [of stop "at (pad xs k) i"] getNextChar_at)
next
  case (Suc n)
  then have i: "i < length xs" by simp
  then have c: "xs ! i \<noteq> NUL" using assms(1) by (metis nth_mem)
  show ?case
  proof (cases "stop \<and> xs ! i = SP")
    case True
    then show ?thesis using i c
      by (simp add: http_readWord.simps [of _ "at (pad xs k) i"] getNextChar_at
          Cons_nth_drop_Suc [symmetric])
  next
    case False
    then have "http_readWord stop (at (pad xs k) i) (accum a)
        = http_readWord stop (at (pad xs k) (Suc i)) (accum (accs a [xs ! i]))"
      using i c False
      by (auto simp: http_readWord.simps [of stop "at (pad xs k) i"] getNextChar_at appendChar_accum)
    moreover have "drop i xs = xs ! i # drop (Suc i) xs" using i by (simp add: Cons_nth_drop_Suc)
    ultimately show ?thesis using Suc.hyps(1) [of "Suc i" "accs a [xs ! i]"] Suc.hyps(2) i False
      by (simp add: Let_def)
  qed
qed

lemma readWord_found:
  assumes "NUL \<notin> set (pre @ w @ SP # rest)" and "SP \<notin> set w"
  shows "http_readWord True (at (pad (pre @ w @ SP # rest) k) (length pre)) string_create
    = Inr (SP, at (pad (pre @ w @ SP # rest) k) (length pre + length w + 1), accum (accw None w))"
proof -
  have "takeWhile (\<lambda>c. c \<noteq> SP) (w @ SP # rest) = w"
    using assms(2) by (subst takeWhile_append2) auto
  then show ?thesis
    using readWord_at [OF assms(1), of "length pre" True k None] by (simp add: accum_simps(1) Let_def)
qed

lemma readWord_rest:
  assumes "NUL \<notin> set (pre @ w)"
  shows "http_readWord False (at (pad (pre @ w) k) (length pre)) string_create
    = Inr (NUL, at (pad (pre @ w) k) (length pre + length w), accum (accw None w))"
proof -
  have w: "takeWhile (\<lambda>c. True) w = w" by (induction w) auto
  show ?thesis
    using readWord_at [OF assms, of "length pre" False k None] by (simp add: accum_simps(1) Let_def w)
qed

section \<open>Methods\<close>

definition method_of :: "string \<Rightarrow> httpMethod" where
  "method_of m = (case map_of [(''GET'', HTTP_METHOD_GET), (''PUT'', HTTP_METHOD_PUT),
      (''POST'', HTTP_METHOD_POST), (''HEAD'', HTTP_METHOD_HEAD), (''OPTIONS'', HTTP_METHOD_OPTIONS)] m
    of None \<Rightarrow> HTTP_METHOD_UNKNOWN | Some x \<Rightarrow> x)"

lemma parseMethod_eq:
  assumes "0 < k" and "NUL \<notin> set m"
  shows "http_parseMethod (pad m k) = Inr (method_of m)"
  using assms by (auto simp: http_parseMethod_def equalsBuffer_pad method_of_def)

lemma parseMethod_create: "http_parseMethod string_create = Inl NullPointer"
  by (simp add: http_parseMethod_def string_equalsBuffer_def string_create_def)

section \<open>Request targets\<close>

definition url_inv :: "url_t \<Rightarrow> bool" where
  "url_inv u \<longleftrightarrow> (\<exists>es. ht_rep (url_parameters u) es)"

lemma setParameter_inv:
  assumes "url_inv u" and "key_ok k"
  shows "\<exists>u'. url_setParameter u k v = Inr u' \<and> url_inv u'"
proof -
  obtain es where es: "ht_rep (url_parameters u) es" using assms(1) by (auto simp: url_inv_def)
  obtain t where t: "hash_table_setValue (url_parameters u) k v
      = Inr (Option.bind (entries_map es (key_hash k)) id, t)" "ht_rep t (entries_set es k v)"
    using ht_rep_set [OF es assms(2)] by blast
  then show ?thesis
    by (cases "Option.bind (entries_map es (key_hash k)) id")
      (auto simp: url_setParameter_def url_inv_def)
qed

lemma substring_end: "\<exists>v. string_substring (pad xs k) i (length xs) = Inr v"
  by (cases "length xs \<le> i") (auto simp: substring_pad)

lemma parseParameters_total:
  assumes "NUL \<notin> set xs" and "f + 1 \<le> i" and "i \<le> length xs" and "url_inv u"
  shows "\<exists>ok u'. http_parseParameters u (pad xs k) (at (pad xs k) i) (int f) = Inr (ok, u') \<and> url_inv u'"
  using assms(2-4)
proof (induction "length xs - i" arbitrary: i f u rule: less_induct)
  case less
  let ?j = "find_from xs i (CHR ''='')" and ?cu = "at (pad xs k) i"
  note find = findNextChar_at [OF assms(1) _ _, unfolded Let_def]
  show ?case
  proof (cases "?j < length xs")
    case False
    then show ?thesis using less.prems find [of i "CHR ''=''" k]
      by (auto simp: http_parseParameters.simps [of u "pad xs k" ?cu])
  next
    case True
    let ?m = "find_from xs (Suc ?j) (CHR ''&'')" and ?key = "str (take (?j - Suc f) (drop (Suc f) xs))"
    have ge: "i \<le> ?j" "Suc ?j \<le> ?m" using find_from_ge by auto
    have e: "string_findNextChar ?cu (CHR ''='') = Inr (int ?j, at (pad xs k) (Suc ?j))"
      using True less.prems find [of i "CHR ''=''" k] by simp
    have key: "string_substring (pad xs k) (nat (int f + 1)) ?j = Inr (Some ?key)" "key_ok ?key"
      using True ge less.prems by (auto simp: substring_pad nat_add_distrib)
    note step = http_parseParameters.simps [of u "pad xs k" ?cu "int f"] e key(1)
    show ?thesis
    proof (cases "?m < length xs")
      case False
      then have "string_findNextChar (at (pad xs k) (Suc ?j)) (CHR ''&'') = Inr (-1, at (pad xs k) (length xs))"
        using True find [of "Suc ?j" "CHR ''&''" k] by simp
      moreover obtain v where "string_substring (pad xs k) (nat (int ?j + 1)) (string_getSize (pad xs k)) = Inr v"
        using substring_end [of xs k] by (metis pad_fields(3) string_getSize_def)
      moreover obtain u' where "url_setParameter u ?key v = Inr u'" "url_inv u'"
        using setParameter_inv [OF less.prems(3) key(2)] by blast
      ultimately show ?thesis by (auto simp: step)
    next
      case m: True
      have amp: "string_findNextChar (at (pad xs k) (Suc ?j)) (CHR ''&'') = Inr (int ?m, at (pad xs k) (Suc ?m))"
        using m True find [of "Suc ?j" "CHR ''&''" k] by simp
      let ?v = "Some (str (take (?m - Suc ?j) (drop (Suc ?j) xs)))"
      have v: "string_substring (pad xs k) (nat (int ?j + 1)) ?m = Inr ?v"
        using ge m by (simp add: substring_pad nat_add_distrib)
      obtain u1 where u1: "url_setParameter u ?key ?v = Inr u1" "url_inv u1"
        using setParameter_inv [OF less.prems(3) key(2)] by blast
      have "http_parseParameters u (pad xs k) ?cu (int f)
          = http_parseParameters u1 (pad xs k) (at (pad xs k) (Suc ?m)) (int ?m)"
        by (simp add: step amp v u1(1))
      with less.hyps [of "Suc ?m" ?m u1] u1(2) m ge less.prems(2) True show ?thesis by simp
    qed
  qed
qed


lemma setPath_inv: "url_inv u \<Longrightarrow> \<exists>u'. url_setPath u p = Inr u' \<and> url_inv u'"
  by (cases "url_path u") (simp_all add: url_setPath_def url_inv_def)

lemma substring_create [simp]: "string_substring string_create i j = Inr None"
  by (simp add: string_substring_def string_create_def)

lemma parseRequestTarget_total:
  assumes "NUL \<notin> set xs" and "http_url http = Some u" and "url_inv u" and "s = accum (accw None xs)"
  shows "\<exists>ok http' u'. http_parseRequestTarget http s = Inr (ok, http')
    \<and> http' = http\<lparr>http_url := Some u'\<rparr> \<and> url_inv u'"
proof (cases "xs = []")
  case True
  then have s: "s = string_create" using assms(4) by (simp add: accum_simps)
  obtain u' where "url_setPath u None = Inr u'" "url_inv u'" using setPath_inv [OF assms(3)] by blast
  then show ?thesis using assms(2) s
    by (auto simp: http_parseRequestTarget_def findNextChar_create)
next
  case False
  then have s: "s = pad xs 1" using assms(4) by (simp add: accum_accw_ne)
  let ?j = "find_from xs 0 (CHR ''?'')"
  note set = setPath_inv [OF assms(3)]
  show ?thesis
  proof (cases "?j < length xs")
    case j: True
    then have f: "string_findNextChar (at s 0) (CHR ''?'') = Inr (int ?j, at s (Suc ?j))"
      using findNextChar_at [OF assms(1), of 0 "CHR ''?''" 1] s by (simp add: Let_def)
    have sub: "string_substring s 0 ?j = Inr (Some (str (take ?j xs)))"
      using j s by (auto simp: substring_pad)
    obtain u1 where u1: "url_setPath u (Some (str (take ?j xs))) = Inr u1" "url_inv u1" using set by blast
    show ?thesis
    proof (cases "Suc ?j < length xs")
      case True
      then obtain ok u2 where "http_parseParameters u1 s (at s (Suc (Suc ?j))) (int ?j) = Inr (ok, u2)" "url_inv u2"
        using parseParameters_total [OF assms(1), of ?j "Suc (Suc ?j)" u1 1] u1(2) s by auto
      moreover have "xs ! Suc ?j \<noteq> NUL" using True assms(1) by (metis nth_mem)
      ultimately show ?thesis using True f sub u1 assms(2)
        by (simp add: http_parseRequestTarget_def s getNextChar_at) blast
    next
      case False
      then show ?thesis using f sub u1 assms(2)
        by (simp add: http_parseRequestTarget_def s getNextChar_at) blast
    qed
  next
    case j: False
    then have f: "string_findNextChar (at s 0) (CHR ''?'') = Inr (-1, at s (length xs))"
      using findNextChar_at [OF assms(1), of 0 "CHR ''?''" 1] s by simp
    have sub: "string_substring s 0 (string_getSize s) = Inr (Some (str xs))"
      using s False by (simp add: substring_pad string_getSize_def)
    obtain u1 where u1: "url_setPath u (Some (str xs)) = Inr u1" "url_inv u1" using set by blast
    with f sub assms(2) show ?thesis by (simp add: http_parseRequestTarget_def) blast
  qed
qed

section \<open>Versions\<close>

definition version_text_ok :: "string \<Rightarrow> bool" where
  "version_text_ok v \<longleftrightarrow> 8 \<le> length v \<and> take 5 v = ''HTTP/''
     \<and> is_digit (v ! 5) \<and> v ! 6 = CHR ''.'' \<and> schar (CHR ''0'') \<le> schar (v ! 7)"

lemma schar_digit: "schar (CHR ''0'') \<le> schar c \<and> schar c \<le> schar (CHR ''9'') \<longleftrightarrow> is_digit c"
  using nat_of_char_less_256 [of c]
  by (auto simp: schar_def is_digit_def Let_def simp del: nat_of_char_less_256)

lemma parseVersion_eq:
  assumes "NUL \<notin> set v"
  shows "http_parseVersion http (accum (accw None v)) =
    Inr (if version_text_ok v then (True, http\<lparr>http_version := Some (str (take 3 (drop 5 v)))\<rparr>)
         else (False, http))"
proof (cases "v = []")
  case True
  then show ?thesis
    by (simp add: http_parseVersion_def accum_simps version_text_ok_def)
next
  case False
  then have s: "accum (accw None v) = pad v 1" by (simp add: accum_accw_ne)
  have no: "NUL \<notin> set (take 5 v)" using assms by (meson in_set_takeD)
  have eq: "string_equalsBuffer (str (take 5 v)) (lit ''HTTP/'') = Inr (take 5 v = ''HTTP/'')"
    using no by (simp add: equalsBuffer_pad)
  show ?thesis
  proof (cases "8 \<le> length v \<and> take 5 v = ''HTTP/''")
    case True
    let ?w = "take 3 (drop 5 v)"
    have w: "length ?w = 3" "?w ! 0 = v ! 5" "?w ! 1 = v ! 6" "?w ! 2 = v ! 7"
      using True by (auto simp: min_def)
    have ok: "http_version_ok (str ?w) = Inr (version_text_ok v)"
      using True w schar_digit [of "v ! 5"]
      by (auto simp: http_version_ok_def getCharAt_pad version_text_ok_def Let_def not_less)
    show ?thesis using True ok False
      by (simp add: http_parseVersion_def s substring_pad equalsBuffer_pad http_setVersion_def)
  next
    case no8: False
    then show ?thesis using False
      by (auto simp: http_parseVersion_def s substring_pad eq version_text_ok_def)
  qed
qed


section \<open>Request lines\<close>

text \<open>The words of a request line: up to the first space, up to the next one, and the rest.\<close>

definition first_word :: "string \<Rightarrow> string" where
  "first_word xs = takeWhile (\<lambda>c. c \<noteq> SP) xs"

lemma request_line_two_spaces:
  assumes "NUL \<notin> set (m @ SP # t @ SP # v)" and "SP \<notin> set m" and "SP \<notin> set t" and "m \<noteq> []"
    and "url = (case http_url http of None \<Rightarrow> url_create | Some u \<Rightarrow> u)"
  shows "http_parseRequestLine http (pad (m @ SP # t @ SP # v) k) =
    bnd (http_parseRequestTarget (http\<lparr>http_method := method_of m,
            http_url := Some (url\<lparr>url_protocol := Some (str ''http'')\<rparr>)\<rparr>) (accum (accw None t)))
      (\<lambda>(ok, http2). if \<not> ok then Inr (False, http2)
                     else http_parseVersion http2 (accum (accw None v)))"
proof -
  let ?xs = "m @ SP # t @ SP # v"
  have r1: "http_readWord True (at (pad ?xs k) 0) string_create
      = Inr (SP, at (pad ?xs k) (length m + 1), str m)"
    using readWord_found [of "[]" m "t @ SP # v" k] assms by (simp add: accum_accw_ne)
  have r2: "http_readWord True (at (pad ?xs k) (length m + 1)) string_create
      = Inr (SP, at (pad ?xs k) (length m + 1 + length t + 1), accum (accw None t))"
    using readWord_found [of "m @ [SP]" t v k] assms by simp
  have r3: "http_readWord False (at (pad ?xs k) (length m + 1 + length t + 1)) string_create
      = Inr (NUL, at (pad ?xs k) (length ?xs), accum (accw None v))"
    using readWord_rest [of "m @ SP # t @ [SP]" v k] assms by simp
  have mth: "http_parseMethod (str m) = Inr (method_of m)" using assms by (simp add: parseMethod_eq)
  have prot: "url_setProtocol url p = Inr (url\<lparr>url_protocol := p\<rparr>)" for p
    by (cases "url_protocol url") (simp_all add: url_setProtocol_def)
  show ?thesis
    unfolding http_parseRequestLine_def createCursor_at r1 bnd_Inr prod.case
    by (simp add: mth fromBuffer_lit assms(5) [symmetric] prot Let_def r2 [simplified] r3 [simplified]
        cong: if_cong)
qed

lemma request_line_few_spaces:
  assumes "NUL \<notin> set xs" and "xs \<noteq> []" and "hd xs \<noteq> SP" and "count_list xs SP < 2" and "0 < k"
  shows "\<exists>http'. http_parseRequestLine http (pad xs k) = Inr (False, http')"
proof (cases "SP \<in> set xs")
  case False
  then have tw: "takeWhile (\<lambda>c. c \<noteq> SP) xs = xs" by (auto simp: takeWhile_eq_all_conv)
  show ?thesis using readWord_at [OF assms(1), of 0 True k None]
    by (simp add: http_parseRequestLine_def accum_simps(1) Let_def tw)
next
  case True
  then obtain m t where xs: "xs = m @ SP # t" and m: "SP \<notin> set m" by (meson split_list_first)
  then have t: "SP \<notin> set t" using assms(4) by (auto simp: count_list_0_iff [symmetric])
  have ne: "m \<noteq> []" using xs assms(3) by (cases m) auto
  have r1: "http_readWord True (at (pad xs k) 0) string_create
      = Inr (SP, at (pad xs k) (Suc (length m)), str m)"
    using readWord_found [of "[]" m t k] assms(1) m ne xs by (simp add: accum_accw_ne)
  have tw: "takeWhile (\<lambda>c. c \<noteq> SP) t = t" using t by (auto simp: takeWhile_eq_all_conv)
  have r2: "http_readWord True (at (pad xs k) (Suc (length m))) string_create
      = Inr (NUL, at (pad xs k) (length xs), accum (accw None t))"
    using readWord_at [OF assms(1), of "Suc (length m)" True k None] xs by (simp add: accum_simps(1) tw)
  have mth: "http_parseMethod (str m) = Inr (method_of m)" using assms(1) xs by (simp add: parseMethod_eq)
  have prot: "\<exists>u'. url_setProtocol u p = Inr u'" for u p
    by (cases "url_protocol u") (simp_all add: url_setProtocol_def)
  obtain u' where "url_setProtocol (case http_url http of None \<Rightarrow> url_create | Some u \<Rightarrow> u) (Some (str ''http''))
      = Inr u'" using prot by blast
  then show ?thesis
    by (simp add: http_parseRequestLine_def r1 r2 mth fromBuffer_lit Let_def)
qed


section \<open>Parameters of a request target\<close>

fun params_text :: "(string \<times> string) list \<Rightarrow> string" where
  "params_text [] = []"
| "params_text [(k, v)] = k @ ''='' @ v"
| "params_text ((k, v) # p # ps) = k @ ''='' @ v @ ''&'' @ params_text (p # ps)"

fun set_params :: "url_t \<Rightarrow> (string \<times> string) list \<Rightarrow> url_t exec" where
  "set_params u [] = Inr u"
| "set_params u ((k, v) # ps) =
     bnd (url_setParameter u (str k) (Some (str v))) (\<lambda>u1. set_params u1 ps)"

lemma find_from_mid:
  assumes "c \<notin> set w" and "length pre \<le> i" and "i \<le> length pre + length w"
  shows "find_from (pre @ w @ c # rest) i c = length pre + length w"
proof -
  have "drop i (pre @ w @ c # rest) = drop (i - length pre) w @ c # rest" using assms by simp
  moreover have "takeWhile (\<lambda>x. x \<noteq> c) (drop (i - length pre) w @ c # rest) = drop (i - length pre) w"
    using assms(1) by (subst takeWhile_append2) (auto dest: in_set_dropD)
  ultimately show ?thesis using assms by (simp add: find_from_def)
qed

lemma find_next_mid:
  assumes "NUL \<notin> set (pre @ w @ c # rest)" and "c \<notin> set w" and "length pre \<le> i"
    and "i \<le> length pre + length w" and "xs = pre @ w @ c # rest" and "n = length pre + length w"
  shows "string_findNextChar (at (pad xs k) i) c = Inr (int n, at (pad xs k) (Suc n))"
  using assms findNextChar_at [of xs i c k] find_from_mid [OF assms(2-4), of rest]
  by (auto simp: Let_def)

lemma find_next_none:
  assumes "NUL \<notin> set xs" and "c \<noteq> NUL" and "c \<notin> set (drop i xs)" and "i \<le> length xs"
  shows "string_findNextChar (at (pad xs k) i) c = Inr (-1, at (pad xs k) (length xs))"
  using assms findNextChar_at [of xs i c k] find_from_none [OF assms(3,4)] by (simp add: Let_def)

lemma substring_mid:
  "w \<noteq> [] \<or> rest \<noteq> [] \<Longrightarrow> xs = pre @ w @ rest \<Longrightarrow> i = length pre \<Longrightarrow> j = length pre + length w \<Longrightarrow>
   string_substring (pad xs k) i j = Inr (Some (str w))"
  by (auto simp: substring_pad)

definition param_pair_ok :: "string \<times> string \<Rightarrow> bool" where
  "param_pair_ok kv = (case kv of (k, v) \<Rightarrow> CHR ''='' \<notin> set k \<and> CHR ''&'' \<notin> set v \<and> NUL \<notin> set k \<and> NUL \<notin> set v)"

lemma params_text_NUL: "list_all param_pair_ok kvs \<Longrightarrow> NUL \<notin> set (params_text kvs)"
  by (induction kvs rule: params_text.induct) (auto simp: param_pair_ok_def)

lemma parseParameters_text:
  assumes "list_all param_pair_ok kvs" and "kvs \<noteq> []" and "snd (last kvs) \<noteq> []"
    and "xs = pre @ sep # params_text kvs" and "NUL \<notin> set (pre @ [sep])"
    and "Suc (length pre) \<le> i" and "i \<le> Suc (length pre + length (fst (hd kvs)))"
  shows "http_parseParameters u (pad xs k) (at (pad xs k) i) (int (length pre))
    = bnd (set_params u kvs) (\<lambda>u1. Inr (True, u1))"
  using assms
proof (induction kvs arbitrary: pre sep i u rule: params_text.induct)
  case (2 key v)
  have no: "NUL \<notin> set xs" using "2.prems" by (auto simp: param_pair_ok_def)
  have e: "string_findNextChar (at (pad xs k) i) (CHR ''='')
      = Inr (int (Suc (length pre + length key)), at (pad xs k) (Suc (Suc (length pre + length key))))"
    using "2.prems" no by (intro find_next_mid [of "pre @ [sep]" key _ v]) (auto simp: param_pair_ok_def)
  have a: "string_findNextChar (at (pad xs k) (Suc (Suc (length pre + length key)))) (CHR ''&'')
      = Inr (-1, at (pad xs k) (length xs))"
    using "2.prems" no by (intro find_next_none) (auto simp: param_pair_ok_def)
  have "string_substring (pad xs k) (Suc (length pre)) (Suc (length pre + length key)) = Inr (Some (str key))"
    using "2.prems" by (intro substring_mid [of _ "''='' @ v" _ "pre @ [sep]"]) auto
  moreover have "string_substring (pad xs k) (Suc (Suc (length pre + length key))) (length xs) = Inr (Some (str v))"
    using "2.prems" by (intro substring_mid [of _ "[]" _ "pre @ [sep] @ key @ ''=''"]) auto
  ultimately show ?case
    by (simp add: http_parseParameters.simps [of u "pad xs k"] e [simplified] a nat_add_distrib string_getSize_def bnd_assoc)
next
  case (3 key v p ps)
  let ?rest = "params_text (p # ps)"
  have no: "NUL \<notin> set xs" using "3.prems"(1,4,5) params_text_NUL [OF "3.prems"(1)] by auto
  have xs: "xs = pre @ sep # key @ CHR ''='' # v @ CHR ''&'' # ?rest" using "3.prems"(4) by simp
  have e: "string_findNextChar (at (pad xs k) i) (CHR ''='')
      = Inr (int (Suc (length pre + length key)), at (pad xs k) (Suc (Suc (length pre + length key))))"
    using "3.prems" no xs by (intro find_next_mid [of "pre @ [sep]" key _ "v @ CHR ''&'' # ?rest"])
      (auto simp: param_pair_ok_def)
  let ?n = "Suc (Suc (length pre + (length key + length v)))"
  have a: "string_findNextChar (at (pad xs k) (Suc (Suc (length pre + length key)))) (CHR ''&'')
      = Inr (int ?n, at (pad xs k) (Suc ?n))"
    using "3.prems" no xs by (intro find_next_mid [of "pre @ sep # key @ ''=''" v _ ?rest])
      (auto simp: param_pair_ok_def)
  have key: "string_substring (pad xs k) (Suc (length pre)) (Suc (length pre + length key)) = Inr (Some (str key))"
    using xs by (intro substring_mid [of _ "CHR ''='' # v @ CHR ''&'' # ?rest" _ "pre @ [sep]"]) auto
  have v: "string_substring (pad xs k) (Suc (Suc (length pre + length key))) ?n = Inr (Some (str v))"
    using xs by (intro substring_mid [of _ "CHR ''&'' # ?rest" _ "pre @ sep # key @ ''=''"]) auto
  let ?pre = "pre @ sep # key @ ''='' @ v"
  have IH: "http_parseParameters u1 (pad xs k) (at (pad xs k) (Suc ?n)) (int ?n)
      = bnd (set_params u1 (p # ps)) (\<lambda>u1. Inr (True, u1))" for u1
    using "3.IH" [of ?pre "CHR ''&''" "Suc ?n" u1] "3.prems" xs no by (simp add: param_pair_ok_def)
  show ?case
    by (simp add: http_parseParameters.simps [of u "pad xs k" "at (pad xs k) i"] e [simplified] a [simplified]
        nat_add_distrib key v IH [simplified] bnd_assoc)
qed simp


lemma set_param_new:
  assumes "ht_rep (url_parameters u) es" and "NUL \<notin> set k" and "crc32 k \<notin> ent_keyHash ` set es"
  shows "\<exists>t. url_setParameter u (str k) v = Inr (u\<lparr>url_parameters := t\<rparr>)
    \<and> ht_rep t (es @ [\<lparr>ent_keyHash = crc32 k, ent_key = str k, ent_value = v\<rparr>])"
proof -
  have h: "key_hash (str k) = crc32 k" using assms(2) by (simp add: key_hash_def)
  then have "entries_map es (key_hash (str k)) = None" using assms(3) by simp
  then show ?thesis
    using ht_rep_set [OF assms(1), of "str k" v] assms h
    by (auto simp: url_setParameter_def entries_set_def)
qed

lemma set_params_new:
  assumes "ht_rep (url_parameters u) es" and "list_all param_ok es" and "list_all param_pair_ok kvs"
    and "distinct (map ent_keyHash es @ map (\<lambda>(k, v). crc32 k) kvs)"
  shows "\<exists>t fs. set_params u kvs = Inr (u\<lparr>url_parameters := t\<rparr>)
    \<and> ht_rep t fs \<and> list_all param_ok fs
    \<and> map param_text fs = map param_text es @ map (\<lambda>(k, v). k @ ''='' @ v) kvs"
  using assms
proof (induction kvs arbitrary: u es)
  case Nil
  then show ?case by (intro exI [of _ "url_parameters u"] exI [of _ es]) simp
next
  case (Cons kv kvs)
  obtain k v where kv: "kv = (k, v)" by (cases kv)
  let ?e = "\<lparr>ent_keyHash = crc32 k, ent_key = str k, ent_value = Some (str v)\<rparr>"
  have no: "NUL \<notin> set k" "NUL \<notin> set v" using Cons.prems(3) kv by (auto simp: param_pair_ok_def)
  obtain t where t: "url_setParameter u (str k) (Some (str v)) = Inr (u\<lparr>url_parameters := t\<rparr>)"
    "ht_rep t (es @ [?e])"
    using set_param_new [OF Cons.prems(1) no(1), of "Some (str v)"] Cons.prems(4) kv by auto
  have e: "param_ok ?e" "param_text ?e = k @ ''='' @ v" using no by (simp_all add: param_ok_def param_text_def)
  obtain t' fs where "set_params (u\<lparr>url_parameters := t\<rparr>) kvs = Inr (u\<lparr>url_parameters := t'\<rparr>)"
    "ht_rep t' fs" "list_all param_ok fs"
    "map param_text fs = map param_text (es @ [?e]) @ map (\<lambda>(k, v). k @ ''='' @ v) kvs"
    using Cons.IH [of "u\<lparr>url_parameters := t\<rparr>" "es @ [?e]"] t(2) Cons.prems kv e by auto
  then show ?case using t(1) kv e(2) by auto
qed

lemma query_text_params:
  "map param_text es = map (\<lambda>(k, v). k @ ''='' @ v) kvs \<Longrightarrow> query_text es = params_text kvs"
proof (induction kvs arbitrary: es rule: params_text.induct)
  case (3 k v p ps)
  then obtain e f fs where "es = e # f # fs" by (cases es; cases "tl es") auto
  with 3 show ?case by auto
qed auto

lemma requestTarget_text:
  assumes "http_url http = Some u" and "NUL \<notin> set path" and "CHR ''?'' \<notin> set path"
    and "list_all param_pair_ok kvs" and "kvs \<noteq> []" and "fst (hd kvs) \<noteq> []" and "snd (last kvs) \<noteq> []"
  shows "http_parseRequestTarget http (str (path @ ''?'' @ params_text kvs)) =
    bnd (set_params (u\<lparr>url_path := Some (str path)\<rparr>) kvs) (\<lambda>u1. Inr (True, http\<lparr>http_url := Some u1\<rparr>))"
proof -
  let ?q = "params_text kvs" and ?n = "length path"
  let ?xs = "path @ CHR ''?'' # ?q"
  have no: "NUL \<notin> set ?xs" using assms(2) params_text_NUL [OF assms(4)] by simp
  have f: "string_findNextChar (at (str ?xs) 0) (CHR ''?'') = Inr (int ?n, at (str ?xs) (Suc ?n))"
    using no assms(3) by (intro find_next_mid [of "[]" path _ ?q]) auto
  have sub: "string_substring (str ?xs) 0 ?n = Inr (Some (str path))"
    by (intro substring_mid [of _ "CHR ''?'' # ?q" _ "[]"]) auto
  obtain k v ps where kvs: "kvs = (k, v) # ps" using assms(5) by (cases kvs) auto
  then have q: "?q \<noteq> []" "hd ?q \<noteq> NUL"
    using assms(4,6) by (cases k; cases ps; auto simp: param_pair_ok_def)+
  then have c: "string_getNextChar (at (str ?xs) (Suc ?n)) = Inr (hd ?q, at (str ?xs) (Suc (Suc ?n)))"
    by (simp add: getNextChar_at nth_append hd_conv_nth)
  have set: "url_setPath u p = Inr (u\<lparr>url_path := p\<rparr>)" for p
    by (cases "url_path u") (simp_all add: url_setPath_def)
  have "http_parseParameters u1 (str ?xs) (at (str ?xs) (Suc (Suc ?n))) (int ?n)
      = bnd (set_params u1 kvs) (\<lambda>u1. Inr (True, u1))" for u1
    using assms kvs by (intro parseParameters_text [where sep = "CHR ''?''"])
      (auto simp: neq_Nil_conv)
  then show ?thesis
    using f sub c q set assms(1) by (simp add: http_parseRequestTarget_def bnd_assoc)
qed


section \<open>The text of a response\<close>

text \<open>A string with preallocated space \<open>K\<close> that \<open>xs\<close> has been written to.\<close>

definition grow :: "nat \<Rightarrow> string \<Rightarrow> string_t" where
  "grow K xs = pad xs (cap_after K (length xs))"

lemma append_grow: "key_ok s \<Longrightarrow> string_append (grow K xs) s = Inr (grow K (xs @ key_text s))"
proof -
  assume ok: "key_ok s"
  then obtain b where b: "str_buffer s = Some b" "NUL \<in> set b" by (auto simp: key_ok_def split: option.splits)
  have n: "length (cstr b) \<le> length b" by (simp add: cstr_def length_takeWhile_le)
  have t: "take (length (cstr b)) b = cstr b" by (simp add: cstr_def takeWhile_eq_take [symmetric])
  have "length (cstr b) = 0 \<or> b ! (length (cstr b) - 1) \<noteq> NUL"
    using nth_take [of "length (cstr b) - 1" "length (cstr b)" b] cstr_no_NUL [of b] unfolding t
    by (metis diff_less length_greater_0_conv less_numeral_extra(1) nth_mem length_0_conv)
  from appendBufferWithLength_pad [OF cap_after_pos n this] b t show ?thesis
    by (simp add: string_append_def string_appendBuffer_def strlen_def grow_def key_text_def)
qed

lemma appendBuffer_grow: "NUL \<notin> set ys \<Longrightarrow> string_appendBuffer (grow K xs) (lit ys) = Inr (grow K (xs @ ys))"
  by (simp add: grow_def appendBuffer_lit)

lemma appendChar_grow: "c \<noteq> NUL \<Longrightarrow> string_appendChar (grow K xs) c = Inr (grow K (xs @ [c]))"
  by (simp add: grow_def appendChar_pad)

lemmas grow_simps = append_grow appendBuffer_grow appendChar_grow

definition header_ok :: "string_t hash_table_entry_t \<Rightarrow> bool" where
  "header_ok e \<longleftrightarrow> (case ent_value e of None \<Rightarrow> False | Some v \<Rightarrow> key_ok v)"

definition header_text :: "string_t hash_table_entry_t \<Rightarrow> string" where
  "header_text e = key_text (ent_key e) @ '': '' @ key_text (the (ent_value e)) @ CRLF"

definition bytes_opt_ok :: "string_t option \<Rightarrow> bool" where
  "bytes_opt_ok p = (case p of None \<Rightarrow> True | Some s \<Rightarrow> key_ok s)"

definition http_wf :: "http_t \<Rightarrow> string_t hash_table_entry_t list \<Rightarrow> bool" where
  "http_wf h es \<longleftrightarrow> ht_rep (http_headers h) es \<and> list_all header_ok es \<and> bytes_opt_ok (http_version h)
     \<and> bytes_opt_ok (http_responseCodeText h) \<and> bytes_opt_ok (http_body h) \<and> http_responseCode h < 65536"

definition response_text :: "http_t \<Rightarrow> string_t hash_table_entry_t list \<Rightarrow> string" where
  "response_text h es =
     (case http_version h of None \<Rightarrow> [] | Some v \<Rightarrow> ''HTTP/'' @ key_text v @ '' '')
     @ dec (http_responseCode h) @ '' ''
     @ (case http_responseCodeText h of None \<Rightarrow> [] | Some t \<Rightarrow> key_text t) @ CRLF
     @ concat (map header_text es) @ CRLF
     @ (case http_body h of None \<Rightarrow> [] | Some b \<Rightarrow> key_text b)"

lemma appendHeaders_grow:
  assumes "ht_rep t es" and "list_all header_ok es" and "i + rest = length es"
    and "i = 0 \<or> list_currentIndex t = i - 1"
  shows "\<exists>t'. http_appendHeaders rest i t (grow K xs)
      = Inr (grow K (xs @ concat (map header_text (drop i es))), t') \<and> ht_rep t' es"
  using assms
proof (induction rest arbitrary: i t xs)
  case (Suc rest)
  then have i: "i < length es" by simp
  obtain t1 t2 where t: "hash_table_getKeyByIndex t i = Inr (Some (ent_key (es ! i)), t1)"
    "hash_table_getValueByIndex t1 i = Inr (ent_value (es ! i), t2)"
    "ht_rep t2 es" "list_currentIndex t2 = i"
    using param_at [OF Suc.prems(1) i Suc.prems(4)] by blast
  have "header_ok (es ! i)" "ent_ok (es ! i)"
    using Suc.prems(1,2) i by (auto simp: list_all_length ht_rep_def)
  then obtain v where v: "ent_value (es ! i) = Some v" "key_ok v" and k: "key_ok (ent_key (es ! i))"
    by (auto simp: header_ok_def ent_ok_def split: option.splits)
  have step: "http_appendHeaders (Suc rest) i t (grow K xs)
      = http_appendHeaders rest (Suc i) t2 (grow K (xs @ header_text (es ! i)))"
    using t(1,2) v k by (simp add: grow_simps header_text_def)
  have "drop i es = es ! i # drop (Suc i) es" using i by (simp add: Cons_nth_drop_Suc)
  then show ?case
    unfolding step
    using Suc.IH [OF t(3) Suc.prems(2), of "Suc i" "xs @ header_text (es ! i)"] Suc.prems(3) t(4) by simp
qed auto

lemma toResponseString_wf:
  assumes "http_wf h es"
  shows "\<exists>K t. http_toResponseString h = Inr (grow K (response_text h es), h\<lparr>http_headers := t\<rparr>) \<and> ht_rep t es"
proof -
  from assms have rep: "ht_rep (http_headers h) es" and hs: "list_all header_ok es"
    and ok: "bytes_opt_ok (http_version h)" "bytes_opt_ok (http_responseCodeText h)" "bytes_opt_ok (http_body h)"
      "http_responseCode h < 65536"
    by (simp_all add: http_wf_def)
  let ?K = "Suc (40 + length es * 40 + (case http_body h of None \<Rightarrow> 0 | Some b \<Rightarrow> string_getSize b))"
  have r0: "string_setBufferSize string_create
      (40 + length es * 40 + (case http_body h of None \<Rightarrow> 0 | Some b \<Rightarrow> string_getSize b)) = Inr (grow ?K [])"
    by (simp add: setBufferSize_create grow_def cap_after_def)
  let ?a1 = "case http_version h of None \<Rightarrow> [] | Some v \<Rightarrow> ''HTTP/'' @ key_text v @ '' ''"
  have r1: "(case http_version h of None \<Rightarrow> Inr (grow ?K [])
          | Some version \<Rightarrow>
              bnd (string_appendBuffer (grow ?K []) (lit ''HTTP/'')) (\<lambda>r.
              bnd (string_append r version) (\<lambda>r. string_appendChar r SP))) = Inr (grow ?K ?a1)"
    using ok(1) by (cases "http_version h") (simp_all add: grow_simps bytes_opt_ok_def)
  have code: "string_fromInt (int (http_responseCode h)) = Inr (str (dec (http_responseCode h)))"
    using ok(4) by (rule url_fromInt)
  have opt: "(case p of None \<Rightarrow> Inr (grow K xs) | Some t \<Rightarrow> string_append (grow K xs) t)
      = Inr (grow K (xs @ (case p of None \<Rightarrow> [] | Some t \<Rightarrow> key_text t)))"
    if "bytes_opt_ok p" for p K xs
    using that by (cases p) (simp_all add: append_grow bytes_opt_ok_def)
  have hdr: "\<exists>t'. http_appendHeaders (length es) 0 (http_headers h) (grow K xs)
      = Inr (grow K (xs @ concat (map header_text es)), t') \<and> ht_rep t' es" for K xs
    using appendHeaders_grow [OF rep hs, of 0 "length es" K xs] by auto
  obtain t' where t': "http_appendHeaders (length es) 0 (http_headers h)
      (grow ?K (((?a1 @ dec (http_responseCode h)) @ '' '') @ (case http_responseCodeText h of None \<Rightarrow> [] | Some t \<Rightarrow> key_text t) @ CRLF))
      = Inr (grow ?K ((((?a1 @ dec (http_responseCode h)) @ '' '') @ (case http_responseCodeText h of None \<Rightarrow> [] | Some t \<Rightarrow> key_text t) @ CRLF)
         @ concat (map header_text es)), t')" "ht_rep t' es"
    using hdr by blast
  show ?thesis
    unfolding http_toResponseString_def Let_def ht_rep_length [OF rep] r0 bnd_Inr r1 code
    using t' by (simp add: grow_simps opt [OF ok(2)] opt [OF ok(3)] response_text_def) blast
qed


section \<open>Headers and the host\<close>

lemma setHeader_rep:
  assumes "ht_rep (http_headers h) es" and "key_ok k"
  shows "\<exists>t. http_setHeader h k v = Inr (h\<lparr>http_headers := t\<rparr>) \<and> ht_rep t (entries_set es k v)"
  using ht_rep_set [OF assms, of v] by (auto simp: http_setHeader_def)

lemma getHeader_rep:
  assumes "ht_rep (http_headers h) es" and "key_ok k"
  shows "\<exists>t. http_getHeader h k = Inr (Option.bind (entries_map es (key_hash k)) id, h\<lparr>http_headers := t\<rparr>)
    \<and> ht_rep t es"
  using ht_rep_get [OF assms] by (auto simp: http_getHeader_def)

lemma parseHeader_text:
  assumes "NUL \<notin> set (k @ v)" and "CHR '':'' \<notin> set k" and "v \<noteq> []" and "xs = k @ '': '' @ v"
  shows "http_parseHeader h (pad xs n) = bnd (http_setHeader h (str k) (Some (str v))) (\<lambda>h1. Inr (True, h1))"
proof -
  have f: "string_findNextChar (at (pad xs n) 0) (CHR '':'')
      = Inr (int (length k), at (pad xs n) (Suc (length k)))"
    using assms by (intro find_next_mid [of "[]" k _ "SP # v"]) auto
  have "string_substring (pad xs n) 0 (length k) = Inr (Some (str k))"
    using assms by (intro substring_mid [of _ "'': '' @ v" _ "[]"]) auto
  moreover have "string_substring (pad xs n) (Suc (Suc (length k))) (length xs) = Inr (Some (str v))"
    using assms by (intro substring_mid [of _ "[]" _ "k @ '': ''"]) auto
  moreover have "string_getCharAt (pad xs n) (Suc (length k)) = Inr SP"
    using assms by (simp add: getCharAt_pad nth_append)
  ultimately show ?thesis using f
    by (simp add: http_parseHeader_def nat_add_distrib string_getSize_def)
qed

lemma parseHeader_reject:
  assumes "NUL \<notin> set xs"
  shows "CHR '':'' \<notin> set xs \<Longrightarrow> http_parseHeader h (pad xs n) = Inr (False, h)"
    and "xs = k @ CHR '':'' # v \<Longrightarrow> CHR '':'' \<notin> set k \<Longrightarrow> v = [] \<or> hd v \<noteq> SP \<or> tl v = [] \<Longrightarrow>
         http_parseHeader h (pad xs n) = Inr (False, h)"
proof -
  show "CHR '':'' \<notin> set xs \<Longrightarrow> http_parseHeader h (pad xs n) = Inr (False, h)"
    using assms find_next_none [of xs "CHR '':''" 0 n] by (simp add: http_parseHeader_def)
next
  assume xs: "xs = k @ CHR '':'' # v" and k: "CHR '':'' \<notin> set k" and v: "v = [] \<or> hd v \<noteq> SP \<or> tl v = []"
  have f: "string_findNextChar (at (pad xs n) 0) (CHR '':'')
      = Inr (int (length k), at (pad xs n) (Suc (length k)))"
    using assms xs k by (intro find_next_mid [of "[]" k _ v]) auto
  show "http_parseHeader h (pad xs n) = Inr (False, h)"
  proof (cases v)
    case Nil
    with f xs show ?thesis by (simp add: http_parseHeader_def nat_add_distrib getCharAt_pad nth_append)
  next
    case (Cons c w)
    then show ?thesis using f xs v
      by (auto simp: http_parseHeader_def nat_add_distrib getCharAt_pad nth_append substring_pad string_getSize_def)
  qed
qed

text \<open>What \<^verbatim>\<open>http_parseHost\<close> does once the header is found.\<close>

lemma parseHost_found:
  assumes "ht_rep (http_headers h) es" and "entries_map es (crc32 ''Host'') = Some (Some (pad host k))"
    and "NUL \<notin> set host" and "0 < k" and "u = (case http_url h of None \<Rightarrow> url_create | Some u \<Rightarrow> u)"
  shows "\<exists>t. ht_rep t es
    \<and> (CHR '':'' \<notin> set host \<longrightarrow> http_parseHost h =
         Inr (True, h\<lparr>http_headers := t, http_url := Some (u\<lparr>url_port := 80, url_domainName := Some (str host)\<rparr>)\<rparr>))
    \<and> (\<forall>d p. host = d @ '':'' @ p \<and> CHR '':'' \<notin> set d \<longrightarrow> http_parseHost h =
         (if p = [] then Inl NullPointer
          else bnd (atoi (lit p)) (\<lambda>port.
            if port < 0 \<or> port > 2 ^ 16 then Inr (False, h\<lparr>http_headers := t, http_url := Some u\<rparr>)
            else Inr (True, h\<lparr>http_headers := t,
                   http_url := Some (u\<lparr>url_port := to_u16 port, url_domainName := Some (str d)\<rparr>)\<rparr>))))"
proof -
  have "key_hash (str ''Host'') = crc32 ''Host''" by (simp add: key_hash_def)
  then obtain t where t: "hash_table_getValue (http_headers h) (str ''Host'') = Inr (Some (pad host k), t)" "ht_rep t es"
    using ht_rep_get [OF assms(1), of "str ''Host''"] assms(2) by auto
  have dom: "url_setDomainName v d = Inr (v\<lparr>url_domainName := d\<rparr>)" for v d
    by (cases "url_domainName v") (simp_all add: url_setDomainName_def)
  note step = http_parseHost_def fromBuffer_lit t(1) Let_def dom url_setPort_def assms(5) [symmetric]
  have "http_parseHost h = Inr (True, h\<lparr>http_headers := t,
      http_url := Some (u\<lparr>url_port := 80, url_domainName := Some (str host)\<rparr>)\<rparr>)"
    if "CHR '':'' \<notin> set host"
    using that assms find_next_none [of host "CHR '':''" 0 k]
    by (simp add: step string_getBuffer_def string_fromBuffer_def strlen_padded fromBufferWithLength_eq)
  moreover have "http_parseHost h =
         (if p = [] then Inl NullPointer
          else bnd (atoi (lit p)) (\<lambda>port.
            if port < 0 \<or> port > 2 ^ 16 then Inr (False, h\<lparr>http_headers := t, http_url := Some u\<rparr>)
            else Inr (True, h\<lparr>http_headers := t,
                   http_url := Some (u\<lparr>url_port := to_u16 port, url_domainName := Some (str d)\<rparr>)\<rparr>)))"
    if host: "host = d @ '':'' @ p" and d: "CHR '':'' \<notin> set d" for d p
  proof -
    have f: "string_findNextChar (at (pad host k) 0) (CHR '':'')
        = Inr (int (length d), at (pad host k) (Suc (length d)))"
      using assms(3) host d by (intro find_next_mid [of "[]" d _ p]) auto
    have s: "string_substring (pad host k) 0 (length d) = Inr (Some (str d))"
      using host by (intro substring_mid [of _ "'':'' @ p" _ "[]"]) auto
    have n: "string_substring (pad host k) (Suc (length d)) (length host)
        = Inr (if p = [] then None else Some (str p))"
      using host by (auto simp: substring_pad)
    show ?thesis using assms(3) f s n
      by (simp add: step nat_add_distrib string_getSize_def string_getBuffer_def lit_def [of p] cong: if_cong)
  qed
  ultimately show ?thesis using t(2) by blast
qed


lemma ht_rep_single:
  assumes "NUL \<notin> set k"
  shows "\<exists>t. hash_table_setValue hash_table_create (str k) v = Inr (None, t)
    \<and> ht_rep t [\<lparr>ent_keyHash = crc32 k, ent_key = str k, ent_value = v\<rparr>]"
  using ht_rep_set [OF ht_rep_create, of "str k" v] assms
  by (auto simp: entries_set_def entries_map_def key_hash_def)

lemma http_create_rep: "ht_rep (http_headers http_create) []"
  by (simp add: http_create_def ht_rep_create)

lemma target_empty_value:
  assumes "NUL \<notin> set path" and "CHR ''?'' \<notin> set path" and "http_url h = Some u"
    and "ht_rep (url_parameters u) []"
  shows "\<exists>t. http_parseRequestTarget h (str (path @ ''?a=''))
      = Inr (True, h\<lparr>http_url := Some (u\<lparr>url_path := Some (str path), url_parameters := t\<rparr>)\<rparr>)
    \<and> ht_rep t [\<lparr>ent_keyHash = crc32 ''a'', ent_key = str ''a'', ent_value = None\<rparr>]"
proof -
  let ?xs = "path @ ''?a=''" and ?n = "length path"
  have f: "string_findNextChar (at (str ?xs) 0) (CHR ''?'') = Inr (int ?n, at (str ?xs) (Suc ?n))"
    using assms by (intro find_next_mid [of "[]" path _ "''a=''"]) auto
  have c: "string_getNextChar (at (str ?xs) (Suc ?n)) = Inr (CHR ''a'', at (str ?xs) (Suc (Suc ?n)))"
    by (simp add: getNextChar_at nth_append)
  have e: "string_findNextChar (at (str ?xs) (Suc (Suc ?n))) (CHR ''='')
      = Inr (int (Suc (Suc ?n)), at (str ?xs) (Suc (Suc (Suc ?n))))"
    using assms by (intro find_next_mid [of "path @ ''?a''" "[]" _ "[]"]) auto
  have a: "string_findNextChar (at (str ?xs) (Suc (Suc (Suc ?n)))) (CHR ''&'')
      = Inr (-1, at (str ?xs) (length ?xs))"
    using assms by (intro find_next_none) auto
  have s: "string_substring (str ?xs) 0 ?n = Inr (Some (str path))"
    "string_substring (str ?xs) (Suc ?n) (Suc (Suc ?n)) = Inr (Some (str ''a''))"
    "string_substring (str ?xs) (Suc (Suc (Suc ?n))) (Suc (Suc (Suc ?n))) = Inr None"
    by (simp_all add: substring_pad)
  have p: "url_setPath u x = Inr (u\<lparr>url_path := x\<rparr>)" for x
    by (cases "url_path u") (simp_all add: url_setPath_def)
  let ?u1 = "u\<lparr>url_path := Some (str path)\<rparr>"
  obtain t where t: "url_setParameter ?u1 (str ''a'') None = Inr (?u1\<lparr>url_parameters := t\<rparr>)"
    "ht_rep t [\<lparr>ent_keyHash = crc32 ''a'', ent_key = str ''a'', ent_value = None\<rparr>]"
    using set_param_new [of ?u1 "[]" "''a''" None] assms(4) by auto
  have "http_parseParameters ?u1 (str ?xs) (at (str ?xs) (Suc (Suc ?n))) (int ?n)
      = Inr (True, ?u1\<lparr>url_parameters := t\<rparr>)"
    using e a s t(1)
    by (simp add: http_parseParameters.simps [of ?u1] nat_add_distrib string_getSize_def numeral_3_eq_3)
  with f c s(1) p t(2) assms(3) show ?thesis by (simp add: http_parseRequestTarget_def) blast
qed

lemma url_free_null_value:
  assumes "ht_rep (url_parameters u) [\<lparr>ent_keyHash = crc32 k, ent_key = str k, ent_value = None\<rparr>]"
    and "NUL \<notin> set k"
  shows "url_free u = Inl NullPointer"
proof -
  let ?e = "\<lparr>ent_keyHash = crc32 k, ent_key = str k, ent_value = None\<rparr>"
  obtain t1 where t1: "hash_table_getKeyByIndex (url_parameters u) 0 = Inr (Some (str k), t1)" "ht_rep t1 [?e]"
    using entry_at [OF assms(1), of 0] by (auto simp: hash_table_getKeyByIndex_def)
  obtain t2 where "hash_table_removeValue t1 (str k) = Inr (None, t2)"
    using ht_rep_remove [OF t1(2), of "str k"] assms(2) by (auto simp: entries_map_def key_hash_def)
  then show ?thesis
    using t1(1) ht_rep_length [OF assms(1)] by (simp add: url_free_def string_free_def)
qed

text \<open>A request line without parameters.\<close>

lemma requestLine_plain:
  assumes "NUL \<notin> set (m @ path @ v)" and "SP \<notin> set m" and "m \<noteq> []" and "SP \<notin> set path"
    and "CHR ''?'' \<notin> set path" and "path \<noteq> []" and "version_text_ok v" and "http_url http = None"
  shows "http_parseRequestLine http (pad (m @ SP # path @ SP # v) k) =
    Inr (True, http\<lparr>http_method := method_of m, http_version := Some (str (take 3 (drop 5 v))),
      http_url := Some (url_create\<lparr>url_protocol := Some (str ''http''), url_path := Some (str path)\<rparr>)\<rparr>)"
proof -
  let ?u = "url_create\<lparr>url_protocol := Some (str ''http'')\<rparr>"
  have f: "string_findNextChar (at (str path) 0) (CHR ''?'') = Inr (-1, at (str path) (length path))"
    using assms by (intro find_next_none) auto
  have s: "string_substring (str path) 0 (length path) = Inr (Some (str path))"
    using assms(6) by (simp add: substring_pad)
  have p: "url_setPath ?u x = Inr (?u\<lparr>url_path := x\<rparr>)" for x
    by (simp add: url_setPath_def url_create_def)
  have t: "http_parseRequestTarget (http\<lparr>http_method := method_of m, http_url := Some ?u\<rparr>) (str path)
      = Inr (True, http\<lparr>http_method := method_of m, http_url := Some (?u\<lparr>url_path := Some (str path)\<rparr>)\<rparr>)"
    using f s p by (simp add: http_parseRequestTarget_def string_getSize_def)
  show ?thesis
    using request_line_two_spaces [of m path v url_create http k] parseVersion_eq [of v] assms t
    by (simp add: accum_accw_ne)
qed

section \<open>Properties\<close>

text \<open>C24. A request line \<^verbatim>\<open>METHOD path HTTP/d.d\<close> without parameters is accepted: the method is the
  one its text names, the path and the three version characters are stored, and the protocol of the
  URL is \<^verbatim>\<open>http\<close>.\<close>

theorem http_parseRequestLine_accepts:
  assumes "NUL \<notin> set (m @ path @ v)" and "SP \<notin> set m" and "m \<noteq> []" and "SP \<notin> set path"
    and "CHR ''?'' \<notin> set path" and "path \<noteq> []" and "version_text_ok v" and "http_url http = None"
  shows "http_parseRequestLine http (pad (m @ SP # path @ SP # v) k) =
    Inr (True, http\<lparr>http_method := method_of m, http_version := Some (str (take 3 (drop 5 v))),
      http_url := Some (url_create\<lparr>url_protocol := Some (str ''http''), url_path := Some (str path)\<rparr>)\<rparr>)"
  using assms by (rule requestLine_plain)

theorem http_parseRequestLine_accepts_witness:
  "\<exists>http. http_parseRequestLine http_create (str ''GET /a HTTP/1.1'') = Inr (True, http)
    \<and> http_method http = HTTP_METHOD_GET \<and> http_version http = Some (str ''1.1'')"
proof -
  have v: "version_text_ok ''HTTP/1.1''" by code_simp
  have m: "method_of ''GET'' = HTTP_METHOD_GET" by (simp add: method_of_def)
  show ?thesis
    using http_parseRequestLine_accepts [of "''GET''" "''/a''" "''HTTP/1.1''" http_create "Suc 0"] v m
    by (simp add: http_create_def)
qed



text \<open>A request line that starts with a space makes the server compare the null pointer with the
  method names.\<close>

theorem http_parseRequestLine_leading_space:
  assumes "NUL \<notin> set xs"
  shows "http_parseRequestLine http (str (SP # xs)) = Inl NullPointer"
  using readWord_at [of "SP # xs" 0 True "Suc 0" None] assms
  by (simp add: http_parseRequestLine_def accum_simps(1) parseMethod_create)

theorem http_parseRequestLine_leading_space_witness:
  "http_parseRequestLine http_create (str '' / HTTP/1.1'') = Inl NullPointer"
  using http_parseRequestLine_leading_space [of "''/ HTTP/1.1''"] by simp




text \<open>A request with an empty last parameter value is accepted, but the value is stored as the null
  pointer, and releasing the request dereferences it.\<close>

theorem http_empty_parameter_faults:
  assumes "NUL \<notin> set path" and "CHR ''?'' \<notin> set path" and "SP \<notin> set path"
  shows "\<exists>http. http_parseRequestLine http_create (str (''GET '' @ path @ ''?a= HTTP/1.1'')) = Inr (True, http)
    \<and> http_free http = Inl NullPointer"
proof -
  let ?xs = "path @ ''?a=''" and ?v = "''HTTP/1.1''"
  let ?u = "url_create\<lparr>url_protocol := Some (str ''http'')\<rparr>"
  let ?h = "http_create\<lparr>http_method := method_of ''GET'', http_url := Some ?u\<rparr>"
  have rep: "ht_rep (url_parameters ?u) []" by (simp add: url_create_def ht_rep_create)
  obtain t where t: "http_parseRequestTarget ?h (str ?xs)
      = Inr (True, ?h\<lparr>http_url := Some (?u\<lparr>url_path := Some (str path), url_parameters := t\<rparr>)\<rparr>)"
    "ht_rep t [\<lparr>ent_keyHash = crc32 ''a'', ent_key = str ''a'', ent_value = None\<rparr>]"
    using target_empty_value [OF assms(1,2) _ rep, of ?h] by auto
  let ?u2 = "?u\<lparr>url_path := Some (str path), url_parameters := t\<rparr>"
  have v: "version_text_ok ?v" by code_simp
  have l: "''GET '' @ path @ ''?a= HTTP/1.1'' = ''GET'' @ SP # ?xs @ SP # ?v" by simp
  have "http_parseRequestLine http_create (str (''GET'' @ SP # ?xs @ SP # ?v))
      = http_parseVersion (?h\<lparr>http_url := Some ?u2\<rparr>) (accum (accw None ?v))"
    using request_line_two_spaces [of "''GET''" ?xs ?v url_create http_create "Suc 0"] assms t(1)
    by (simp add: http_create_def accum_accw_ne)
  then have line: "http_parseRequestLine http_create (str (''GET '' @ path @ ''?a= HTTP/1.1''))
      = Inr (True, ?h\<lparr>http_url := Some ?u2, http_version := Some (str ''1.1'')\<rparr>)"
    unfolding l using parseVersion_eq [of ?v] v by simp
  have "url_free ?u2 = Inl NullPointer" using url_free_null_value [of ?u2 "''a''"] t(2) by simp
  then have "http_free (?h\<lparr>http_url := Some ?u2, http_version := Some (str ''1.1'')\<rparr>) = Inl NullPointer"
    by (simp add: http_free_def http_create_def ht_rep_length [OF ht_rep_create]
        ht_rep_free [OF ht_rep_create])
  with line show ?thesis by blast
qed

theorem http_empty_parameter_faults_witness:
  "\<exists>http. http_parseRequestLine http_create (str ''GET /?a= HTTP/1.1'') = Inr (True, http)
    \<and> http_free http = Inl NullPointer"
  using http_empty_parameter_faults [of "''/''"] by simp

text \<open>A header line \<^verbatim>\<open>Key: value\<close> is stored under its key, and looking the key up returns the value;
  a line without a colon, without a space after it or without a value is rejected and changes nothing.\<close>

theorem http_header_roundtrip:
  assumes "ht_rep (http_headers http) es" and "NUL \<notin> set (k @ v)" and "CHR '':'' \<notin> set k"
  shows "(v \<noteq> [] \<longrightarrow> (\<exists>http' http''. http_parseHeader http (pad (k @ '': '' @ v) n) = Inr (True, http')
            \<and> http_getHeader http' (str k) = Inr (Some (str v), http'')))
    \<and> http_parseHeader http (pad k n) = Inr (False, http)
    \<and> http_parseHeader http (pad (k @ '': '') n) = Inr (False, http)
    \<and> (v = [] \<or> hd v \<noteq> SP \<longrightarrow> http_parseHeader http (pad (k @ '':'' @ v) n) = Inr (False, http))"
proof (intro conjI impI)
  have k: "key_ok (str k)" "key_hash (str k) = crc32 k" using assms(2) by (simp_all add: key_hash_def)
  obtain t where t: "http_setHeader http (str k) (Some (str v)) = Inr (http\<lparr>http_headers := t\<rparr>)"
    "ht_rep t (entries_set es (str k) (Some (str v)))"
    using setHeader_rep [OF assms(1) k(1)] by blast
  have "ht_rep (http_headers (http\<lparr>http_headers := t\<rparr>)) (entries_set es (str k) (Some (str v)))" using t(2) by simp
  from getHeader_rep [OF this k(1)] t(1)
  show "\<exists>http' http''. http_parseHeader http (pad (k @ '': '' @ v) n) = Inr (True, http')
            \<and> http_getHeader http' (str k) = Inr (Some (str v), http'')" if "v \<noteq> []"
    using parseHeader_text [OF assms(2,3) that refl, of http n] by (auto simp: entries_map_set)
  show "http_parseHeader http (pad k n) = Inr (False, http)"
    using parseHeader_reject(1) [of k http n] assms by simp
  show "http_parseHeader http (pad (k @ '': '') n) = Inr (False, http)"
    using parseHeader_reject(2) [of "k @ '': ''" k "'' ''" http n] assms by simp
  show "http_parseHeader http (pad (k @ '':'' @ v) n) = Inr (False, http)" if "v = [] \<or> hd v \<noteq> SP"
    using parseHeader_reject(2) [of "k @ '':'' @ v" k v http n] assms that by auto
qed

theorem http_header_roundtrip_witness:
  "(\<exists>http' http''. http_parseHeader http_create (str ''Host: a'') = Inr (True, http')
     \<and> http_getHeader http' (str ''Host'') = Inr (Some (str ''a''), http''))
   \<and> http_parseHeader http_create (str ''Host:a'') = Inr (False, http_create)"
  using http_header_roundtrip [OF http_create_rep, of "''Host''" "''a''" "Suc 0"] by simp


text \<open>Every method but the unknown one survives printing and parsing, the unknown method has no
  text, and a text is parsed as a known method exactly when it is the text of that method.\<close>

theorem http_method_roundtrip:
  assumes "NUL \<notin> set m" and "0 < k"
  shows "(meth = HTTP_METHOD_UNKNOWN \<longleftrightarrow> http_methodToString meth = Inr None)
    \<and> (meth \<noteq> HTTP_METHOD_UNKNOWN \<longrightarrow>
        (http_parseMethod (pad m k) = Inr meth \<longleftrightarrow> http_methodToString meth = Inr (Some (str m))))"
  by (cases meth)
    (auto simp: http_methodToString_def fromBuffer_lit parseMethod_eq [OF assms(2,1)] method_of_def
      split: if_splits)

theorem http_method_roundtrip_witness:
  "http_parseMethod (str ''HEAD'') = Inr HTTP_METHOD_HEAD"
  using http_method_roundtrip [of "''HEAD''" "Suc 0" HTTP_METHOD_HEAD]
  by (simp add: http_methodToString_def fromBuffer_lit)

text \<open>C25. The text of a response: the status line with version, decimal code and reason phrase, one line
  per header in insertion order, an empty line, and the bytes of the body up to its first zero byte.\<close>

theorem http_response_text:
  assumes "http_wf http es"
  shows "\<exists>r http'. http_toResponseString http = Inr (r, http') \<and> content r = response_text http es"
  using toResponseString_wf [OF assms] by (auto simp: grow_def)

theorem http_response_text_witness:
  "\<exists>r http'. bnd (http_setResponseCode (http_create\<lparr>http_version := Some (str ''1.1'')\<rparr>) 404) http_toResponseString = Inr (r, http')
    \<and> content r = ''HTTP/1.1 404 Not Found'' @ CRLF @ CRLF"
proof -
  let ?h = "http_create\<lparr>http_version := Some (str ''1.1''), http_responseCode := 404,
      http_responseCodeText := Some (str ''Not Found'')\<rparr>"
  have h: "http_setResponseCode (http_create\<lparr>http_version := Some (str ''1.1'')\<rparr>) 404 = Inr ?h"
    by (simp add: http_setResponseCode_def codeToString_eq http_code_text_def http_code_texts_def)
  have d: "dec 404 = ''404''" by (simp add: dec.simps)
  have "http_wf ?h []"
    using http_create_rep by (simp add: http_wf_def bytes_opt_ok_def http_create_def)
  from http_response_text [OF this] show ?thesis
    unfolding h by (simp add: response_text_def d http_create_def)
qed

lemma setBody_rep:
  assumes "ht_rep (http_headers http) es" and "length b < 2 ^ 31"
  shows "\<exists>t. http_setBody http (Some (pad b k)) = Inr (http\<lparr>http_body := Some (pad b k), http_headers := t\<rparr>)
    \<and> ht_rep t (entries_set es (str ''Content-Length'') (Some (str (dec (length b)))))"
proof -
  have v: "string_fromInt (to_int32 (int (length b))) = Inr (str (dec (length b)))"
    using assms(2) by (simp add: string_fromInt_eq dec_int_def)
  obtain t where "http_setHeader (http\<lparr>http_body := Some (pad b k)\<rparr>) (str ''Content-Length'') (Some (str (dec (length b))))
      = Inr (http\<lparr>http_body := Some (pad b k), http_headers := t\<rparr>)"
    "ht_rep t (entries_set es (str ''Content-Length'') (Some (str (dec (length b)))))"
    using setHeader_rep [of "http\<lparr>http_body := Some (pad b k)\<rparr>" es "str ''Content-Length''"] assms(1) by auto
  then show ?thesis using v by (auto simp: http_setBody_def Let_def fromBuffer_lit string_getSize_def)
qed

text \<open>Setting a body of at most \<^verbatim>\<open>INT_MAX\<close> bytes sets the \<^verbatim>\<open>Content-Length\<close> header to its size in
  decimal; the response carries that many body bytes exactly when the body contains no zero byte.\<close>

theorem http_content_length:
  assumes "ht_rep (http_headers http) es" and "length b < 2 ^ 31" and "0 < k"
  shows "\<exists>http' http''. http_setBody http (Some (pad b k)) = Inr http'
    \<and> http_getHeader http' (str ''Content-Length'') = Inr (Some (str (dec (length b))), http'')
    \<and> (length (key_text (pad b k)) = length b \<longleftrightarrow> NUL \<notin> set b)"
proof -
  have k: "key_ok (str ''Content-Length'')" by simp
  let ?v = "Some (str (dec (length b)))"
  obtain t where t: "http_setBody http (Some (pad b k)) = Inr (http\<lparr>http_body := Some (pad b k), http_headers := t\<rparr>)"
    "ht_rep (http_headers (http\<lparr>http_body := Some (pad b k), http_headers := t\<rparr>)) (entries_set es (str ''Content-Length'') ?v)"
    using setBody_rep [OF assms(1,2)] by auto
  have "\<exists>http''. http_getHeader (http\<lparr>http_body := Some (pad b k), http_headers := t\<rparr>)
      (str ''Content-Length'') = Inr (?v, http'')" using getHeader_rep [OF t(2) k] by (auto simp: entries_map_set)
  moreover have "length (key_text (pad b k)) = length b \<longleftrightarrow> NUL \<notin> set b"
  proof
    assume n: "length (key_text (pad b k)) = length b"
    show "NUL \<notin> set b"
    proof
      assume "NUL \<in> set b"
      then obtain xs ys where "b = xs @ NUL # ys" "NUL \<notin> set xs" by (meson split_list_first)
      with n show False by (simp add: key_text_def)
    qed
  qed (use assms(3) in simp)
  ultimately show ?thesis using t(1) by blast
qed

theorem http_content_length_witness:
  "\<exists>http' http''. http_setBody http_create (Some (str ''ab'')) = Inr http'
    \<and> http_getHeader http' (str ''Content-Length'') = Inr (Some (str ''2''), http'')"
proof -
  have "dec 2 = ''2''" by (simp add: dec.simps)
  then show ?thesis
    using http_content_length [OF http_create_rep, of "''ab''" "Suc 0"] by (simp add: numeral_2_eq_2 [symmetric])
qed

text \<open>The host header sets domain and port of the URL: port 80 when there is none, the decimal port
  after the colon when it fits 16 bits, and a port above 65536 is rejected.\<close>

theorem http_parseHost_port:
  assumes "ht_rep (http_headers http) es" and "entries_map es (crc32 ''Host'') = Some (Some (str host))"
    and "NUL \<notin> set host" and "CHR '':'' \<notin> set d" and "p < 2 ^ 31"
  shows "(host = d \<longrightarrow> (\<exists>http' u. http_parseHost http = Inr (True, http') \<and> http_url http' = Some u
            \<and> url_port u = 80 \<and> url_domainName u = Some (str d)))
    \<and> (host = d @ '':'' @ dec p \<and> p < 65536 \<longrightarrow>
         (\<exists>http' u. http_parseHost http = Inr (True, http') \<and> http_url http' = Some u
            \<and> url_port u = p \<and> url_domainName u = Some (str d)))
    \<and> (host = d @ '':'' @ dec p \<and> 65536 < p \<longrightarrow> (\<exists>http'. http_parseHost http = Inr (False, http')))"
proof -
  define u where "u = (case http_url http of None \<Rightarrow> url_create | Some u \<Rightarrow> u)"
  obtain t where t: "CHR '':'' \<notin> set host \<longrightarrow> http_parseHost http =
         Inr (True, http\<lparr>http_headers := t, http_url := Some (u\<lparr>url_port := 80, url_domainName := Some (str host)\<rparr>)\<rparr>)"
    "\<forall>d p. host = d @ '':'' @ p \<and> CHR '':'' \<notin> set d \<longrightarrow> http_parseHost http =
         (if p = [] then Inl NullPointer
          else bnd (atoi (lit p)) (\<lambda>port.
            if port < 0 \<or> port > 2 ^ 16 then Inr (False, http\<lparr>http_headers := t, http_url := Some u\<rparr>)
            else Inr (True, http\<lparr>http_headers := t,
                   http_url := Some (u\<lparr>url_port := to_u16 port, url_domainName := Some (str d)\<rparr>)\<rparr>)))"
    using parseHost_found [OF assms(1-3) _ u_def] by auto
  have "atoi (lit (dec p)) = Inr (int p)" using atoi_dec [OF assms(5), of "[]"] by (simp add: lit_def)
  with t assms(4) show ?thesis by auto
qed

theorem http_parseHost_port_witness:
  "\<exists>http1 http2 u. http_setHeader http_create (str ''Host'') (Some (str ''a:8'')) = Inr http1
     \<and> http_parseHost http1 = Inr (True, http2) \<and> http_url http2 = Some u \<and> url_port u = 8"
proof -
  obtain t where t: "http_setHeader http_create (str ''Host'') (Some (str ''a:8'')) = Inr (http_create\<lparr>http_headers := t\<rparr>)"
    "ht_rep t (entries_set [] (str ''Host'') (Some (str ''a:8'')))"
    using setHeader_rep [OF http_create_rep, of "str ''Host''" "Some (str ''a:8'')"] by auto
  let ?h = "http_create\<lparr>http_headers := t\<rparr>"
  have rep: "ht_rep (http_headers ?h) (entries_set [] (str ''Host'') (Some (str ''a:8'')))" using t(2) by simp
  have m: "entries_map (entries_set [] (str ''Host'') (Some (str ''a:8''))) (crc32 ''Host'') = Some (Some (str ''a:8''))"
    by (simp add: entries_map_set key_hash_def)
  have "dec 8 = ''8''" by (simp add: dec.simps)
  then show ?thesis using http_parseHost_port [OF rep m, of "''a''" 8] t(1) by auto
qed

text \<open>The range check of the port is off by one and does not expect an empty port: port 65536 is
  accepted and becomes port 0, and a host that ends in a colon makes the server dereference null.\<close>

theorem http_parseHost_bad_port:
  assumes "ht_rep (http_headers http) es" and "entries_map es (crc32 ''Host'') = Some (Some (str (d @ '':'' @ p)))"
    and "NUL \<notin> set d" and "CHR '':'' \<notin> set d"
  shows "(p = [] \<longrightarrow> http_parseHost http = Inl NullPointer)
    \<and> (p = ''65536'' \<longrightarrow> (\<exists>http' u. http_parseHost http = Inr (True, http') \<and> http_url http' = Some u \<and> url_port u = 0))"
proof -
  have "atoi (lit ''65536'') = Inr 65536"
  proof -
    have "dec 65536 = ''65536''" by (simp add: dec.simps)
    then show ?thesis using atoi_dec [of 65536 "[]"] by (simp add: lit_def)
  qed
  moreover have "to_u16 65536 = 0" by (simp add: to_u16_def)
  ultimately show ?thesis
    using parseHost_found [OF assms(1,2) _ _ refl] assms(3,4) by fastforce
qed


theorem http_parseHost_bad_port_witness:
  "\<exists>http1. http_setHeader http_create (str ''Host'') (Some (str ''a:'')) = Inr http1
     \<and> http_parseHost http1 = Inl NullPointer"
proof -
  obtain t where t: "http_setHeader http_create (str ''Host'') (Some (str ''a:'')) = Inr (http_create\<lparr>http_headers := t\<rparr>)"
    "ht_rep t (entries_set [] (str ''Host'') (Some (str ''a:'')))"
    using setHeader_rep [OF http_create_rep, of "str ''Host''" "Some (str ''a:'')"] by auto
  let ?h = "http_create\<lparr>http_headers := t\<rparr>"
  have rep: "ht_rep (http_headers ?h) (entries_set [] (str ''Host'') (Some (str ''a:'')))" using t(2) by simp
  have m: "entries_map (entries_set [] (str ''Host'') (Some (str ''a:''))) (crc32 ''Host'')
      = Some (Some (str (''a'' @ '':'' @ [])))"
    by (simp add: entries_map_set key_hash_def)
  show ?thesis using http_parseHost_bad_port [OF rep m] t(1) by auto
qed

end
