(* ===== verification/Toml.thy ===== *)
theory Toml
  imports Prelude
begin

unbundle bit_operations_syntax

text \<open>
  The part of \<^verbatim>\<open>includes/tomlc99/toml.c\<close> that works on a parsed document: the
  tables and arrays with their lookups, and the conversion of raw values into booleans, integers and
  strings, with the UTF-8 encoding of escaped characters. Raw values and keys are C strings, here the
  characters before the terminator; reading one character behind the end yields the terminator.
  The lexer and the parser are in \<open>Toml_Parser\<close>.
\<close>

section \<open>UTF-8\<close>

text \<open>The continuation bytes of a character: \<open>n\<close> bytes of the form \<^verbatim>\<open>10xxxxxx\<close> added to \<open>v\<close>.\<close>

fun toml_utf8_tail :: "nat \<Rightarrow> nat \<Rightarrow> bytes \<Rightarrow> nat option exec" where
  "toml_utf8_tail 0 v buf = Inr (Some v)"
| "toml_utf8_tail (Suc n) v buf =
     bnd (load buf 0) (\<lambda>c.
       let i = of_char c :: nat in
       if 2 \<noteq> drop_bit 6 i then Inr None
       else toml_utf8_tail n (push_bit 6 v OR (i AND 0x3F)) (tl buf))"

text \<open>The result is the character and the number of bytes it takes, or nothing.\<close>

definition toml_utf8_to_ucs :: "bytes \<Rightarrow> nat \<Rightarrow> (nat \<times> nat) option exec" where
  "toml_utf8_to_ucs orig len =
     bnd (load orig 0) (\<lambda>c.
       let i = of_char c :: nat; buf = tl orig;
           more = (\<lambda>n v. if len < Suc n then Inr None
                        else bnd (toml_utf8_tail n v buf) (\<lambda>r. Inr (map_option (\<lambda>w. (w, Suc n)) r)))
       in if 0 = drop_bit 7 i then (if len < 1 then Inr None else Inr (Some (i, 1)))
          else if 0x6 = drop_bit 5 i then more 1 (i AND 0x1F)
          else if 0xE = drop_bit 4 i then more 2 (i AND 0x0F)
          else if 0x1E = drop_bit 3 i then more 3 (i AND 0x07)
          else if 0x3E = drop_bit 2 i then more 4 (i AND 0x03)
          else if 0x7E = drop_bit 1 i then more 5 (i AND 0x01)
          else Inr None)"

text \<open>The code is not negative where it is called; the bytes are narrowed to \<^verbatim>\<open>char\<close>.\<close>

definition toml_ucs_to_utf8 :: "nat \<Rightarrow> bytes option" where
  "toml_ucs_to_utf8 code =
     (let cont = (\<lambda>n. char_of (0x80 OR (drop_bit n code AND 0x3F)) :: char)
      in if 0xD800 \<le> code \<and> code \<le> 0xDFFF then None
         else if 0xFFFE \<le> code \<and> code \<le> 0xFFFF then None
         else if code \<le> 0x7F then Some [char_of code]
         else if code \<le> 0x7FF then Some [char_of (0xC0 OR drop_bit 6 code), cont 0]
         else if code \<le> 0xFFFF then Some [char_of (0xE0 OR drop_bit 12 code), cont 6, cont 0]
         else if code \<le> 0x1FFFFF then Some [char_of (0xF0 OR drop_bit 18 code), cont 12, cont 6, cont 0]
         else if code \<le> 0x3FFFFFF
           then Some [char_of (0xF8 OR drop_bit 24 code), cont 18, cont 12, cont 6, cont 0]
         else if code \<le> 0x7FFFFFFF
           then Some [char_of (0xFC OR drop_bit 30 code), cont 24, cont 18, cont 12, cont 6, cont 0]
         else None)"

section \<open>Tables and arrays\<close>

record toml_keyval_t =
  kv_key :: string
  kv_val :: string

text \<open>The key of the document's table is null. The elements of an array are values, arrays or tables,
  as its kind says; an empty array has none of the kinds.\<close>

datatype toml_table_t =
    Toml_Table (tab_key: "string option") (tab_implicit: bool) (tab_kval: "toml_keyval_t list")
      (tab_arr: "toml_array_t list") (tab_tab: "toml_table_t list")
and toml_array_t =
    Toml_Array (arr_key: "string option") (arr_kind: char) (arr_type: char) (arr_val: "string list")
      (arr_arr: "toml_array_t list") (arr_tab: "toml_table_t list")

definition toml_key_in :: "toml_table_t \<Rightarrow> nat \<Rightarrow> string option" where
  "toml_key_in tab keyidx =
     (if keyidx < length (tab_kval tab) then Some (kv_key (tab_kval tab ! keyidx))
      else let keyidx = keyidx - length (tab_kval tab) in
        if keyidx < length (tab_arr tab) then arr_key (tab_arr tab ! keyidx)
        else let keyidx = keyidx - length (tab_arr tab) in
          if keyidx < length (tab_tab tab) then tab_key (tab_tab tab ! keyidx)
          else None)"

definition toml_raw_in :: "toml_table_t \<Rightarrow> string \<Rightarrow> string option" where
  "toml_raw_in tab key = map_option kv_val (find (\<lambda>kv. key = kv_key kv) (tab_kval tab))"

definition toml_array_in :: "toml_table_t \<Rightarrow> string \<Rightarrow> toml_array_t option" where
  "toml_array_in tab key = find (\<lambda>a. Some key = arr_key a) (tab_arr tab)"

definition toml_table_in :: "toml_table_t \<Rightarrow> string \<Rightarrow> toml_table_t option" where
  "toml_table_in tab key = find (\<lambda>t. Some key = tab_key t) (tab_tab tab)"

definition toml_array_nelem :: "toml_array_t \<Rightarrow> nat" where
  "toml_array_nelem arr =
     (if arr_kind arr = CHR ''v'' then length (arr_val arr)
      else if arr_kind arr = CHR ''a'' then length (arr_arr arr)
      else if arr_kind arr = CHR ''t'' then length (arr_tab arr) else 0)"

definition toml_raw_at :: "toml_array_t \<Rightarrow> nat \<Rightarrow> string option" where
  "toml_raw_at arr idx =
     (if arr_kind arr \<noteq> CHR ''v'' then None
      else if \<not> idx < toml_array_nelem arr then None
      else Some (arr_val arr ! idx))"

definition toml_array_kind :: "toml_array_t \<Rightarrow> char" where
  "toml_array_kind arr = arr_kind arr"

definition toml_array_type :: "toml_array_t \<Rightarrow> char" where
  "toml_array_type arr =
     (if arr_kind arr \<noteq> CHR ''v'' then NUL else if toml_array_nelem arr = 0 then NUL else arr_type arr)"

definition toml_array_key :: "toml_array_t option \<Rightarrow> string option" where
  "toml_array_key arr = (case arr of None \<Rightarrow> None | Some a \<Rightarrow> arr_key a)"

definition toml_table_nkval :: "toml_table_t \<Rightarrow> nat" where
  "toml_table_nkval tab = length (tab_kval tab)"

definition toml_table_narr :: "toml_table_t \<Rightarrow> nat" where
  "toml_table_narr tab = length (tab_arr tab)"

definition toml_table_ntab :: "toml_table_t \<Rightarrow> nat" where
  "toml_table_ntab tab = length (tab_tab tab)"

definition toml_table_key :: "toml_table_t option \<Rightarrow> string option" where
  "toml_table_key tab = (case tab of None \<Rightarrow> None | Some t \<Rightarrow> tab_key t)"

definition toml_array_at :: "toml_array_t \<Rightarrow> nat \<Rightarrow> toml_array_t option" where
  "toml_array_at arr idx =
     (if arr_kind arr \<noteq> CHR ''a'' then None
      else if \<not> idx < toml_array_nelem arr then None else Some (arr_arr arr ! idx))"

definition toml_table_at :: "toml_array_t \<Rightarrow> nat \<Rightarrow> toml_table_t option" where
  "toml_table_at arr idx =
     (if arr_kind arr \<noteq> CHR ''t'' then None
      else if \<not> idx < toml_array_nelem arr then None else Some (arr_tab arr ! idx))"

section \<open>Raw values\<close>

definition char_at :: "string \<Rightarrow> nat \<Rightarrow> char" where
  "char_at s i = (if i < length s then s ! i else NUL)"

definition toml_rtob :: "string option \<Rightarrow> bool option" where
  "toml_rtob src =
     (case src of None \<Rightarrow> None
      | Some s \<Rightarrow> if s = ''true'' then Some True else if s = ''false'' then Some False else None)"

text \<open>\<^verbatim>\<open>strtoll\<close>: the value, whether it is out of range, and the text from \<^verbatim>\<open>endp\<close> on.\<close>

definition digit_of :: "char \<Rightarrow> nat option" where
  "digit_of c =
     (let n = of_char c :: nat in
      if 48 \<le> n \<and> n \<le> 57 then Some (n - 48)
      else if 97 \<le> n \<and> n \<le> 122 then Some (n - 87)
      else if 65 \<le> n \<and> n \<le> 90 then Some (n - 55) else None)"

definition in_base :: "nat \<Rightarrow> char \<Rightarrow> bool" where
  "in_base b c = (case digit_of c of None \<Rightarrow> False | Some d \<Rightarrow> d < b)"

definition base_val :: "nat \<Rightarrow> string \<Rightarrow> nat" where
  "base_val b ds = foldl (\<lambda>v c. b * v + the (digit_of c)) 0 ds"

definition strtoll :: "string \<Rightarrow> nat \<Rightarrow> int \<times> bool \<times> string" where
  "strtoll s base =
     (let t = dropWhile is_space s;
          neg = (t \<noteq> [] \<and> hd t = CHR ''-'');
          u = (if t \<noteq> [] \<and> (hd t = CHR ''-'' \<or> hd t = CHR ''+'') then tl t else t);
          hex = (base = 0 \<or> base = 16) \<and> char_at u 0 = CHR ''0'' \<and> char_at u 1 \<in> {CHR ''x'', CHR ''X''} \<and> in_base 16 (char_at u 2);
          w = (if hex then drop 2 u else u);
          b = (if hex then 16 else if base \<noteq> 0 then base else if char_at u 0 = CHR ''0'' then 8 else 10);
          ds = takeWhile (in_base b) w;
          v = (if neg then - int (base_val b ds) else int (base_val b ds))
      in if ds = [] then (0, False, s)
         else if v < - (2 ^ 63) then (- (2 ^ 63), True, drop (length ds) w)
         else if v \<ge> 2 ^ 63 then (2 ^ 63 - 1, True, drop (length ds) w)
         else (v, False, drop (length ds) w))"

text \<open>The loop that strips single underscores into a buffer with room for \<open>room\<close> characters; the result
  is the text that is left and the buffer, or nothing after two underscores in a row.\<close>

fun toml_rtoi_strip :: "string \<Rightarrow> nat \<Rightarrow> string \<Rightarrow> (string \<times> string) option" where
  "toml_rtoi_strip [] room buf = Some ([], buf)"
| "toml_rtoi_strip (ch # s) room buf =
     (if room = 0 then Some (ch # s, buf)
      else if ch = CHR ''_'' then
        (if char_at s 0 = CHR ''_'' then None else toml_rtoi_strip s room buf)
      else toml_rtoi_strip s (room - 1) (buf @ [ch]))"

definition toml_rtoi :: "string option \<Rightarrow> int option exec" where
  "toml_rtoi src =
     (case src of None \<Rightarrow> Inr None
      | Some src \<Rightarrow>
          let signed = (char_at src 0 = CHR ''+'' \<or> char_at src 0 = CHR ''-'');
              buf = (if signed then take 1 src else []);
              s = (if signed then drop 1 src else src)
          in if char_at s 0 = CHR ''_'' then Inr None
             else if char_at s 0 = CHR ''0'' \<and> char_at s 1 = NUL then Inr (Some 0)
             else if char_at s 0 = CHR ''0'' \<and> char_at s 1 \<notin> {CHR ''x'', CHR ''o'', CHR ''b''} then Inr None
             else
               let base = (if char_at s 0 \<noteq> CHR ''0'' then 0 else if char_at s 1 = CHR ''x'' then 16
                           else if char_at s 1 = CHR ''o'' then 8 else 2);
                   s = (if char_at s 0 = CHR ''0'' then drop 2 s else s)
               in (case toml_rtoi_strip s (100 - length buf) buf of
                     None \<Rightarrow> Inr None
                   | Some (rest, buf) \<Rightarrow>
                       if rest \<noteq> [] \<or> length buf = 100 then Inr None
                       else if src = [] then Inl OutOfBounds
                       else if last src = CHR ''_'' then Inr None
                       else (case strtoll buf base of (v, erange, endp) \<Rightarrow>
                               Inr (if erange \<or> endp \<noteq> [] then None else Some v))))"

section \<open>Strings\<close>

definition hex_digit :: "char \<Rightarrow> nat option" where
  "hex_digit c =
     (let n = of_char c :: nat in
      if 48 \<le> n \<and> n \<le> 57 then Some (n - 48) else if 65 \<le> n \<and> n \<le> 70 then Some (n - 65 + 10) else None)"

fun normalize_hex :: "nat \<Rightarrow> nat \<Rightarrow> string \<Rightarrow> (nat \<times> string) option" where
  "normalize_hex 0 ucs s = Some (ucs, s)"
| "normalize_hex (Suc n) ucs [] = None"
| "normalize_hex (Suc n) ucs (ch # s) =
     (case hex_digit ch of None \<Rightarrow> None | Some v \<Rightarrow> normalize_hex n (ucs * 16 + v) s)"

definition normalize_escape :: "char \<Rightarrow> char option" where
  "normalize_escape ch =
     map_of [(CHR ''b'', CHR 0x08), (CHR ''t'', CHR 0x09), (CHR ''n'', CHR 0x0A), (CHR ''f'', CHR 0x0C),
             (CHR ''r'', CHR 0x0D), (CHR 0x22, CHR 0x22), (CHR 0x5C, CHR 0x5C)] ch"

definition is_blank :: "char \<Rightarrow> bool" where
  "is_blank c \<longleftrightarrow> c \<in> set [SP, TAB, CR, LF]"

lemma normalize_hex_length: "normalize_hex n ucs s = Some (u, s') \<Longrightarrow> length s' \<le> length s"
  by (induction n ucs s rule: normalize_hex.induct) (auto split: option.splits)

text \<open>
  The text between \<^verbatim>\<open>sp\<close> and \<^verbatim>\<open>sq\<close>; the character at \<^verbatim>\<open>sq\<close> is the closing quote, so that looking one
  character ahead and skipping blanks stop there. The result is what is written to \<^verbatim>\<open>dst\<close> before its
  terminator, or nothing in the error cases.
\<close>

function normalize_string :: "bool \<Rightarrow> string \<Rightarrow> bytes option" where
  "normalize_string kill [] = Some []"
| "normalize_string kill (ch # sp) =
     (if ch \<noteq> CHR 0x5C then map_option (Cons ch) (normalize_string kill sp)
      else if sp = [] then None
      else if kill \<and> (hd sp = LF \<or> hd sp = CR \<and> char_at sp 1 = LF)
        then normalize_string kill (dropWhile is_blank sp)
      else if hd sp = CHR ''u'' \<or> hd sp = CHR ''U'' then
        (case normalize_hex (if hd sp = CHR ''u'' then 4 else 8) 0 (tl sp) of
           None \<Rightarrow> None
         | Some (ucs, sp') \<Rightarrow>
             (case toml_ucs_to_utf8 ucs of
                None \<Rightarrow> None
              | Some n \<Rightarrow> map_option (append n) (normalize_string kill sp')))
      else (case normalize_escape (hd sp) of
              None \<Rightarrow> None
            | Some c \<Rightarrow> map_option (Cons c) (normalize_string kill (tl sp))))"
  by pat_completeness auto
termination
proof (relation "measure (\<lambda>(_, s). length s)", goal_cases)
  case (3 kill ch sp)
  then show ?case using length_dropWhile_le [of is_blank sp] by simp
next
  case (4 kill ch sp p ucs sp' n)
  then have "length sp' \<le> length (tl sp)" using normalize_hex_length by (metis prod.inject)
  then show ?case using 4 by (cases sp) auto
next
  case (5 kill ch sp c)
  then show ?case by (cases sp) auto
qed auto

text \<open>Removing every backslash that is followed by \<open>nl\<close>, together with the blanks behind it.\<close>

function kill_round :: "string \<Rightarrow> string \<Rightarrow> string" where
  "kill_round nl [] = []"
| "kill_round nl (c # s) =
     (if c = CHR 0x5C \<and> take (length nl) s = nl then kill_round nl (dropWhile is_blank s)
      else c # kill_round nl s)"
  by pat_completeness auto
termination
  by (relation "measure (\<lambda>(_, s). length s)") (auto simp: le_imp_less_Suc length_dropWhile_le)

definition kill_line_ending_backslash :: "string \<Rightarrow> string" where
  "kill_line_ending_backslash s = kill_round [CR, LF] (kill_round [LF] s)"

definition skip_newline :: "string \<Rightarrow> string" where
  "skip_newline sp =
     (if char_at sp 0 = LF then drop 1 sp
      else if char_at sp 0 = CR \<and> char_at sp 1 = LF then drop 2 sp else sp)"

text \<open>The text between quotes \<open>q\<close> of length one or three, if the raw value ends with them too.\<close>

definition unquote :: "string \<Rightarrow> string \<Rightarrow> string option" where
  "unquote q src =
     (if length q + length q \<le> length src \<and> drop (length src - length q) src = q
      then Some (take (length src - length q - length q) (drop (length q) src)) else None)"

definition toml_rtos :: "string option \<Rightarrow> bytes option" where
  "toml_rtos src =
     (case src of None \<Rightarrow> None
      | Some src \<Rightarrow>
          if char_at src 0 \<noteq> CHR 0x27 \<and> char_at src 0 \<noteq> CHR 0x22 then None
          else if char_at src 0 = CHR 0x27 then
            (if take 3 src = replicate 3 (CHR 0x27)
             then map_option (\<lambda>b. lit (kill_line_ending_backslash (skip_newline b))) (unquote (replicate 3 (CHR 0x27)) src)
             else map_option lit (unquote [CHR 0x27] src))
          else
            (case (if take 3 src = replicate 3 (CHR 0x22)
                   then map_option skip_newline (unquote (replicate 3 (CHR 0x22)) src)
                   else unquote [CHR 0x22] src) of
               None \<Rightarrow> None
             | Some body \<Rightarrow> map_option lit (normalize_string True body)))"

section \<open>UTF-8 as arithmetic\<close>

lemma push_bit_or: "x < 2 ^ n \<Longrightarrow> push_bit n a OR x = a * 2 ^ n + (x :: nat)"
proof -
  assume "x < 2 ^ n"
  then have "take_bit n x = x" by (simp add: take_bit_nat_eq_self)
  then have "\<not> bit (push_bit n a) i \<or> \<not> bit x i" for i
    by (metis bit_push_bit_iff_nat bit_take_bit_iff linorder_not_le)
  then have "push_bit n a + x = push_bit n a OR x" by (rule disjunctive_add)
  then show ?thesis by (simp add: push_bit_eq_mult)
qed

lemma lead_or: "x < 2 ^ n \<Longrightarrow> m = a * 2 ^ n \<Longrightarrow> m OR x = m + (x :: nat)"
  using push_bit_or [of x n a] by (simp add: push_bit_eq_mult)

lemma and_3F: "(x :: nat) AND 0x3F = x mod 64"
  using take_bit_eq_mask [of 6 x] by (simp add: mask_eq_exp_minus_1 take_bit_eq_mod)

lemma cont_byte:
  "of_char (char_of (0x80 OR ((x :: nat) AND 0x3F)) :: char) = (128 + x mod 64 :: nat)"
proof -
  have "0x80 OR (x mod 64) = 128 + x mod 64" using lead_or [of "x mod 64" 6 128 2] by simp
  moreover have "128 + x mod 64 < 256" by (simp add: less_Suc_eq_le add_less_mono)
  ultimately show ?thesis by (simp add: and_3F take_bit_nat_eq_self)
qed

lemma mod_add_128: "(128 + y) mod 64 = y mod (64 :: nat)"
  using mod_mult_self2 [of y 64 2] by (simp add: add.commute)

definition cont_bytes :: "nat \<Rightarrow> nat \<Rightarrow> bytes" where
  "cont_bytes code n = map (\<lambda>j. char_of (0x80 OR (drop_bit (6 * j) code AND 0x3F))) (rev [0..<n])"

lemma tail_cont: "toml_utf8_tail n (code div 64 ^ n) (cont_bytes code n @ rest) = Inr (Some code)"
proof (induction n)
  case (Suc n)
  let ?i = "128 + code div 64 ^ n mod 64"
  have l: "load (cont_bytes code (Suc n) @ rest) 0 = Inr (char_of (0x80 OR (drop_bit (6 * n) code AND 0x3F)))"
    and tl: "tl (cont_bytes code (Suc n) @ rest) = cont_bytes code n @ rest"
    by (simp_all add: cont_bytes_def load_def)
  have d: "drop_bit (6 * n) code = code div 64 ^ n" by (simp add: drop_bit_eq_div power_mult)
  have i: "drop_bit 6 ?i = 2" "?i AND 0x3F = code div 64 ^ n mod 64"
    using mod_add_128 [of "code div 64 ^ n mod 64"] by (simp_all add: drop_bit_eq_div and_3F)
  have "push_bit 6 (code div 64 ^ Suc n) OR (code div 64 ^ n mod 64) = code div 64 ^ n div 64 * 64 + code div 64 ^ n mod 64"
    using push_bit_or [of "code div 64 ^ n mod 64" 6 "code div 64 ^ Suc n"]
    by (simp add: div_mult2_eq [symmetric] mult.commute)
  also have "\<dots> = code div 64 ^ n" by simp
  finally show ?case
    using Suc.IH by (simp add: l tl cont_byte d Let_def i del: power_Suc of_char_of)
qed (simp add: cont_bytes_def)

lemma lead_byte:
  assumes "code div 64 ^ n < 2 ^ k" and "m = a * 2 ^ k" and "m + 2 ^ k \<le> 256"
  shows "of_char (char_of (m OR drop_bit (6 * n) code) :: char) = (m + code div 64 ^ n :: nat)"
proof -
  have "drop_bit (6 * n) code = code div 64 ^ n" by (simp add: drop_bit_eq_div power_mult)
  then have "m OR drop_bit (6 * n) code = m + code div 64 ^ n" using lead_or [OF assms(1,2)] by simp
  moreover have "m + code div 64 ^ n < 256" using assms(1,3) by simp
  ultimately show ?thesis by (simp add: take_bit_nat_eq_self)
qed

lemma and_low: "(x :: nat) AND (2 ^ k - 1) = x mod 2 ^ k"
  using take_bit_eq_mask [of k x] by (simp add: mask_eq_exp_minus_1 take_bit_eq_mod)

lemmas and_lows = and_low [of _ 5, simplified] and_low [of _ 4, simplified] and_low [of _ 3, simplified]
  and_low [of _ 2, simplified] and_low [of _ 1, simplified]

lemma eq_div: "0 < d \<Longrightarrow> (q :: nat) = i div d \<longleftrightarrow> q * d \<le> i \<and> i < q * d + d"
  by (metis div_less_iff_less_mult div_times_less_eq_dividend div_nat_eqI mult.commute mult_Suc_right
      add.commute less_Suc_eq_le order.refl linorder_not_less)

lemma lead_mod: "x < p \<Longrightarrow> (a * p + x) mod p = (x :: nat)"
  by simp

lemma decode_multi:
  assumes "of_char c = (m + code div 64 ^ n :: nat)" and "code div 64 ^ n < 2 ^ k"
    and "(m, n, k) \<in> {(0xC0, 1, 5), (0xE0, 2, 4), (0xF0, 3, 3), (0xF8, 4, 2), (0xFC, 5, 1)}" and "Suc n \<le> len"
  shows "toml_utf8_to_ucs (c # cont_bytes code n @ rest) len = Inr (Some (code, Suc n))"
proof -
  define x where "x = code div 64 ^ n"
  have c: "of_char c = m + x" and x: "x < 2 ^ k" using assms(1,2) by (simp_all add: x_def)
  have "toml_utf8_to_ucs (c # cont_bytes code n @ rest) len
      = bnd (toml_utf8_tail n x (cont_bytes code n @ rest)) (\<lambda>r. Inr (map_option (\<lambda>w. (w, Suc n)) r))"
    using assms(3)
  proof (elim insertE emptyE)
    assume "(m, n, k) = (0xC0, 1, 5)"
    then show ?thesis using c x assms(4) lead_mod [of x 32 6]
      by (simp add: toml_utf8_to_ucs_def load_def Let_def drop_bit_eq_div eq_div and_lows)
  next
    assume "(m, n, k) = (0xE0, 2, 4)"
    then show ?thesis using c x assms(4) lead_mod [of x 16 14]
      by (simp add: toml_utf8_to_ucs_def load_def Let_def drop_bit_eq_div eq_div and_lows)
  next
    assume "(m, n, k) = (0xF0, 3, 3)"
    then show ?thesis using c x assms(4) lead_mod [of x 8 30]
      by (simp add: toml_utf8_to_ucs_def load_def Let_def drop_bit_eq_div eq_div and_lows)
  next
    assume "(m, n, k) = (0xF8, 4, 2)"
    then show ?thesis using c x assms(4) lead_mod [of x 4 62]
      by (simp add: toml_utf8_to_ucs_def load_def Let_def drop_bit_eq_div eq_div and_lows)
  next
    assume "(m, n, k) = (0xFC, 5, 1)"
    then show ?thesis using c x assms(4) lead_mod [of x 2 126]
      by (simp add: toml_utf8_to_ucs_def load_def Let_def drop_bit_eq_div eq_div and_lows)
  qed
  with tail_cont [of n code rest] show ?thesis by (simp add: x_def)
qed

lemma cont_bytes_Suc: "cont_bytes code (Suc n) = char_of (0x80 OR (drop_bit (6 * n) code AND 0x3F)) # cont_bytes code n"
  by (simp add: cont_bytes_def)

lemma cont_bytes_0: "cont_bytes code 0 = []"
  by (simp add: cont_bytes_def)

lemma cont_bytes_eqs:
  fixes code :: nat
  defines "cb \<equiv> \<lambda>n. char_of (0x80 OR (drop_bit n code AND 0x3F)) :: char"
  shows "cont_bytes code 1 = [cb 0]" "cont_bytes code 2 = [cb 6, cb 0]" "cont_bytes code 3 = [cb 12, cb 6, cb 0]"
    "cont_bytes code 4 = [cb 18, cb 12, cb 6, cb 0]" "cont_bytes code 5 = [cb 24, cb 18, cb 12, cb 6, cb 0]"
  using cont_bytes_Suc [of code 0] cont_bytes_Suc [of code 1] cont_bytes_Suc [of code 2] cont_bytes_Suc [of code 3]
    cont_bytes_Suc [of code 4] cont_bytes_0 [of code]
  by (simp_all add: cb_def numeral_2_eq_2 [symmetric])

lemma ucs_multi:
  assumes "0x7F < code" and "code \<le> 0x7FFFFFFF" and "\<not> (0xD800 \<le> code \<and> code \<le> 0xDFFF)" and "\<not> (0xFFFE \<le> code \<and> code \<le> 0xFFFF)"
  shows "\<exists>m n k a. toml_ucs_to_utf8 code = Some (char_of (m OR drop_bit (6 * n) code) # cont_bytes code n)
    \<and> code div 64 ^ n < 2 ^ k \<and> m = a * 2 ^ k \<and> m + 2 ^ k \<le> 256
    \<and> (m, n, k) \<in> {(0xC0, 1, 5), (0xE0, 2, 4), (0xF0, 3, 3), (0xF8, 4, 2), (0xFC, 5, 1)}"
proof -
  have f: "(0xD800 \<le> code \<and> code \<le> 0xDFFF) = False" "(0xFFFE \<le> code \<and> code \<le> 0xFFFF) = False" "(code \<le> 0x7F) = False"
    using assms by (simp_all only: not_less [symmetric]) blast+
  note enc = toml_ucs_to_utf8_def Let_def f if_True if_False cont_bytes_eqs
  have up: "(code \<le> b) = False \<Longrightarrow> c \<le> b \<Longrightarrow> (code \<le> c) = False" for b c by auto
  consider "code \<le> 0x7FF" | "(code \<le> 0x7FF) = False" "code \<le> 0xFFFF" | "(code \<le> 0xFFFF) = False" "code \<le> 0x1FFFFF"
    | "(code \<le> 0x1FFFFF) = False" "code \<le> 0x3FFFFFF" | "(code \<le> 0x3FFFFFF) = False"
    by blast
  then show ?thesis
  proof cases
    case 1
    then have "toml_ucs_to_utf8 code = Some (char_of (0xC0 OR drop_bit (6 * 1) code) # cont_bytes code 1)"
      "code div 64 ^ 1 < 2 ^ 5"
      by (simp_all only: enc) (simp_all add: div_less_iff_less_mult)
    then show ?thesis by (intro exI [of _ "0xC0"] exI [of _ 1] exI [of _ 5] exI [of _ 6] conjI) (assumption | simp)+
  next
    case 2
    have "toml_ucs_to_utf8 code = Some (char_of (0xE0 OR drop_bit (6 * 2) code) # cont_bytes code 2)"
      unfolding toml_ucs_to_utf8_def Let_def f 2(1) if_False cont_bytes_eqs using 2(2) by simp
    moreover have "code div 64 ^ 2 < 2 ^ 4" using 2(2) by (simp add: div_less_iff_less_mult)
    ultimately show ?thesis by (intro exI [of _ "0xE0"] exI [of _ 2] exI [of _ 4] exI [of _ 14] conjI) (assumption | simp)+
  next
    case 3
    note lo = 3(1) up [OF 3(1), of "0x7FF", simplified]
    from 3(2) have "toml_ucs_to_utf8 code = Some (char_of (0xF0 OR drop_bit (6 * 3) code) # cont_bytes code 3)"
      "code div 64 ^ 3 < 2 ^ 3"
      by (simp_all only: enc lo) (simp_all add: div_less_iff_less_mult)
    then show ?thesis by (intro exI [of _ "0xF0"] exI [of _ 3] exI [of _ 3] exI [of _ 30] conjI) (assumption | simp)+
  next
    case 4
    note lo = 4(1) up [OF 4(1), of "0x7FF", simplified] up [OF 4(1), of "0xFFFF", simplified]
    from 4(2) have "toml_ucs_to_utf8 code = Some (char_of (0xF8 OR drop_bit (6 * 4) code) # cont_bytes code 4)"
      "code div 64 ^ 4 < 2 ^ 2"
      by (simp_all only: enc lo) (simp_all add: div_less_iff_less_mult)
    then show ?thesis by (intro exI [of _ "0xF8"] exI [of _ 4] exI [of _ 2] exI [of _ 62] conjI) (assumption | simp)+
  next
    case 5
    note lo = 5 up [OF 5, of "0x7FF", simplified] up [OF 5, of "0xFFFF", simplified] up [OF 5, of "0x1FFFFF", simplified]
    from assms(2) have "toml_ucs_to_utf8 code = Some (char_of (0xFC OR drop_bit (6 * 5) code) # cont_bytes code 5)"
      "code div 64 ^ 5 < 2 ^ 1"
      by (simp_all only: enc lo) (simp_all add: div_less_iff_less_mult)
    then show ?thesis by (intro exI [of _ "0xFC"] exI [of _ 5] exI [of _ 1] exI [of _ 126] conjI) (assumption | simp)+
  qed
qed

section \<open>Integers\<close>

lemma hd_dec_0: "0 < n \<Longrightarrow> hd (dec n) \<noteq> CHR ''0''"
proof (induction n rule: dec.induct)
  case (1 n)
  show ?case
  proof (cases "n < 10")
    case True
    have "of_char (digit_char n) \<noteq> (of_char (CHR ''0'') :: nat)" using True 1(2) by (simp add: of_char_digit)
    then show ?thesis using True by (auto simp: dec.simps [of n])
  next
    case False
    with 1 have "hd (dec (n div 10)) \<noteq> CHR ''0''" by simp
    then show ?thesis using False by (simp add: dec.simps [of n])
  qed
qed

lemma digit_of_digit: "is_digit c \<Longrightarrow> digit_of c = Some (digit_val c) \<and> digit_val c < 10"
  by (auto simp: is_digit_def digit_of_def digit_val_def Let_def)

lemma base_val_dec: "list_all is_digit ds \<Longrightarrow> base_val 10 ds = dec_val ds"
  unfolding base_val_def dec_val_def
  by (induction ds rule: rev_induct) (auto simp: digit_of_digit)

lemma strip_digits:
  "CHR ''_'' \<notin> set ds \<Longrightarrow> length ds \<le> room \<Longrightarrow> toml_rtoi_strip ds room buf = Some ([], buf @ ds)"
  by (induction ds arbitrary: room buf) auto

lemma dec_facts:
  assumes "0 < n" and "n \<le> 2 ^ 63"
  shows "list_all is_digit (dec n)" "CHR ''_'' \<notin> set (dec n)" "length (dec n) < 99" "char_at (dec n) 0 \<noteq> CHR ''0''"
    "is_digit (char_at (dec n) 0)" "is_digit (last (dec n))" "takeWhile (in_base 10) (dec n) = dec n"
proof -
  show a: "list_all is_digit (dec n)" using dec_all_digits [of n] by (simp add: list_all_iff)
  show "CHR ''_'' \<notin> set (dec n)" using a by (auto simp: list_all_iff is_digit_def)
  show "length (dec n) < 99" using length_dec [of n 18] assms by simp
  show "char_at (dec n) 0 \<noteq> CHR ''0''" "is_digit (char_at (dec n) 0)"
    using hd_dec_0 [OF assms(1)] hd_dec_digit [of n] by (simp_all add: char_at_def hd_conv_nth)
  show "is_digit (last (dec n))" using a by (auto simp: list_all_iff)
  show "takeWhile (in_base 10) (dec n) = dec n"
    using a digit_of_digit by (subst takeWhile_eq_all_conv) (auto simp: list_all_iff in_base_def)
qed

lemma strtoll_dec:
  assumes "0 < n" and "if neg then n \<le> 2 ^ 63 else n < 2 ^ 63"
  shows "strtoll ((if neg then ''-'' else []) @ dec n) 0 = (if neg then - int n else int n, False, [])"
proof -
  have n: "n \<le> 2 ^ 63" using assms(2) by (simp split: if_splits)
  note f = dec_facts [OF assms(1) n]
  have h: "dec n \<noteq> []" "\<not> is_space (hd (dec n))" "hd (dec n) \<noteq> CHR ''-''" "hd (dec n) \<noteq> CHR ''+''"
    using is_digit_cases [OF hd_dec_digit [of n]] by auto
  have v: "base_val 10 (dec n) = n" using base_val_dec [OF f(1)] by simp
  have d: "dropWhile is_space (dec n) = dec n" by simp
  have m: "\<not> is_space (CHR ''-'')" by (simp add: is_space_def)
  show ?thesis
  proof (cases neg)
    case True
    then show ?thesis using assms(2) f(4) h v m by (simp add: strtoll_def Let_def f(7))
  next
    case False
    then show ?thesis using assms(2) f(4) h v d by (simp add: strtoll_def Let_def f(7))
  qed
qed

lemma rtoi_dec_int:
  assumes "- (2 ^ 63) \<le> i" and "i < 2 ^ 63"
  shows "toml_rtoi (Some (dec_int i)) = Inr (Some i)"
proof (cases "i = 0")
  case True
  then show ?thesis by (simp add: dec_int_def dec.simps toml_rtoi_def char_at_def)
next
  case False
  define n neg where "n = nat \<bar>i\<bar>" and "neg = (i < 0)"
  have i: "dec_int i = (if neg then ''-'' else []) @ dec n" "(if neg then - int n else int n) = i"
    using False by (auto simp: dec_int_def n_def neg_def)
  have n: "0 < n" "if neg then n \<le> 2 ^ 63 else n < 2 ^ 63" using False assms by (auto simp: n_def neg_def)
  then have le: "n \<le> 2 ^ 63" by (simp split: if_splits)
  note f = dec_facts [OF n(1) le]
  have c: "char_at (dec n) 0 \<noteq> CHR ''+''" "char_at (dec n) 0 \<noteq> CHR ''-''" "char_at (dec n) 0 \<noteq> CHR ''_''" "last (dec n) \<noteq> CHR ''_''"
    using f(5,6) by (auto simp: is_digit_def)
  have s: "strtoll ((if neg then ''-'' else []) @ dec n) 0 = (i, False, [])" using strtoll_dec [OF n] i(2) by simp
  show ?thesis
  proof (cases neg)
    case True
    have "char_at (CHR ''-'' # dec n) 0 = CHR ''-''" by (simp add: char_at_def)
    then show ?thesis using True i(1) f c s strip_digits [OF f(2), of 99 "''-''"]
      by (simp add: toml_rtoi_def Let_def)
  next
    case False
    then show ?thesis using i(1) f c s strip_digits [OF f(2), of 100 "[]"]
      by (simp add: toml_rtoi_def Let_def)
  qed
qed

section \<open>Quoting\<close>

text \<open>How a character is written in a basic string.\<close>

definition toml_escape :: "char \<Rightarrow> string" where
  "toml_escape c =
     (if c = CHR 0x5C \<or> c = CHR 0x22 then [CHR 0x5C, c]
      else case map_of [(LF, CHR ''n''), (CR, CHR ''r''), (TAB, CHR ''t''), (CHR 0x08, CHR ''b''), (CHR 0x0C, CHR ''f'')] c of
             Some e \<Rightarrow> [CHR 0x5C, e] | None \<Rightarrow> [c])"

lemma normalize_escaped: "normalize_string kill (concat (map toml_escape s)) = Some s"
proof (induction s)
  case (Cons c s)
  then show ?case by (auto simp: toml_escape_def normalize_escape_def split: option.splits if_splits)
qed simp

lemma escape_head: "concat (map toml_escape s) = [] \<or> hd (concat (map toml_escape s)) \<noteq> CHR 0x22"
  by (cases s) (auto simp: toml_escape_def split: option.splits)

lemma unquote_single: "unquote [q] (q # s @ [q]) = Some s"
  by (simp add: unquote_def)

lemma not_triple: "s = [] \<or> hd s \<noteq> q \<Longrightarrow> take 3 (q # s @ [q]) \<noteq> replicate 3 q"
  by (cases s) (auto simp: numeral_3_eq_3)

section \<open>Properties\<close>

text \<open>C35. Every character code up to \<^verbatim>\<open>0x7FFFFFFF\<close> that is neither a surrogate nor one of the two
  non-characters is encoded in one to six bytes, and decoding these bytes, whatever follows them, gives
  the code and their number again; all other codes are refused.\<close>

theorem toml_utf8_roundtrip:
  "(if code \<le> 0x7FFFFFFF \<and> \<not> (0xD800 \<le> code \<and> code \<le> 0xDFFF) \<and> \<not> (0xFFFE \<le> code \<and> code \<le> 0xFFFF)
    then \<exists>bs. toml_ucs_to_utf8 code = Some bs \<and> 1 \<le> length bs \<and> length bs \<le> 6
           \<and> toml_utf8_to_ucs (bs @ rest) (length bs) = Inr (Some (code, length bs))
    else toml_ucs_to_utf8 code = None)"
proof (cases "code \<le> 0x7FFFFFFF \<and> \<not> (0xD800 \<le> code \<and> code \<le> 0xDFFF) \<and> \<not> (0xFFFE \<le> code \<and> code \<le> 0xFFFF)")
  case valid: True
  have "\<exists>bs. toml_ucs_to_utf8 code = Some bs \<and> 1 \<le> length bs \<and> length bs \<le> 6
           \<and> toml_utf8_to_ucs (bs @ rest) (length bs) = Inr (Some (code, length bs))"
  proof (cases "code \<le> 0x7F")
    case True
    then show ?thesis
      by (intro exI [of _ "[char_of code]"])
        (simp add: toml_ucs_to_utf8_def toml_utf8_to_ucs_def load_def Let_def drop_bit_eq_div take_bit_nat_eq_self)
  next
    case False
    then obtain m n k a where mn: "toml_ucs_to_utf8 code = Some (char_of (m OR drop_bit (6 * n) code) # cont_bytes code n)"
      "code div 64 ^ n < 2 ^ k" "m = a * 2 ^ k" "m + 2 ^ k \<le> 256"
      "(m, n, k) \<in> {(0xC0, 1, 5), (0xE0, 2, 4), (0xF0, 3, 3), (0xF8, 4, 2), (0xFC, 5, 1)}"
      using ucs_multi [of code] valid by auto
    have "length (cont_bytes code n) = n" "n \<le> 5" using mn(5) by (auto simp: cont_bytes_def)
    with mn(1) decode_multi [OF lead_byte [OF mn(2-4)] mn(2,5), of "Suc n" rest] show ?thesis by simp
  qed
  with valid show ?thesis by simp
next
  case False
  then show ?thesis by (auto simp: toml_ucs_to_utf8_def Let_def)
qed

text \<open>Every 64-bit integer written in decimal is read back from its raw value.\<close>

theorem toml_int_roundtrip:
  assumes "- (2 ^ 63) \<le> i" and "i < 2 ^ 63"
  shows "toml_rtoi (Some (dec_int i)) = Inr (Some i)"
  using assms by (rule rtoi_dec_int)

theorem toml_int_roundtrip_witness: "toml_rtoi (Some ''-8080'') = Inr (Some (-8080))"
  using toml_int_roundtrip [of "-8080"] by (simp add: dec_int_def dec.simps)

lemma rtos_literal: "CHR 0x27 \<notin> set s \<Longrightarrow> toml_rtos (Some (CHR 0x27 # s @ [CHR 0x27])) = Some (lit s)"
proof -
  assume "CHR 0x27 \<notin> set s"
  then have "s = [] \<or> hd s \<noteq> CHR 0x27" by (cases s) auto
  then show ?thesis
    using not_triple [of s "CHR 0x27"] by (simp add: toml_rtos_def char_at_def unquote_single del: take_Suc_Cons replicate.simps)
qed

text \<open>A text written as a basic string, with backslashes, quotes and control characters escaped, is
  read back from its raw value, as is a text without single quotes written as a literal string.\<close>

theorem toml_string_roundtrip:
  "toml_rtos (Some (CHR 0x22 # concat (map toml_escape s) @ [CHR 0x22])) = Some (lit s)
   \<and> (CHR 0x27 \<notin> set s \<longrightarrow> toml_rtos (Some (CHR 0x27 # s @ [CHR 0x27])) = Some (lit s))"
  using not_triple [OF escape_head, of s] rtos_literal [of s]
  by (simp add: toml_rtos_def char_at_def unquote_single normalize_escaped del: take_Suc_Cons replicate.simps)

theorem toml_string_roundtrip_witness:
  "toml_rtos (Some [CHR 0x27, CHR ''a'', CHR 0x5C, CHR 0x27]) = Some (lit [CHR ''a'', CHR 0x5C])"
  using toml_string_roundtrip [of "[CHR ''a'', CHR 0x5C]"] by simp

end
