(* ===== verification/Toml_Parser.thy ===== *)
theory Toml_Parser
  imports Toml
begin

text \<open>
  The lexer and the parser of \<^verbatim>\<open>includes/tomlc99/toml.c\<close>. A pointer into the document is the text from there to its end. The
  current table is a path from the document's table, along which it is updated. The error routines leave the parser by
  \<^verbatim>\<open>longjmp\<close>; here they are a second kind of outcome beside the faults.
\<close>

section \<open>Outcomes\<close>

datatype toml_error =
    Syntax_Error nat string
  | Internal_Error
  | Bad_Key nat
  | Key_Exists nat string
  | Bad_String nat

type_synonym 'a parse = "(toml_error + 'a) exec"

definition pok :: "'a \<Rightarrow> 'a parse" where
  "pok x = Inr (Inr x)"

definition perr :: "toml_error \<Rightarrow> 'a parse" where
  "perr e = Inr (Inl e)"

definition pbnd :: "'a parse \<Rightarrow> ('a \<Rightarrow> 'b parse) \<Rightarrow> 'b parse" where
  "pbnd m f = (case m of Inl fault \<Rightarrow> Inl fault | Inr (Inl e) \<Rightarrow> Inr (Inl e) | Inr (Inr x) \<Rightarrow> f x)"

lemma pbnd_simps [simp]: "pbnd (pok x) f = f x" "pbnd (perr e) f = perr e" "pbnd (Inl fault) f = Inl fault"
  by (simp_all add: pbnd_def pok_def perr_def)

lemma pbnd_cong [fundef_cong]:
  "m = m' \<Longrightarrow> (\<And>x. m' = pok x \<Longrightarrow> f x = g x) \<Longrightarrow> pbnd m f = pbnd m' g"
  by (auto simp: pbnd_def pok_def split: sum.split)

section \<open>Tokens\<close>

datatype tokentype_t = INVALID | DOT | COMMA | EQUAL | LBRACE | RBRACE | NEWLINE | LBRACKET | RBRACKET | STRING

record token_t =
  tok_tok :: tokentype_t
  tok_lineno :: nat
  tok_ptr :: string
  tok_len :: nat
  tok_eof :: bool

definition ret_token :: "tokentype_t \<Rightarrow> nat \<Rightarrow> string \<Rightarrow> nat \<Rightarrow> token_t" where
  "ret_token tok lineno ptr len = \<lparr>tok_tok = tok, tok_lineno = lineno, tok_ptr = ptr, tok_len = len, tok_eof = False\<rparr>"

definition ret_eof :: "nat \<Rightarrow> token_t" where
  "ret_eof lineno = (ret_token NEWLINE lineno [] 0)\<lparr>tok_eof := True\<rparr>"

text \<open>\<^verbatim>\<open>strstr\<close>, as an offset.\<close>

fun strstr :: "string \<Rightarrow> string \<Rightarrow> nat option" where
  "strstr [] needle = (if needle = [] then Some 0 else None)"
| "strstr (c # s) needle =
     (if take (length needle) (c # s) = needle then Some 0 else map_option Suc (strstr s needle))"

definition SQ :: char where "SQ = CHR 0x27"
definition DQ :: char where "DQ = CHR 0x22"
definition BACKSLASH :: char where "BACKSLASH = CHR 0x5C"

definition escape_chars :: string where
  "escape_chars = ''btnfr'' @ [DQ, BACKSLASH]"

definition hex_chars :: string where
  "hex_chars = ''0123456789ABCDEF''"

text \<open>
  The loops over a text in double quotes, three or one, from the state \<open>escape\<close>, \<open>hexreq\<close>, \<open>qcnt\<close> on; \<open>n\<close> characters were passed. The
  first returns how many were passed and the number of quotes last seen, the second how many were passed.
\<close>

fun scan_triple :: "nat \<Rightarrow> bool \<Rightarrow> nat \<Rightarrow> nat \<Rightarrow> nat \<Rightarrow> string \<Rightarrow> (nat \<times> nat) parse" where
  "scan_triple lineno escape hexreq qcnt n [] = pok (n, qcnt)"
| "scan_triple lineno escape hexreq qcnt n (c # s) =
     (if \<not> qcnt < 3 then pok (n, qcnt)
      else if escape then
        if c \<in> set escape_chars then scan_triple lineno False hexreq qcnt (Suc n) s
        else if c = CHR ''u'' then scan_triple lineno False 4 qcnt (Suc n) s
        else if c = CHR ''U'' then scan_triple lineno False 8 qcnt (Suc n) s
        else if c = LF then scan_triple lineno False hexreq qcnt (Suc n) s
        else perr (Syntax_Error lineno ''bad escape char'')
      else if hexreq \<noteq> 0 then
        if c \<in> set hex_chars then scan_triple lineno False (hexreq - 1) qcnt (Suc n) s
        else perr (Syntax_Error lineno ''expect hex char'')
      else if c = BACKSLASH then scan_triple lineno True hexreq qcnt (Suc n) s
      else scan_triple lineno False hexreq (if c = DQ then qcnt + 1 else 0) (Suc n) s)"

fun scan_quoted :: "nat \<Rightarrow> bool \<Rightarrow> nat \<Rightarrow> nat \<Rightarrow> string \<Rightarrow> nat parse" where
  "scan_quoted lineno escape hexreq n [] = pok n"
| "scan_quoted lineno escape hexreq n (c # s) =
     (if escape then
        if c \<in> set escape_chars then scan_quoted lineno False hexreq (Suc n) s
        else if c = CHR ''u'' then scan_quoted lineno False 4 (Suc n) s
        else if c = CHR ''U'' then scan_quoted lineno False 8 (Suc n) s
        else perr (Syntax_Error lineno ''bad escape char'')
      else if hexreq \<noteq> 0 then
        if c \<in> set hex_chars then scan_quoted lineno False (hexreq - 1) (Suc n) s
        else perr (Syntax_Error lineno ''expect hex char'')
      else if c = BACKSLASH then scan_quoted lineno True hexreq (Suc n) s
      else if c = LF \<or> c = DQ then pok n
      else scan_quoted lineno False hexreq (Suc n) s)"

definition is_upper :: "char \<Rightarrow> bool" where
  "is_upper c \<longleftrightarrow> 65 \<le> (of_char c :: nat) \<and> (of_char c :: nat) \<le> 90"

definition is_lower :: "char \<Rightarrow> bool" where
  "is_lower c \<longleftrightarrow> 97 \<le> (of_char c :: nat) \<and> (of_char c :: nat) \<le> 122"

definition bare_char :: "bool \<Rightarrow> char \<Rightarrow> bool" where
  "bare_char dotisspecial c \<longleftrightarrow>
     c \<noteq> LF \<and> \<not> (c = CHR ''.'' \<and> dotisspecial) \<and> (is_upper c \<or> is_lower c \<or> is_digit c \<or> c \<in> set ''+-_.:'')"

definition scan_string :: "string \<Rightarrow> nat \<Rightarrow> bool \<Rightarrow> token_t parse" where
  "scan_string p lineno dotisspecial =
     (if take 3 p = [SQ, SQ, SQ] then
        (case strstr (drop 3 p) [SQ, SQ, SQ] of
           None \<Rightarrow> perr (Syntax_Error lineno ''unterminated triple-s-quote'')
         | Some n \<Rightarrow> pok (ret_token STRING lineno p (3 + n + 3)))
      else if take 3 p = [DQ, DQ, DQ] then
        pbnd (scan_triple lineno False 0 0 3 (drop 3 p)) (\<lambda>(n, qcnt).
          if qcnt \<noteq> 3 then perr (Syntax_Error lineno ''unterminated triple-quote'')
          else pok (ret_token STRING lineno p n))
      else if char_at p 0 = SQ then
        (let n = Suc (length (takeWhile (\<lambda>c. c \<noteq> LF \<and> c \<noteq> SQ) (drop 1 p))) in
         if char_at p n \<noteq> SQ then perr (Syntax_Error lineno ''unterminated s-quote'')
         else pok (ret_token STRING lineno p (n + 1)))
      else if char_at p 0 = DQ then
        pbnd (scan_quoted lineno False 0 1 (drop 1 p)) (\<lambda>n.
          if char_at p n \<noteq> DQ then perr (Syntax_Error lineno ''unterminated quote'')
          else pok (ret_token STRING lineno p (n + 1)))
      else pok (ret_token STRING lineno p (length (takeWhile (bare_char dotisspecial) p))))"

text \<open>The loop of \<^verbatim>\<open>next_token\<close>.\<close>

function make_token :: "string \<Rightarrow> nat \<Rightarrow> bool \<Rightarrow> token_t parse" where
  "make_token [] lineno dotisspecial = pok (ret_eof lineno)"
| "make_token (c # s) lineno dotisspecial =
     (if c = CHR ''#'' then make_token (dropWhile (\<lambda>d. d \<noteq> LF) s) lineno dotisspecial
      else if dotisspecial \<and> c = CHR ''.'' then pok (ret_token DOT lineno (c # s) 1)
      else if c = CHR '','' then pok (ret_token COMMA lineno (c # s) 1)
      else if c = CHR ''='' then pok (ret_token EQUAL lineno (c # s) 1)
      else if c = CHR 0x7B then pok (ret_token LBRACE lineno (c # s) 1)
      else if c = CHR 0x7D then pok (ret_token RBRACE lineno (c # s) 1)
      else if c = CHR ''['' then pok (ret_token LBRACKET lineno (c # s) 1)
      else if c = CHR '']'' then pok (ret_token RBRACKET lineno (c # s) 1)
      else if c = LF then pok (ret_token NEWLINE lineno (c # s) 1)
      else if c = CR \<or> c = SP \<or> c = TAB then make_token s lineno dotisspecial
      else scan_string (c # s) lineno dotisspecial)"
  by pat_completeness auto
termination
  by (relation "measure (\<lambda>(s, _, _). length s)") (auto simp: le_imp_less_Suc length_dropWhile_le)

definition next_token :: "token_t \<Rightarrow> bool \<Rightarrow> token_t parse" where
  "next_token tok dotisspecial =
     make_token (drop (tok_len tok) (tok_ptr tok))
       (tok_lineno tok + count_list (take (tok_len tok) (tok_ptr tok)) LF) dotisspecial"

definition token_text :: "token_t \<Rightarrow> string" where
  "token_text tok = take (tok_len tok) (tok_ptr tok)"

definition EAT_TOKEN :: "token_t \<Rightarrow> tokentype_t \<Rightarrow> token_t parse" where
  "EAT_TOKEN tok typ = (if tok_tok tok \<noteq> typ then perr Internal_Error else next_token tok False)"

section \<open>Keys\<close>

definition normalize_key :: "token_t \<Rightarrow> string parse" where
  "normalize_key strtok =
     (let ch = char_at (tok_ptr strtok) 0; raw = token_text strtok in
      if ch = SQ \<or> ch = DQ then
        let q = (if char_at (tok_ptr strtok) 1 = ch \<and> char_at (tok_ptr strtok) 2 = ch then 3 else 1);
            body = drop q (take (length raw - q) raw)
        in pbnd (if ch = SQ then pok body
                 else case normalize_string False body of
                        None \<Rightarrow> perr (Bad_String (tok_lineno strtok))
                      | Some ret \<Rightarrow> pok (cstr ret)) (\<lambda>ret.
             if LF \<in> set ret then perr (Bad_Key (tok_lineno strtok)) else pok ret)
      else if list_all (\<lambda>k. is_upper k \<or> is_lower k \<or> is_digit k \<or> k = CHR ''_'' \<or> k = CHR ''-'') raw then pok raw
      else perr (Bad_Key (tok_lineno strtok)))"

datatype found = Found_Nothing | Found_Value nat | Found_Array nat | Found_Table nat

fun find_index :: "('a \<Rightarrow> bool) \<Rightarrow> 'a list \<Rightarrow> nat option" where
  "find_index P [] = None"
| "find_index P (x # xs) = (if P x then Some 0 else map_option Suc (find_index P xs))"

definition check_key :: "toml_table_t \<Rightarrow> string \<Rightarrow> found" where
  "check_key tab key =
     (case find_index (\<lambda>kv. key = kv_key kv) (tab_kval tab) of
        Some i \<Rightarrow> Found_Value i
      | None \<Rightarrow>
          (case find_index (\<lambda>a. Some key = arr_key a) (tab_arr tab) of
             Some i \<Rightarrow> Found_Array i
           | None \<Rightarrow>
               (case find_index (\<lambda>t. Some key = tab_key t) (tab_tab tab) of
                  Some i \<Rightarrow> Found_Table i
                | None \<Rightarrow> Found_Nothing)))"

definition e_key_exists_error :: "token_t \<Rightarrow> 'a parse" where
  "e_key_exists_error keytok = perr (Key_Exists (tok_lineno keytok) (take 99 (token_text keytok)))"

section \<open>The type of a value\<close>

record toml_timestamp_t =
  ts_year :: "nat option"
  ts_month :: "nat option"
  ts_day :: "nat option"
  ts_hour :: "nat option"
  ts_minute :: "nat option"
  ts_second :: "nat option"
  ts_millisec :: "nat option"
  ts_z :: "string option"

text \<open>\<open>k\<close> more characters at positions from \<open>i\<close> on, digits except for the separator at positions \<open>a\<close> and \<open>b\<close>.\<close>

fun ts_scan :: "char \<Rightarrow> nat \<Rightarrow> nat \<Rightarrow> nat \<Rightarrow> nat \<Rightarrow> nat \<Rightarrow> string \<Rightarrow> (nat \<times> string) option" where
  "ts_scan sep a b 0 i val p = Some (val, p)"
| "ts_scan sep a b (Suc k) i val p =
     (let xx = char_at p 0 in
      if xx = sep then if i = a \<or> i = b then ts_scan sep a b k (Suc i) val (drop 1 p) else None
      else if \<not> is_digit xx then None
      else ts_scan sep a b k (Suc i) (val * 10 + digit_val xx) (drop 1 p))"

text \<open>At most \<open>k\<close> digits of a fraction, each worth a tenth of the one before.\<close>

fun ts_fraction :: "nat \<Rightarrow> nat \<Rightarrow> string \<Rightarrow> nat \<times> string" where
  "ts_fraction 0 worth p = (0, p)"
| "ts_fraction (Suc k) worth p =
     (if is_digit (char_at p 0)
      then case ts_fraction k (worth div 10) (drop 1 p) of (v, p') \<Rightarrow> (digit_val (char_at p 0) * worth + v, p')
      else (0, p))"

definition ts_zone :: "string \<Rightarrow> toml_timestamp_t \<Rightarrow> toml_timestamp_t option" where
  "ts_zone p ts =
     (if char_at p 0 = CHR ''Z'' then if drop 1 p = [] then Some (ts\<lparr>ts_z := Some ''Z''\<rparr>) else None
      else if char_at p 0 = CHR ''+'' \<or> char_at p 0 = CHR ''-'' then
        if \<not> (is_digit (char_at p 1) \<and> is_digit (char_at p 2)) then None
        else if char_at p 3 = CHR '':'' then
          if \<not> (is_digit (char_at p 4) \<and> is_digit (char_at p 5)) then None
          else if drop 6 p = [] then Some (ts\<lparr>ts_z := Some (take 6 p)\<rparr>) else None
        else if drop 3 p = [] then Some (ts\<lparr>ts_z := Some (take 3 p)\<rparr>) else None
      else None)"

definition ts_time :: "string \<Rightarrow> toml_timestamp_t \<Rightarrow> toml_timestamp_t option" where
  "ts_time p ts =
     (if p = [] then Some ts
      else if length p < 8 then None
      else case ts_scan (CHR '':'') 2 5 8 0 0 p of
             None \<Rightarrow> None
           | Some (val, p1) \<Rightarrow>
               let ts1 = ts\<lparr>ts_second := Some (val mod 100), ts_minute := Some (val div 100 mod 100), ts_hour := Some (val div 10000)\<rparr>;
                   (ts2, p2) = (if char_at p1 0 = CHR ''.''
                                then case ts_fraction 3 100 (drop 1 p1) of (v, p') \<Rightarrow> (ts1\<lparr>ts_millisec := Some v\<rparr>, p')
                                else (ts1, p1))
               in if p2 = [] then Some ts2 else ts_zone p2 ts2)"

definition toml_rtots :: "string \<Rightarrow> toml_timestamp_t option" where
  "toml_rtots p =
     (let ts = \<lparr>ts_year = None, ts_month = None, ts_day = None, ts_hour = None, ts_minute = None, ts_second = None,
                ts_millisec = None, ts_z = None\<rparr> in
      if length p > 4 \<and> char_at p 4 = CHR ''-'' then
        case ts_scan (CHR ''-'') 4 7 10 0 0 p of
          None \<Rightarrow> None
        | Some (val, p1) \<Rightarrow>
            let ts1 = ts\<lparr>ts_day := Some (val mod 100), ts_month := Some (val div 100 mod 100), ts_year := Some (val div 10000)\<rparr> in
            if p1 \<noteq> [] \<and> char_at p1 0 \<noteq> CHR ''T'' \<and> char_at p1 0 \<noteq> SP then None
            else ts_time (drop 1 p1) ts1
      else ts_time p ts)"

text \<open>Stripping underscores; \<open>prev\<close> is the character before. \<open>strtod\<close> tells whether \<^verbatim>\<open>strtod\<close> reads a whole text without
  leaving the range of a double.\<close>

fun toml_rtod_strip :: "char \<Rightarrow> string \<Rightarrow> nat \<Rightarrow> string \<Rightarrow> (string \<times> string) option" where
  "toml_rtod_strip prev [] room buf = Some ([], buf)"
| "toml_rtod_strip prev (ch # s) room buf =
     (if room = 0 then Some (ch # s, buf)
      else if ch = CHR ''.'' then
        if prev = CHR ''_'' \<or> char_at s 0 = CHR ''_'' then None else toml_rtod_strip ch s (room - 1) (buf @ [ch])
      else if ch = CHR ''_'' then if char_at s 0 = CHR ''_'' then None else toml_rtod_strip ch s room buf
      else toml_rtod_strip ch s (room - 1) (buf @ [ch]))"

definition toml_rtod :: "(string \<Rightarrow> bool) \<Rightarrow> string \<Rightarrow> bool exec" where
  "toml_rtod strtod src =
     (let signed = (char_at src 0 = CHR ''+'' \<or> char_at src 0 = CHR ''-'');
          buf = (if signed then take 1 src else []);
          s = (if signed then drop 1 src else src)
      in if char_at s 0 = CHR ''_'' \<or> char_at s 0 = CHR ''.'' then Inr False
         else if char_at s 0 = CHR ''0'' \<and> char_at s 1 \<noteq> NUL \<and> char_at s 1 \<noteq> CHR ''.'' then Inr False
         else case toml_rtod_strip NUL s (100 - length buf) buf of
                None \<Rightarrow> Inr False
              | Some (rest, buf) \<Rightarrow>
                  if rest \<noteq> [] \<or> length buf = 100 then Inr False
                  else if src = [] then Inl OutOfBounds
                  else if last src = CHR ''_'' then Inr False
                  else if buf \<noteq> [] \<and> last buf = CHR ''.'' then Inr False
                  else Inr (strtod buf))"

definition valtype :: "(string \<Rightarrow> bool) \<Rightarrow> string \<Rightarrow> char exec" where
  "valtype strtod val =
     (if char_at val 0 = SQ \<or> char_at val 0 = DQ then Inr (CHR ''s'')
      else if toml_rtob (Some val) \<noteq> None then Inr (CHR ''b'')
      else bnd (toml_rtoi (Some val)) (\<lambda>i.
        if i \<noteq> None then Inr (CHR ''i'')
        else bnd (toml_rtod strtod val) (\<lambda>d.
          if d then Inr (CHR ''d'')
          else Inr (case toml_rtots val of
                      None \<Rightarrow> CHR ''u''
                    | Some ts \<Rightarrow> if ts_year ts \<noteq> None \<and> ts_hour ts \<noteq> None then CHR ''T''
                                else if ts_year ts \<noteq> None then CHR ''D'' else CHR ''t''))))"

section \<open>Building tables\<close>

definition add_kval :: "toml_keyval_t \<Rightarrow> toml_table_t \<Rightarrow> toml_table_t" where
  "add_kval kv t = Toml_Table (tab_key t) (tab_implicit t) (tab_kval t @ [kv]) (tab_arr t) (tab_tab t)"

definition set_arrs :: "toml_array_t list \<Rightarrow> toml_table_t \<Rightarrow> toml_table_t" where
  "set_arrs as t = Toml_Table (tab_key t) (tab_implicit t) (tab_kval t) as (tab_tab t)"

definition set_tabs :: "toml_table_t list \<Rightarrow> toml_table_t \<Rightarrow> toml_table_t" where
  "set_tabs ts t = Toml_Table (tab_key t) (tab_implicit t) (tab_kval t) (tab_arr t) ts"

definition make_explicit :: "toml_table_t \<Rightarrow> toml_table_t" where
  "make_explicit t = Toml_Table (tab_key t) False (tab_kval t) (tab_arr t) (tab_tab t)"

text \<open>The value is the one that \<^verbatim>\<open>parse_keyval\<close> stores in the new entry.\<close>

definition create_keyval_in_table :: "toml_table_t \<Rightarrow> token_t \<Rightarrow> string \<Rightarrow> toml_table_t parse" where
  "create_keyval_in_table tab keytok val =
     pbnd (normalize_key keytok) (\<lambda>newkey.
       if check_key tab newkey \<noteq> Found_Nothing then e_key_exists_error keytok
       else pok (add_kval \<lparr>kv_key = newkey, kv_val = val\<rparr> tab))"

text \<open>These return the index of the table or array and the table it is in.\<close>

definition create_keytable_in_table :: "toml_table_t \<Rightarrow> token_t \<Rightarrow> (nat \<times> toml_table_t) parse" where
  "create_keytable_in_table tab keytok =
     pbnd (normalize_key keytok) (\<lambda>newkey.
       case check_key tab newkey of
         Found_Nothing \<Rightarrow> pok (length (tab_tab tab), set_tabs (tab_tab tab @ [Toml_Table (Some newkey) False [] [] []]) tab)
       | Found_Table i \<Rightarrow>
           if tab_implicit (tab_tab tab ! i) then pok (i, set_tabs ((tab_tab tab)[i := make_explicit (tab_tab tab ! i)]) tab)
           else e_key_exists_error keytok
       | _ \<Rightarrow> e_key_exists_error keytok)"

definition create_keyarray_in_table :: "toml_table_t \<Rightarrow> token_t \<Rightarrow> bool \<Rightarrow> (nat option \<times> toml_table_t) parse" where
  "create_keyarray_in_table tab keytok skip_if_exist =
     pbnd (normalize_key keytok) (\<lambda>newkey.
       case check_key tab newkey of
         Found_Nothing \<Rightarrow> pok (Some (length (tab_arr tab)), set_arrs (tab_arr tab @ [Toml_Array (Some newkey) NUL NUL [] [] []]) tab)
       | Found_Array i \<Rightarrow> if skip_if_exist then pok (Some i, tab) else e_key_exists_error keytok
       | _ \<Rightarrow> if skip_if_exist then pok (None, tab) else e_key_exists_error keytok)"

section \<open>Values\<close>

definition lift :: "'a exec \<Rightarrow> 'a parse" where
  "lift m = (case m of Inl fault \<Rightarrow> Inl fault | Inr x \<Rightarrow> pok x)"

text \<open>
  The functions below take fuel, and return \<open>Diverges\<close> when it runs out. How much is enough, and that more makes no difference,
  is shown below. \<open>parse_table\<close> and \<open>parse_array\<close> start after the opening bracket, which their callers eat, so that a recursive call
  is either a nested value or the next round of the loop.
\<close>

fun skip_newlines :: "nat \<Rightarrow> token_t \<Rightarrow> token_t parse" where
  "skip_newlines 0 tok = Inl Diverges"
| "skip_newlines (Suc n) tok =
     (if tok_tok tok = NEWLINE then pbnd (next_token tok False) (\<lambda>t. skip_newlines n t) else pok tok)"

definition parse_string_element :: "(string \<Rightarrow> bool) \<Rightarrow> token_t \<Rightarrow> toml_array_t \<Rightarrow> (token_t \<times> toml_array_t) parse" where
  "parse_string_element strtod tok arr =
     (if arr_kind arr \<noteq> NUL \<and> arr_kind arr \<noteq> CHR ''v''
      then perr (Syntax_Error (tok_lineno tok) ''a string array can only contain strings'')
      else
        pbnd (lift (valtype strtod (token_text tok))) (\<lambda>ty.
          if arr_val arr \<noteq> [] \<and> arr_type arr \<noteq> ty then perr (Syntax_Error (tok_lineno tok) ''array type mismatch'')
          else pbnd (EAT_TOKEN tok STRING) (\<lambda>t.
                 pok (t, Toml_Array (arr_key arr) (CHR ''v'') ty (arr_val arr @ [token_text tok]) (arr_arr arr) (arr_tab arr)))))"

definition finish_array :: "token_t \<Rightarrow> toml_array_t \<Rightarrow> (token_t \<times> toml_array_t) parse" where
  "finish_array tok arr =
     (if tok_tok tok \<noteq> RBRACKET then perr (Syntax_Error (tok_lineno tok) ''syntax error'')
      else pbnd (EAT_TOKEN tok RBRACKET) (\<lambda>t. pok (t, arr)))"

definition finish_table :: "token_t \<Rightarrow> toml_table_t \<Rightarrow> (token_t \<times> toml_table_t) parse" where
  "finish_table tok tab =
     (if tok_tok tok \<noteq> RBRACE then perr (Syntax_Error (tok_lineno tok) ''syntax error'')
      else pbnd (EAT_TOKEN tok RBRACE) (\<lambda>t. pok (t, tab)))"

fun parse_keyval :: "(string \<Rightarrow> bool) \<Rightarrow> nat \<Rightarrow> token_t \<Rightarrow> toml_table_t \<Rightarrow> (token_t \<times> toml_table_t) parse"
  and parse_table :: "(string \<Rightarrow> bool) \<Rightarrow> nat \<Rightarrow> token_t \<Rightarrow> toml_table_t \<Rightarrow> (token_t \<times> toml_table_t) parse"
  and parse_array :: "(string \<Rightarrow> bool) \<Rightarrow> nat \<Rightarrow> token_t \<Rightarrow> toml_array_t \<Rightarrow> (token_t \<times> toml_array_t) parse" where
  "parse_keyval strtod 0 tok tab = Inl Diverges"
| "parse_keyval strtod (Suc n) tok tab =
     (if tok_tok tok \<noteq> STRING then perr Internal_Error
      else pbnd (EAT_TOKEN tok STRING) (\<lambda>t1.
        if tok_tok t1 \<noteq> EQUAL then perr (Syntax_Error (tok_lineno t1) ''missing ='')
        else pbnd (EAT_TOKEN t1 EQUAL) (\<lambda>t2.
          case tok_tok t2 of
            STRING \<Rightarrow> pbnd (create_keyval_in_table tab tok (token_text t2)) (\<lambda>tab1. pbnd (EAT_TOKEN t2 STRING) (\<lambda>t3. pok (t3, tab1)))
          | LBRACKET \<Rightarrow>
              pbnd (create_keyarray_in_table tab tok False) (\<lambda>(r, tab1).
                case r of
                  None \<Rightarrow> Inl NullPointer
                | Some i \<Rightarrow> pbnd (EAT_TOKEN t2 LBRACKET) (\<lambda>t3. pbnd (parse_array strtod n t3 (tab_arr tab1 ! i)) (\<lambda>(t4, arr).
                              pok (t4, set_arrs ((tab_arr tab1)[i := arr]) tab1))))
          | LBRACE \<Rightarrow>
              pbnd (create_keytable_in_table tab tok) (\<lambda>(i, tab1).
              pbnd (EAT_TOKEN t2 LBRACE) (\<lambda>t3. pbnd (parse_table strtod n t3 (tab_tab tab1 ! i)) (\<lambda>(t4, tab2).
                pok (t4, set_tabs ((tab_tab tab1)[i := tab2]) tab1))))
          | _ \<Rightarrow> perr (Syntax_Error (tok_lineno t2) ''syntax error''))))"
| "parse_table strtod 0 tok tab = Inl Diverges"
| "parse_table strtod (Suc n) tok tab =
     (if tok_tok tok = NEWLINE then perr (Syntax_Error (tok_lineno tok) ''newline not allowed in inline table'')
      else if tok_tok tok = RBRACE then finish_table tok tab
      else if tok_tok tok \<noteq> STRING then perr (Syntax_Error (tok_lineno tok) ''syntax error'')
      else pbnd (parse_keyval strtod n tok tab) (\<lambda>(t1, tab1).
        if tok_tok t1 = NEWLINE then perr (Syntax_Error (tok_lineno t1) ''newline not allowed in inline table'')
        else if tok_tok t1 = COMMA then pbnd (EAT_TOKEN t1 COMMA) (\<lambda>t2. parse_table strtod n t2 tab1)
        else finish_table t1 tab1))"
| "parse_array strtod 0 tok arr = Inl Diverges"
| "parse_array strtod (Suc n) tok arr =
     pbnd (skip_newlines (Suc n) tok) (\<lambda>t1.
       if tok_tok t1 = RBRACKET then finish_array t1 arr
       else
         pbnd (case tok_tok t1 of
                 STRING \<Rightarrow> parse_string_element strtod t1 arr
               | LBRACKET \<Rightarrow>
                   if arr_kind arr \<noteq> NUL \<and> arr_kind arr \<noteq> CHR ''a'' then perr (Syntax_Error (tok_lineno t1) ''array type mismatch'')
                   else pbnd (EAT_TOKEN t1 LBRACKET) (\<lambda>t. pbnd (parse_array strtod n t (Toml_Array None NUL NUL [] [] [])) (\<lambda>(t2, a).
                          pok (t2, Toml_Array (arr_key arr) (CHR ''a'') (arr_type arr) (arr_val arr) (arr_arr arr @ [a]) (arr_tab arr))))
               | LBRACE \<Rightarrow>
                   if arr_kind arr \<noteq> NUL \<and> arr_kind arr \<noteq> CHR ''t'' then perr (Syntax_Error (tok_lineno t1) ''array type mismatch'')
                   else pbnd (EAT_TOKEN t1 LBRACE) (\<lambda>t. pbnd (parse_table strtod n t (Toml_Table None False [] [] [])) (\<lambda>(t2, tab).
                          pok (t2, Toml_Array (arr_key arr) (CHR ''t'') (arr_type arr) (arr_val arr) (arr_arr arr) (arr_tab arr @ [tab]))))
               | _ \<Rightarrow> perr (Syntax_Error (tok_lineno t1) ''syntax error'')) (\<lambda>(t2, arr1).
         pbnd (skip_newlines (Suc n) t2) (\<lambda>t3.
           if tok_tok t3 = COMMA then pbnd (EAT_TOKEN t3 COMMA) (\<lambda>t4. parse_array strtod n t4 arr1)
           else finish_array t3 arr1)))"

section \<open>Selecting a table\<close>

text \<open>At most ten keys: \<open>k\<close> more are allowed.\<close>

fun fill_tabpath :: "nat \<Rightarrow> nat \<Rightarrow> token_t \<Rightarrow> ((token_t \<times> string) list \<times> token_t) parse" where
  "fill_tabpath 0 lineno tok = perr (Syntax_Error lineno ''table path is too deep; max allowed is 10.'')"
| "fill_tabpath (Suc k) lineno tok =
     (if tok_tok tok \<noteq> STRING then perr (Syntax_Error lineno ''invalid or missing key'')
      else pbnd (normalize_key tok) (\<lambda>key. pbnd (next_token tok True) (\<lambda>t1.
        if tok_tok t1 = RBRACKET then pok ([(tok, key)], t1)
        else if tok_tok t1 \<noteq> DOT then perr (Syntax_Error lineno ''invalid key'')
        else pbnd (next_token t1 True) (\<lambda>t2. pbnd (fill_tabpath k lineno t2) (\<lambda>(rest, t3).
               pok ((tok, key) # rest, t3))))))"

datatype path_step = In_Table nat | In_Array nat nat

fun walk_tabpath :: "(token_t \<times> string) list \<Rightarrow> toml_table_t \<Rightarrow> (path_step list \<times> toml_table_t) parse" where
  "walk_tabpath [] curtab = pok ([], curtab)"
| "walk_tabpath ((tok, key) # rest) curtab =
     (case check_key curtab key of
        Found_Table i \<Rightarrow>
          pbnd (walk_tabpath rest (tab_tab curtab ! i)) (\<lambda>(path, t). pok (In_Table i # path, set_tabs ((tab_tab curtab)[i := t]) curtab))
      | Found_Array i \<Rightarrow>
          let arr = tab_arr curtab ! i in
          if arr_kind arr \<noteq> CHR ''t'' then perr Internal_Error
          else if arr_tab arr = [] then perr Internal_Error
          else let j = length (arr_tab arr) - 1 in
            pbnd (walk_tabpath rest (arr_tab arr ! j)) (\<lambda>(path, t).
              pok (In_Array i j # path,
                  set_arrs ((tab_arr curtab)[i := Toml_Array (arr_key arr) (arr_kind arr) (arr_type arr) (arr_val arr) (arr_arr arr)
                    ((arr_tab arr)[j := t])]) curtab))
      | Found_Value i \<Rightarrow> e_key_exists_error tok
      | Found_Nothing \<Rightarrow>
          pbnd (walk_tabpath rest (Toml_Table (Some key) True [] [] [])) (\<lambda>(path, t).
            pok (In_Table (length (tab_tab curtab)) # path, set_tabs (tab_tab curtab @ [t]) curtab)))"

text \<open>Running an operation on the table at the end of a path.\<close>

fun at_path :: "path_step list \<Rightarrow> (toml_table_t \<Rightarrow> ('a \<times> toml_table_t) parse) \<Rightarrow> toml_table_t \<Rightarrow> ('a \<times> toml_table_t) parse" where
  "at_path [] f t = f t"
| "at_path (In_Table i # path) f t =
     (if i < length (tab_tab t)
      then pbnd (at_path path f (tab_tab t ! i)) (\<lambda>(x, t'). pok (x, set_tabs ((tab_tab t)[i := t']) t))
      else Inl DanglingPointer)"
| "at_path (In_Array i j # path) f t =
     (if i < length (tab_arr t) \<and> j < length (arr_tab (tab_arr t ! i)) then
        let arr = tab_arr t ! i in
        pbnd (at_path path f (arr_tab arr ! j)) (\<lambda>(x, t').
          pok (x, set_arrs ((tab_arr t)[i := Toml_Array (arr_key arr) (arr_kind arr) (arr_type arr) (arr_val arr) (arr_arr arr)
                   ((arr_tab arr)[j := t'])]) t))
      else Inl DanglingPointer)"

text \<open>The new table of \<^verbatim>\<open>[x.y.z]\<close> and of \<^verbatim>\<open>[[x.y.z]]\<close> in the table of \<^verbatim>\<open>x.y\<close>.\<close>

definition select_table :: "token_t \<Rightarrow> toml_table_t \<Rightarrow> (path_step \<times> toml_table_t) parse" where
  "select_table z tab = pbnd (create_keytable_in_table tab z) (\<lambda>(i, tab1). pok (In_Table i, tab1))"

definition select_element :: "token_t \<Rightarrow> toml_table_t \<Rightarrow> (path_step \<times> toml_table_t) parse" where
  "select_element z tab =
     pbnd (create_keyarray_in_table tab z True) (\<lambda>(r, tab1).
       case r of
         None \<Rightarrow> perr (Syntax_Error (tok_lineno z) ''key exists'')
       | Some i \<Rightarrow>
           let arr = tab_arr tab1 ! i in
           if arr_kind arr \<noteq> NUL \<and> arr_kind arr \<noteq> CHR ''t'' then perr (Syntax_Error (tok_lineno z) ''array mismatch'')
           else pok (In_Array i (length (arr_tab arr)),
                    set_arrs ((tab_arr tab1)[i := Toml_Array (arr_key arr) (CHR ''t'') (arr_type arr) (arr_val arr) (arr_arr arr)
                      (arr_tab arr @ [Toml_Table (Some ''__anon__'') False [] [] []])]) tab1))"

definition parse_select :: "token_t \<Rightarrow> toml_table_t \<Rightarrow> (token_t \<times> toml_table_t \<times> path_step list) parse" where
  "parse_select tok root =
     (let llb = (char_at (tok_ptr tok) 1 = CHR ''['') in
      pbnd (next_token tok True) (\<lambda>t1.
      pbnd (if llb then next_token t1 True else pok t1) (\<lambda>t2.
      pbnd (fill_tabpath 10 (tok_lineno t2) t2) (\<lambda>(keys, t3).
      let z = fst (last keys) in
      pbnd (walk_tabpath (butlast keys) root) (\<lambda>(path, root1).
      pbnd (at_path path (if \<not> llb then select_table z else select_element z) root1) (\<lambda>(stp, root2).
        if tok_tok t3 \<noteq> RBRACKET then perr (Syntax_Error (tok_lineno t3) ''expects ]'')
        else if llb \<and> char_at (tok_ptr t3) 1 \<noteq> CHR '']'' then perr (Syntax_Error (tok_lineno t3) ''expects ]]'')
        else
          pbnd (if llb then EAT_TOKEN t3 RBRACKET else pok t3) (\<lambda>t4.
          pbnd (EAT_TOKEN t4 RBRACKET) (\<lambda>t5.
            if tok_tok t5 \<noteq> NEWLINE then perr (Syntax_Error (tok_lineno t5) ''extra chars after ] or ]]'')
            else pok (t5, root2, path @ [stp])))))))))"

section \<open>The document\<close>

text \<open>\<open>fuel\<close> is for the values of a line, the other number counts the rounds of the loop.\<close>

fun toml_parse_loop :: "(string \<Rightarrow> bool) \<Rightarrow> nat \<Rightarrow> nat \<Rightarrow> token_t \<Rightarrow> toml_table_t \<Rightarrow> path_step list \<Rightarrow> toml_table_t parse" where
  "toml_parse_loop strtod fuel 0 tok root curtab = Inl Diverges"
| "toml_parse_loop strtod fuel (Suc n) tok root curtab =
     (if tok_eof tok then pok root
      else case tok_tok tok of
        NEWLINE \<Rightarrow> pbnd (next_token tok True) (\<lambda>t. toml_parse_loop strtod fuel n t root curtab)
      | STRING \<Rightarrow>
          pbnd (at_path curtab (parse_keyval strtod fuel tok) root) (\<lambda>(t1, root1).
            if tok_tok t1 \<noteq> NEWLINE then perr (Syntax_Error (tok_lineno t1) ''extra chars after value'')
            else pbnd (EAT_TOKEN t1 NEWLINE) (\<lambda>t2. toml_parse_loop strtod fuel n t2 root1 curtab))
      | LBRACKET \<Rightarrow> pbnd (parse_select tok root) (\<lambda>(t1, root1, curtab1). toml_parse_loop strtod fuel n t1 root1 curtab1)
      | _ \<Rightarrow> perr (Syntax_Error (tok_lineno tok) ''syntax error''))"

definition toml_parse_fuel :: "(string \<Rightarrow> bool) \<Rightarrow> nat \<Rightarrow> string \<Rightarrow> toml_table_t option exec" where
  "toml_parse_fuel strtod fuel conf =
     (case toml_parse_loop strtod fuel fuel (ret_token NEWLINE 1 conf 0) (Toml_Table None False [] [] []) [] of
        Inl fault \<Rightarrow> Inl fault
      | Inr (Inl e) \<Rightarrow> Inr None
      | Inr (Inr root) \<Rightarrow> Inr (Some root))"

text \<open>Fuel for every character twice is enough.\<close>

definition toml_parse :: "(string \<Rightarrow> bool) \<Rightarrow> bytes \<Rightarrow> toml_table_t option exec" where
  "toml_parse strtod conf = bnd (strlen conf) (\<lambda>n. toml_parse_fuel strtod (2 * n + 3) (cstr conf))"

section \<open>How much fuel is enough\<close>

lemma pbnd_eq_ok: "pbnd m f = pok y \<longleftrightarrow> (\<exists>x. m = pok x \<and> f x = pok y)"
  by (auto simp: pbnd_def pok_def split: sum.split)

lemma ok_inj [simp]: "pok x = pok y \<longleftrightarrow> x = y" "perr e \<noteq> pok x" "pok x \<noteq> perr e" "Inl f \<noteq> pok x" "pok x \<noteq> Inl f" "perr e \<noteq> Inl f" "Inl f \<noteq> perr e"
  by (simp_all add: pok_def perr_def)

abbreviation tsize :: "token_t \<Rightarrow> nat" where
  "tsize t \<equiv> length (tok_ptr t)"

text \<open>A token of the lexer: the end of the text counts as a newline, every other token is not empty, and but for strings has one character.\<close>

definition lexed :: "token_t \<Rightarrow> bool" where
  "lexed t \<longleftrightarrow> (if tok_eof t then tok_tok t = NEWLINE \<and> tok_ptr t = [] else tok_ptr t \<noteq> [] \<and> (tok_tok t \<noteq> STRING \<longrightarrow> tok_len t = 1))"

lemma scan_string_lexed: "scan_string p l d = pok t \<Longrightarrow> p \<noteq> [] \<Longrightarrow> lexed t \<and> tok_ptr t = p \<and> tok_tok t = STRING \<and> \<not> tok_eof t"
  by (auto simp: scan_string_def pbnd_eq_ok lexed_def ret_token_def Let_def split: if_split_asm option.split_asm)

lemma make_token_lexed: "make_token s l d = pok t \<Longrightarrow> lexed t \<and> tsize t \<le> length s"
proof (induction s l d rule: make_token.induct)
  case (1 l d)
  then show ?case by (auto simp: ret_eof_def ret_token_def lexed_def)
next
  case (2 c s l d)
  have "length (dropWhile (\<lambda>d. d \<noteq> LF) s) \<le> length s" by (rule length_dropWhile_le)
  with 2 show ?case
    by (auto simp: lexed_def ret_token_def dest!: scan_string_lexed split: if_split_asm)
qed

lemma next_token_lexed: "next_token tok d = pok t \<Longrightarrow> lexed t \<and> tsize t \<le> tsize tok - tok_len tok"
  using make_token_lexed unfolding next_token_def by fastforce

lemma eat_lexed:
  assumes "EAT_TOKEN t ty = pok t'" and "lexed t"
  shows "lexed t'" and "tsize t' \<le> tsize t" and "ty \<notin> {STRING, NEWLINE} \<Longrightarrow> tsize t' < tsize t"
proof -
  have n: "tok_tok t = ty" "lexed t'" "tsize t' \<le> tsize t - tok_len t"
    using assms(1) next_token_lexed by (auto simp: EAT_TOKEN_def split: if_split_asm)
  then show "lexed t'" "tsize t' \<le> tsize t" by simp_all
  assume "ty \<notin> {STRING, NEWLINE}"
  then have "tok_len t = 1" "0 < tsize t" using assms(2) n(1) by (auto simp: lexed_def split: if_split_asm)
  then show "tsize t' < tsize t" using n(3) by linarith
qed

lemma skip_newlines_eof: "tok_eof t \<Longrightarrow> lexed t \<Longrightarrow> skip_newlines n t = Inl Diverges"
proof (induction n arbitrary: t)
  case (Suc n)
  then have t: "tok_tok t = NEWLINE" "tok_ptr t = []" by (simp_all add: lexed_def)
  then have "next_token t False = pok (ret_eof (tok_lineno t))" by (simp add: next_token_def)
  moreover have "skip_newlines n (ret_eof (tok_lineno t)) = Inl Diverges"
    using Suc.IH by (simp add: ret_eof_def lexed_def ret_token_def)
  ultimately show ?case using t by simp
qed simp

lemma skip_newlines_fuel:
  "lexed t \<Longrightarrow> tsize t < n \<Longrightarrow> tsize t < m \<Longrightarrow> skip_newlines n t = skip_newlines m t"
proof (induction n arbitrary: t m)
  case (Suc n)
  obtain m' where m: "m = Suc m'" using Suc.prems(3) by (cases m) auto
  show ?case
  proof (cases "tok_eof t \<or> tok_tok t \<noteq> NEWLINE")
    case True
    then show ?thesis using Suc.prems(1) skip_newlines_eof [of t "Suc n"] skip_newlines_eof [of t m] m by auto
  next
    case False
    then have "tok_len t = 1" "tok_tok t = NEWLINE" "0 < tsize t" using Suc.prems(1) by (auto simp: lexed_def)
    moreover have "skip_newlines n t' = skip_newlines m' t'" if "next_token t False = pok t'" for t'
      using next_token_lexed [OF that] calculation Suc.prems m by (intro Suc.IH) linarith+
    ultimately show ?thesis using m by (auto intro: pbnd_cong)
  qed
qed simp

lemma skip_newlines_lexed: "skip_newlines n t = pok t' \<Longrightarrow> lexed t \<Longrightarrow> lexed t' \<and> tsize t' \<le> tsize t"
proof (induction n arbitrary: t)
  case (Suc n)
  show ?case
  proof (cases "tok_tok t = NEWLINE")
    case True
    then obtain t1 where t1: "next_token t False = pok t1" "skip_newlines n t1 = pok t'" using Suc.prems(1) by (auto simp: pbnd_eq_ok)
    then have "lexed t1" "tsize t1 \<le> tsize t" using next_token_lexed [OF t1(1)] by linarith+
    then show ?thesis using Suc.IH [OF t1(2)] by linarith
  qed (use Suc.prems in auto)
qed simp

text \<open>Two results agree, and what they leave of the text is at most \<open>k\<close> long.\<close>

definition agree :: "nat \<Rightarrow> (token_t \<times> 'a) parse \<Rightarrow> (token_t \<times> 'a) parse \<Rightarrow> bool" where
  "agree k r r' \<longleftrightarrow> r = r' \<and> (\<forall>t x. r = pok (t, x) \<longrightarrow> lexed t \<and> tsize t \<le> k)"

lemma agree_pbnd:
  assumes "m = m'" and "\<And>x. m = pok x \<Longrightarrow> agree k (f x) (g x)"
  shows "agree k (pbnd m f) (pbnd m' g)"
  using assms by (cases m rule: sum.exhaust) (auto simp: agree_def pbnd_def pok_def split: sum.split)

lemma agree_mono: "agree j r r' \<Longrightarrow> j \<le> k \<Longrightarrow> agree k r r'"
  by (fastforce simp: agree_def)

lemma agree_pbnd2:
  assumes "agree j m m'" and "\<And>t x. lexed t \<Longrightarrow> tsize t \<le> j \<Longrightarrow> agree k (f (t, x)) (g (t, x))"
  shows "agree k (pbnd m f) (pbnd m' g)"
  using assms by (intro agree_pbnd) (auto simp: agree_def)

lemma agree_simps [simp]: "agree k (perr e) (perr e)" "agree k (Inl f) (Inl f)" "agree k (pok (t, x)) (pok (t, x)) \<longleftrightarrow> lexed t \<and> tsize t \<le> k"
  by (auto simp: agree_def)

lemma agree_if: "(c \<Longrightarrow> agree k a b) \<Longrightarrow> (\<not> c \<Longrightarrow> agree k a' b') \<Longrightarrow> agree k (if c then a else a') (if c then b else b')"
  by simp

lemma agree_eat:
  assumes "lexed t" and "\<And>t'. lexed t' \<Longrightarrow> tsize t' \<le> tsize t \<Longrightarrow> (ty \<notin> {STRING, NEWLINE} \<Longrightarrow> tsize t' < tsize t) \<Longrightarrow> agree k (f t') (g t')"
  shows "agree k (pbnd (EAT_TOKEN t ty) f) (pbnd (EAT_TOKEN t ty) g)"
  by (rule agree_pbnd [OF refl]) (use assms eat_lexed in blast)

lemma agree_skip:
  assumes "lexed t" and "tsize t < n" and "tsize t < m" and "\<And>t'. lexed t' \<Longrightarrow> tsize t' \<le> tsize t \<Longrightarrow> agree k (f t') (g t')"
  shows "agree k (pbnd (skip_newlines n t) f) (pbnd (skip_newlines m t) g)"
  by (rule agree_pbnd [OF skip_newlines_fuel [OF assms(1-3)]]) (use assms(1,4) skip_newlines_lexed in blast)

lemma agree_finish:
  "lexed t \<Longrightarrow> tsize t \<le> k \<Longrightarrow> agree k (finish_array t arr) (finish_array t arr)"
  "lexed t \<Longrightarrow> tsize t \<le> k \<Longrightarrow> agree k (finish_table t tab) (finish_table t tab)"
  unfolding finish_array_def finish_table_def by (auto intro!: agree_eat)

lemma agree_string_element:
  assumes "lexed t"
  shows "agree (tsize t) (parse_string_element strtod t arr) (parse_string_element strtod t arr)"
  unfolding parse_string_element_def by (auto intro!: agree_pbnd agree_eat assms)

lemma keyval_step:
  assumes t: "lexed t"
    and arr: "\<And>u arr. lexed u \<Longrightarrow> tsize u < tsize t \<Longrightarrow> agree (tsize u) (parse_array strtod n u arr) (parse_array strtod m u arr)"
    and tab: "\<And>u tab. lexed u \<Longrightarrow> tsize u < tsize t \<Longrightarrow> agree (tsize u) (parse_table strtod n u tab) (parse_table strtod m u tab)"
  shows "agree (tsize t) (parse_keyval strtod (Suc n) t tb) (parse_keyval strtod (Suc m) t tb)"
proof (cases "tok_tok t = STRING")
  case True
  let ?rhs = "\<lambda>pa pt t2. case tok_tok t2 of
         STRING \<Rightarrow> pbnd (create_keyval_in_table tb t (token_text t2)) (\<lambda>tab1. pbnd (EAT_TOKEN t2 STRING) (\<lambda>t3. pok (t3, tab1)))
       | LBRACKET \<Rightarrow> pbnd (create_keyarray_in_table tb t False) (\<lambda>(r, tab1).
           case r of None \<Rightarrow> Inl NullPointer
           | Some i \<Rightarrow> pbnd (EAT_TOKEN t2 LBRACKET) (\<lambda>t3. pbnd (pa t3 (tab_arr tab1 ! i)) (\<lambda>(t4, arr).
               pok (t4, set_arrs ((tab_arr tab1)[i := arr]) tab1))))
       | LBRACE \<Rightarrow> pbnd (create_keytable_in_table tb t) (\<lambda>(i, tab1).
           pbnd (EAT_TOKEN t2 LBRACE) (\<lambda>t3. pbnd (pt t3 (tab_tab tab1 ! i)) (\<lambda>(t4, tab2).
             pok (t4, set_tabs ((tab_tab tab1)[i := tab2]) tab1))))
       | _ \<Rightarrow> perr (Syntax_Error (tok_lineno t2) ''syntax error'')"
  have "agree (tsize t) (?rhs (parse_array strtod n) (parse_table strtod n) t2) (?rhs (parse_array strtod m) (parse_table strtod m) t2)"
    if t2: "lexed t2" "tsize t2 < tsize t" for t2
  proof (cases "tok_tok t2")
    case LBRACKET
    have "agree (tsize t) (pbnd (EAT_TOKEN t2 LBRACKET) (\<lambda>t3. pbnd (parse_array strtod n t3 a) (\<lambda>(t4, arr). pok (t4, f arr))))
      (pbnd (EAT_TOKEN t2 LBRACKET) (\<lambda>t3. pbnd (parse_array strtod m t3 a) (\<lambda>(t4, arr). pok (t4, f arr))))" for a and f :: "toml_array_t \<Rightarrow> toml_table_t"
      using t2 by (intro agree_eat agree_pbnd2 [OF arr]) auto
    then show ?thesis using LBRACKET by (auto intro!: agree_pbnd split: option.split)
  next
    case LBRACE
    have "agree (tsize t) (pbnd (EAT_TOKEN t2 LBRACE) (\<lambda>t3. pbnd (parse_table strtod n t3 a) (\<lambda>(t4, x). pok (t4, f x))))
      (pbnd (EAT_TOKEN t2 LBRACE) (\<lambda>t3. pbnd (parse_table strtod m t3 a) (\<lambda>(t4, x). pok (t4, f x))))" for a and f :: "toml_table_t \<Rightarrow> toml_table_t"
      using t2 by (intro agree_eat agree_pbnd2 [OF tab]) auto
    note braces = this
    show ?thesis unfolding LBRACE tokentype_t.case by (rule agree_pbnd [OF refl]) (auto intro: braces split: prod.split)
  next
    case STRING
    then show ?thesis using t2 by (auto intro!: agree_pbnd agree_eat)
  qed simp_all
  note val = this
  have "agree (tsize t) (if tok_tok t1 \<noteq> EQUAL then perr e else pbnd (EAT_TOKEN t1 EQUAL) (?rhs (parse_array strtod n) (parse_table strtod n)))
    (if tok_tok t1 \<noteq> EQUAL then perr e else pbnd (EAT_TOKEN t1 EQUAL) (?rhs (parse_array strtod m) (parse_table strtod m)))"
    if t1: "lexed t1" "tsize t1 \<le> tsize t" for t1 e
  proof (cases "tok_tok t1 = EQUAL")
    case True
    have "agree (tsize t) (pbnd (EAT_TOKEN t1 EQUAL) (?rhs (parse_array strtod n) (parse_table strtod n)))
      (pbnd (EAT_TOKEN t1 EQUAL) (?rhs (parse_array strtod m) (parse_table strtod m)))"
    proof (rule agree_eat [OF t1(1)], rule val)
      fix t2 assume "EQUAL \<notin> {STRING, NEWLINE} \<Longrightarrow> tsize t2 < tsize t1"
      then show "tsize t2 < tsize t" using t1(2) by simp
    qed
    then show ?thesis using True by simp
  qed simp
  then have "agree (tsize t)
      (pbnd (EAT_TOKEN t STRING) (\<lambda>t1. if tok_tok t1 \<noteq> EQUAL then perr (Syntax_Error (tok_lineno t1) ''missing ='')
         else pbnd (EAT_TOKEN t1 EQUAL) (?rhs (parse_array strtod n) (parse_table strtod n))))
      (pbnd (EAT_TOKEN t STRING) (\<lambda>t1. if tok_tok t1 \<noteq> EQUAL then perr (Syntax_Error (tok_lineno t1) ''missing ='')
         else pbnd (EAT_TOKEN t1 EQUAL) (?rhs (parse_array strtod m) (parse_table strtod m))))"
    by (rule agree_eat [OF t])
  then show ?thesis unfolding parse_keyval.simps using True by simp
qed simp

lemma inline_table_step:
  assumes t: "lexed t"
    and kv: "\<And>tab. agree (tsize t) (parse_keyval strtod n t tab) (parse_keyval strtod m t tab)"
    and tab: "\<And>u tab. lexed u \<Longrightarrow> tsize u < tsize t \<Longrightarrow> agree (tsize u) (parse_table strtod n u tab) (parse_table strtod m u tab)"
  shows "agree (tsize t) (parse_table strtod (Suc n) t tb) (parse_table strtod (Suc m) t tb)"
proof -
  have "agree (tsize t) (pbnd (EAT_TOKEN t1 COMMA) (\<lambda>t2. parse_table strtod n t2 x)) (pbnd (EAT_TOKEN t1 COMMA) (\<lambda>t2. parse_table strtod m t2 x))"
    if "lexed t1" "tsize t1 \<le> tsize t" for t1 x
    using that by (intro agree_eat agree_mono [OF tab]) auto
  then show ?thesis using t unfolding parse_table.simps
    by (auto intro!: agree_pbnd2 [OF kv] agree_finish)
qed

lemma array_step:
  assumes t: "lexed t" "tsize t \<le> n" "tsize t \<le> m"
    and arr: "\<And>u arr. lexed u \<Longrightarrow> tsize u < tsize t \<Longrightarrow> agree (tsize u) (parse_array strtod n u arr) (parse_array strtod m u arr)"
    and tab: "\<And>u tab. lexed u \<Longrightarrow> tsize u < tsize t \<Longrightarrow> agree (tsize u) (parse_table strtod n u tab) (parse_table strtod m u tab)"
  shows "agree (tsize t) (parse_array strtod (Suc n) t a) (parse_array strtod (Suc m) t a)"
proof -
  let ?element = "\<lambda>pa pt t1. case tok_tok t1 of
      STRING \<Rightarrow> parse_string_element strtod t1 a
    | LBRACKET \<Rightarrow>
        if arr_kind a \<noteq> NUL \<and> arr_kind a \<noteq> CHR ''a'' then perr (Syntax_Error (tok_lineno t1) ''array type mismatch'')
        else pbnd (EAT_TOKEN t1 LBRACKET) (\<lambda>t. pbnd (pa t (Toml_Array None NUL NUL [] [] [])) (\<lambda>(t2, x).
               pok (t2, Toml_Array (arr_key a) (CHR ''a'') (arr_type a) (arr_val a) (arr_arr a @ [x]) (arr_tab a))))
    | LBRACE \<Rightarrow>
        if arr_kind a \<noteq> NUL \<and> arr_kind a \<noteq> CHR ''t'' then perr (Syntax_Error (tok_lineno t1) ''array type mismatch'')
        else pbnd (EAT_TOKEN t1 LBRACE) (\<lambda>t. pbnd (pt t (Toml_Table None False [] [] [])) (\<lambda>(t2, x).
               pok (t2, Toml_Array (arr_key a) (CHR ''t'') (arr_type a) (arr_val a) (arr_arr a) (arr_tab a @ [x]))))
    | _ \<Rightarrow> perr (Syntax_Error (tok_lineno t1) ''syntax error'')"
  let ?rest = "\<lambda>k pa t2 arr1. pbnd (skip_newlines k t2) (\<lambda>t3.
      if tok_tok t3 = COMMA then pbnd (EAT_TOKEN t3 COMMA) (\<lambda>t4. pa t4 arr1) else finish_array t3 arr1)"
  have e: "agree (tsize t) (?element (parse_array strtod n) (parse_table strtod n) t1) (?element (parse_array strtod m) (parse_table strtod m) t1)"
    if t1: "lexed t1" "tsize t1 \<le> tsize t" for t1
  proof (cases "tok_tok t1")
    case LBRACKET
    have "agree (tsize t) (pbnd (EAT_TOKEN t1 LBRACKET) (\<lambda>t. pbnd (parse_array strtod n t b) (\<lambda>(t2, x). pok (t2, f x))))
      (pbnd (EAT_TOKEN t1 LBRACKET) (\<lambda>t. pbnd (parse_array strtod m t b) (\<lambda>(t2, x). pok (t2, f x))))" for b and f :: "toml_array_t \<Rightarrow> toml_array_t"
      using t1 by (intro agree_eat agree_pbnd2 [OF arr]) auto
    then show ?thesis using LBRACKET by simp
  next
    case LBRACE
    have "agree (tsize t) (pbnd (EAT_TOKEN t1 LBRACE) (\<lambda>t. pbnd (parse_table strtod n t b) (\<lambda>(t2, x). pok (t2, f x))))
      (pbnd (EAT_TOKEN t1 LBRACE) (\<lambda>t. pbnd (parse_table strtod m t b) (\<lambda>(t2, x). pok (t2, f x))))" for b and f :: "toml_table_t \<Rightarrow> toml_array_t"
      using t1 by (intro agree_eat agree_pbnd2 [OF tab]) auto
    then show ?thesis using LBRACE by simp
  next
    case STRING
    then show ?thesis using agree_mono [OF agree_string_element [OF t1(1)] t1(2)] by simp
  qed simp_all
  have r: "agree (tsize t) (?rest (Suc n) (parse_array strtod n) t2 x) (?rest (Suc m) (parse_array strtod m) t2 x)"
    if t2: "lexed t2" "tsize t2 \<le> tsize t" for t2 x
  proof (rule agree_skip)
    fix t3 assume t3: "lexed t3" "tsize t3 \<le> tsize t2"
    have "agree (tsize t) (pbnd (EAT_TOKEN t3 COMMA) (\<lambda>t4. parse_array strtod n t4 x)) (pbnd (EAT_TOKEN t3 COMMA) (\<lambda>t4. parse_array strtod m t4 x))"
      using t2 t3 by (intro agree_eat agree_mono [OF arr]) auto
    then show "agree (tsize t) (if tok_tok t3 = COMMA then pbnd (EAT_TOKEN t3 COMMA) (\<lambda>t4. parse_array strtod n t4 x) else finish_array t3 x)
      (if tok_tok t3 = COMMA then pbnd (EAT_TOKEN t3 COMMA) (\<lambda>t4. parse_array strtod m t4 x) else finish_array t3 x)"
      using agree_finish(1) [of t3 "tsize t"] t2 t3 by auto
  qed (use t t2 in auto)
  show ?thesis
    unfolding parse_array.simps
  proof (rule agree_skip)
    fix t1 assume t1: "lexed t1" "tsize t1 \<le> tsize t"
    show "agree (tsize t)
      (if tok_tok t1 = RBRACKET then finish_array t1 a
       else pbnd (?element (parse_array strtod n) (parse_table strtod n) t1) (\<lambda>(t2, x). ?rest (Suc n) (parse_array strtod n) t2 x))
      (if tok_tok t1 = RBRACKET then finish_array t1 a
       else pbnd (?element (parse_array strtod m) (parse_table strtod m) t1) (\<lambda>(t2, x). ?rest (Suc m) (parse_array strtod m) t2 x))"
      by (rule agree_if, rule agree_finish(1) [OF t1], rule agree_pbnd2 [OF e [OF t1]], unfold split, rule r)
  qed (use t in auto)
qed

lemma parse_fuel:
  "lexed t \<Longrightarrow> 2 * tsize t \<le> k \<Longrightarrow> k < n \<Longrightarrow> k < m \<Longrightarrow> agree (tsize t) (parse_keyval strtod n t tb) (parse_keyval strtod m t tb)"
  "lexed t \<Longrightarrow> 2 * tsize t + 1 \<le> k \<Longrightarrow> k < n \<Longrightarrow> k < m \<Longrightarrow> agree (tsize t) (parse_table strtod n t tb) (parse_table strtod m t tb)"
  "lexed t \<Longrightarrow> 2 * tsize t \<le> k \<Longrightarrow> k < n \<Longrightarrow> k < m \<Longrightarrow> agree (tsize t) (parse_array strtod n t a) (parse_array strtod m t a)"
proof (induction k arbitrary: t tb a n m rule: less_induct)
  case (less k)
  have keyval: "agree (tsize t) (parse_keyval strtod n t tb) (parse_keyval strtod m t tb)"
    if a: "lexed t" "2 * tsize t \<le> k" "k < n" "k < m" for t tb n m
  proof -
    obtain n' m' where nm: "n = Suc n'" "m = Suc m'" using a by (cases n; cases m) auto
    show ?thesis unfolding nm
      by (rule keyval_step [OF a(1)])
        (use a nm less.IH(3) [of "2 * tsize u" u for u] less.IH(2) [of "2 * tsize u + 1" u for u] in auto)
  qed
  {
    case 1
    then show ?case by (rule keyval)
  next
    case 2
    obtain n' m' where nm: "n = Suc n'" "m = Suc m'" using 2 by (cases n; cases m) auto
    show ?case unfolding nm
      by (rule inline_table_step [OF 2(1)])
        (use 2 nm less.IH(1) [of "2 * tsize t" t n' m'] less.IH(2) [of "2 * tsize u + 1" u for u] in auto)
  next
    case 3
    obtain n' m' where nm: "n = Suc n'" "m = Suc m'" using 3 by (cases n; cases m) auto
    show ?case unfolding nm
      by (rule array_step [OF 3(1)])
        (use 3 nm less.IH(3) [of "2 * tsize u" u for u] less.IH(2) [of "2 * tsize u + 1" u for u] in auto)
  }
qed

lemma at_path_agree: "(\<And>tab. agree k (f tab) (g tab)) \<Longrightarrow> agree k (at_path path f t) (at_path path g t)"
  by (induction path f t arbitrary: g rule: at_path.induct)
    (auto simp: Let_def intro!: agree_pbnd2 split: if_split)

lemma fill_tabpath_lexed:
  "fill_tabpath k l t = pok (keys, t') \<Longrightarrow> lexed t' \<and> tsize t' \<le> tsize t \<and> keys \<noteq> []"
proof (induction k arbitrary: t keys)
  case (Suc k)
  then obtain key t1 where t1: "next_token t True = pok t1" by (auto simp: pbnd_eq_ok split: if_split_asm)
  show ?case
  proof (cases "tok_tok t1 = RBRACKET")
    case True
    then show ?thesis using Suc.prems t1 next_token_lexed [OF t1] by (auto simp: pbnd_eq_ok split: if_split_asm)
  next
    case False
    then obtain t2 rest where "next_token t1 True = pok t2" "fill_tabpath k l t2 = pok (rest, t')" "keys \<noteq> []"
      using Suc.prems t1 by (auto simp: pbnd_eq_ok split: if_split_asm)
    then show ?thesis using Suc.IH next_token_lexed [OF t1] next_token_lexed [of t1 True t2] by fastforce
  qed
qed simp

lemma parse_select_lexed:
  assumes "parse_select t root = pok (t', root', path)" and "lexed t" and "tok_tok t = LBRACKET"
  shows "lexed t' \<and> tsize t' < tsize t"
proof -
  let ?llb = "char_at (tok_ptr t) 1 = CHR ''[''"
  obtain t1 t2 keys t3 t4 where s: "next_token t True = pok t1" "(if ?llb then next_token t1 True else pok t1) = pok t2"
    "fill_tabpath 10 (tok_lineno t2) t2 = pok (keys, t3)" "(if ?llb then EAT_TOKEN t3 RBRACKET else pok t3) = pok t4" "EAT_TOKEN t4 RBRACKET = pok t'"
    using assms(1) unfolding parse_select_def Let_def pbnd_eq_ok split_paired_Ex by (cases ?llb) (auto simp: pbnd_eq_ok split: if_split_asm)
  have "\<not> tok_eof t" "tok_len t = 1" "tok_ptr t \<noteq> []" using assms(2,3) by (auto simp: lexed_def split: if_split_asm)
  then have 1: "tsize t1 < tsize t" "lexed t1" using next_token_lexed [OF s(1)] by (auto simp: neq_Nil_conv)
  have 2: "tsize t2 \<le> tsize t1" using s(2) next_token_lexed [of t1 True t2] by (auto split: if_split_asm)
  have 3: "lexed t3" "tsize t3 \<le> tsize t2" using fill_tabpath_lexed [OF s(3)] by simp_all
  have 4: "lexed t4" "tsize t4 \<le> tsize t3" using s(4) eat_lexed(1,2) [of t3 RBRACKET t4] 3(1) by (auto split: if_split_asm)
  show ?thesis using 1 2 3 4 eat_lexed(1,2) [OF s(5) 4(1)] by linarith
qed

lemma loop_fuel:
  assumes "2 * tsize t < f" and "2 * tsize t < g"
  shows "lexed t \<Longrightarrow> tsize t < n \<Longrightarrow> tsize t < m \<Longrightarrow> toml_parse_loop strtod f n t root cur = toml_parse_loop strtod g m t root cur"
  using assms
proof (induction n arbitrary: t m root cur)
  case (Suc n)
  obtain m' where m: "m = Suc m'" using Suc.prems(3) by (cases m) auto
  have IH: "toml_parse_loop strtod f n u r c = toml_parse_loop strtod g m' u r c" if "lexed u" "tsize u < tsize t" for u r c
    using that Suc.prems m by (intro Suc.IH) auto
  show ?case
  proof (cases "tok_eof t")
    case False
    then have t: "tok_ptr t \<noteq> []" "tok_tok t \<noteq> STRING \<Longrightarrow> tok_len t = 1" using Suc.prems(1) by (auto simp: lexed_def)
    show ?thesis
    proof (cases "tok_tok t")
      case NEWLINE
      have "tsize u < tsize t \<and> lexed u" if "next_token t True = pok u" for u
        using next_token_lexed [OF that] t NEWLINE by (auto simp: neq_Nil_conv)
      then show ?thesis using False NEWLINE m IH by (auto intro!: pbnd_cong)
    next
      case LBRACKET
      then show ?thesis using False m IH parse_select_lexed [of t root] Suc.prems(1) by (auto intro!: pbnd_cong)
    next
      case STRING
      have "agree (tsize t) (at_path cur (parse_keyval strtod f t) root) (at_path cur (parse_keyval strtod g t) root)"
        using Suc.prems by (intro at_path_agree parse_fuel(1) [OF Suc.prems(1) order_refl]) auto
      then have eq: "at_path cur (parse_keyval strtod f t) root = at_path cur (parse_keyval strtod g t) root"
        and u: "\<And>u x. at_path cur (parse_keyval strtod g t) root = pok (u, x) \<Longrightarrow> lexed u \<and> tsize u \<le> tsize t"
        by (auto simp: agree_def)
      have "tsize v < tsize t \<and> lexed v" if "lexed u" "tsize u \<le> tsize t" "EAT_TOKEN u NEWLINE = pok v" "tok_tok u = NEWLINE" for u v
        using eat_lexed [OF that(3,1)] next_token_lexed [of u False v] that t
        by (cases "tok_eof u") (auto simp: lexed_def EAT_TOKEN_def neq_Nil_conv)
      then show ?thesis using False STRING m IH eq u by (auto intro!: pbnd_cong)
    qed (use False m in auto)
  qed (use m in simp)
qed simp

lemma toml_parse_fuel_enough:
  assumes "2 * length conf + 2 < f" and "2 * length conf + 2 < g"
  shows "toml_parse_fuel strtod f conf = toml_parse_fuel strtod g conf"
proof -
  obtain f' g' where fg: "f = Suc f'" "g = Suc g'" using assms by (cases f; cases g) auto
  have "toml_parse_loop strtod f f' t root [] = toml_parse_loop strtod g g' t root []"
    if "next_token (ret_token NEWLINE 1 conf 0) True = pok t" for t root
  proof -
    have "lexed t" "tsize t \<le> length conf" using next_token_lexed [OF that] by (simp_all add: ret_token_def)
    then show ?thesis using assms fg by (intro loop_fuel) auto
  qed
  then have "toml_parse_loop strtod f f (ret_token NEWLINE 1 conf 0) root [] = toml_parse_loop strtod g g (ret_token NEWLINE 1 conf 0) root []" for root
    using fg by (auto simp: ret_token_def intro!: pbnd_cong)
  then show ?thesis by (simp add: toml_parse_fuel_def)
qed

end
