(* ===== verification/Toml_Document.thy ===== *)
theory Toml_Document
  imports Toml_Parser
begin

text \<open>
  What the parser of \<open>Toml_Parser\<close> makes of whole documents: that its fuel makes no difference, the documents on which it never
  returns, and that a document in the form of the server's configuration file is read into the tables it describes.
\<close>

section \<open>Tokens of a text\<close>

definition bare_key :: "string \<Rightarrow> bool" where
  "bare_key k \<longleftrightarrow> k \<noteq> [] \<and> list_all (\<lambda>c. is_upper c \<or> is_lower c \<or> is_digit c \<or> c = CHR ''_'' \<or> c = CHR ''-'') k"

lemma not_bare [simp]:
  "\<not> bare_char d SP" "\<not> bare_char d LF" "\<not> bare_char d CR" "\<not> bare_char d TAB" "\<not> bare_char d SQ" "\<not> bare_char d DQ" "\<not> bare_char d NUL"
  "\<not> bare_char d (CHR '']'')" "\<not> bare_char d (CHR ''['')" "\<not> bare_char d (CHR ''='')" "\<not> bare_char d (CHR '','')" "\<not> bare_char d (CHR ''#'')"
  "\<not> bare_char d (CHR 0x7B)" "\<not> bare_char d (CHR 0x7D)" "\<not> bare_char True (CHR ''.'')"
  by (simp_all add: bare_char_def is_upper_def is_lower_def is_digit_def SQ_def DQ_def)

lemma bare_chars: "bare_char d c \<Longrightarrow> c \<notin> set (''#,=[] '' @ [CHR 0x7B, CHR 0x7D, LF, CR, TAB, SQ, DQ, NUL]) \<and> (c = CHR ''.'' \<longrightarrow> \<not> d)"
  by (cases d) auto

lemma key_char_bare: "is_upper c \<or> is_lower c \<or> is_digit c \<or> c = CHR ''_'' \<or> c = CHR ''-'' \<Longrightarrow> bare_char d c"
  by (cases "c = LF \<or> c = CHR ''.''") (auto simp: bare_char_def is_upper_def is_lower_def is_digit_def)

lemma key_chars: "list_all (\<lambda>c. is_upper c \<or> is_lower c \<or> is_digit c \<or> c = CHR ''_'' \<or> c = CHR ''-'') k \<Longrightarrow> list_all (bare_char d) k"
  using key_char_bare by (simp add: list_all_iff)

lemma next_token_ret [simp]:
  "next_token (ret_token ty l p n) d = make_token (drop n p) (l + count_list (take n p) LF) d"
  by (simp add: next_token_def ret_token_def)

lemma ret_token_sel [simp]:
  "tok_tok (ret_token ty l p n) = ty" "tok_lineno (ret_token ty l p n) = l" "tok_lineno (ret_eof l) = l"
  "tok_eof (ret_token ty l p n) = False"
  "tok_ptr (ret_token ty l p n) = p" "tok_len (ret_token ty l p n) = n" "tok_eof (ret_eof l)" "tok_tok (ret_eof l) = NEWLINE"
  "tok_ptr (ret_eof l) = []" "tok_len (ret_eof l) = 0"
  by (simp_all add: ret_token_def ret_eof_def)

lemma EAT_ret [simp]: "EAT_TOKEN (ret_token ty l p n) ty = next_token (ret_token ty l p n) False"
  by (simp add: EAT_TOKEN_def)

lemma make_token_bare:
  assumes "k \<noteq> []" and "list_all (bare_char d) k" and "s = [] \<or> \<not> bare_char d (hd s)"
  shows "make_token (k @ s) l d = pok (ret_token STRING l (k @ s) (length k))"
proof -
  obtain c k' where k: "k = c # k'" using assms(1) by (cases k) auto
  have c: "bare_char d c" using assms(2) k by simp
  have t: "takeWhile (bare_char d) (k @ s) = k"
    using assms(2,3) by (cases s) (auto simp: list_all_iff takeWhile_append)
  have "char_at (k @ s) 0 = c" by (simp add: k char_at_def)
  moreover have "take 3 (k @ s) \<noteq> [SQ, SQ, SQ]" "take 3 (k @ s) \<noteq> [DQ, DQ, DQ]"
    using bare_chars [OF c] by (simp_all add: k numeral_3_eq_3)
  ultimately have "scan_string (k @ s) l d = pok (ret_token STRING l (k @ s) (length k))"
    using bare_chars [OF c] t by (simp add: scan_string_def)
  then show ?thesis using bare_chars [OF c] by (auto simp: k)
qed

lemma make_token_key:
  "bare_key k \<Longrightarrow> s = [] \<or> \<not> bare_char d (hd s) \<Longrightarrow> make_token (k @ s) l d = pok (ret_token STRING l (k @ s) (length k))"
  using make_token_bare key_chars unfolding bare_key_def by blast

lemma key_no_LF: "bare_key k \<Longrightarrow> count_list k LF = 0"
  using key_chars [of k False] by (auto simp: bare_key_def list_all_iff count_list_0_iff)

lemma normalize_bare:
  assumes "bare_key k"
  shows "normalize_key (ret_token STRING l (k @ s) (length k)) = pok k"
proof -
  have c: "bare_char False (char_at (k @ s) 0)" using assms key_chars [of k False] by (cases k) (auto simp: bare_key_def char_at_def)
  have "char_at (k @ s) 0 \<noteq> SQ" "char_at (k @ s) 0 \<noteq> DQ" using bare_chars [OF c] by auto
  then show ?thesis using assms by (simp add: normalize_key_def token_text_def bare_key_def Let_def)
qed

section \<open>Fuel\<close>



section \<open>Arrays that are not closed\<close>

lemma blank_token:
  assumes "set ws \<subseteq> {SP, TAB, CR, LF}"
  shows "\<exists>ws' l'. set ws' \<subseteq> {SP, TAB, CR, LF} \<and> (make_token ws l d = pok (ret_eof l') \<or> make_token ws l d = pok (ret_token NEWLINE l' (LF # ws') 1))"
  using assms
proof (induction ws l d rule: make_token.induct)
  case (2 c s l d)
  then show ?case by (cases "c = LF") auto
qed (auto intro!: exI [of _ "[]"])

lemma skip_newlines_blank:
  "set ws \<subseteq> {SP, TAB, CR, LF} \<Longrightarrow> t = ret_eof l \<or> t = ret_token NEWLINE l (LF # ws) 1 \<Longrightarrow> skip_newlines n t = Inl Diverges"
proof (induction n arbitrary: t ws l)
  case (Suc n)
  obtain ws' l' where ws': "set ws' \<subseteq> {SP, TAB, CR, LF}" and m: "make_token ws (l + 1) False = pok (ret_eof l')
      \<or> make_token ws (l + 1) False = pok (ret_token NEWLINE l' (LF # ws') 1)"
    using blank_token [OF Suc.prems(1), of "l + 1" False] by blast
  have "next_token (ret_eof l) False = pok (ret_eof l)" by (simp add: next_token_def)
  moreover have "skip_newlines n (ret_eof j) = Inl Diverges" "skip_newlines n (ret_token NEWLINE j (LF # ws') 1) = Inl Diverges" for j
    by (rule Suc.IH [OF ws'], blast)+
  ultimately show ?case using Suc.prems(2) m by auto
qed simp



section \<open>Configuration files\<close>

text \<open>A raw value as it stands in the file: without quotes, or in quotes with nothing to unescape.\<close>

definition raw_value :: "string \<Rightarrow> bool" where
  "raw_value v \<longleftrightarrow> v \<noteq> [] \<and>
     (list_all (bare_char False) v
      \<or> (length v \<ge> 2 \<and> hd v = SQ \<and> last v = SQ \<and> list_all (\<lambda>c. c \<notin> {SQ, LF, NUL}) (tl (butlast v)))
      \<or> (length v \<ge> 2 \<and> hd v = DQ \<and> last v = DQ \<and> list_all (\<lambda>c. c \<notin> {DQ, BACKSLASH, LF, NUL}) (tl (butlast v))))"

lemma raw_value_cases:
  assumes "raw_value v"
  obtains (bare) "v \<noteq> []" "list_all (bare_char False) v"
  | (single) b where "v = SQ # b @ [SQ]" "list_all (\<lambda>c. c \<notin> {SQ, LF, NUL}) b"
  | (double) b where "v = DQ # b @ [DQ]" "list_all (\<lambda>c. c \<notin> {DQ, BACKSLASH, LF, NUL}) b"
proof -
  have q: "\<exists>b. v = q # b @ [q] \<and> tl (butlast v) = b" if "length v \<ge> 2" "hd v = q" "last v = q" for q
    using that by (cases v; cases "tl v" rule: rev_cases) (auto simp: butlast_append)
  show ?thesis using assms q [of SQ] q [of DQ] bare single double unfolding raw_value_def by metis
qed

lemma scan_quoted_plain:
  "list_all (\<lambda>c. c \<notin> {DQ, BACKSLASH, LF, NUL}) b \<Longrightarrow> scan_quoted l False 0 n (b @ DQ # s) = pok (n + length b)"
  by (induction b arbitrary: n) (auto simp: DQ_def BACKSLASH_def)

lemma make_token_value:
  assumes "raw_value v"
  shows "make_token (v @ LF # s) l False = pok (ret_token STRING l (v @ LF # s) (length v))"
  using assms
proof (cases rule: raw_value_cases)
  case bare
  then show ?thesis by (intro make_token_bare) simp_all
next
  case (single b)
  have t: "takeWhile (\<lambda>c. c \<noteq> LF \<and> c \<noteq> SQ) (b @ SQ # LF # s) = b"
    using single(2) by (auto simp: list_all_iff takeWhile_append)
  have "take 3 (v @ LF # s) \<noteq> [SQ, SQ, SQ]" "take 3 (v @ LF # s) \<noteq> [DQ, DQ, DQ]" "char_at (v @ LF # s) 0 = SQ"
    using single by (cases b; auto simp: char_at_def SQ_def DQ_def numeral_3_eq_3)+
  moreover have "SQ \<noteq> DQ" by (simp add: DQ_def SQ_def)
  ultimately have "scan_string (v @ LF # s) l False = pok (ret_token STRING l (v @ LF # s) (length v))"
    using single t by (simp add: scan_string_def char_at_def nth_append)
  then show ?thesis using single by (simp add: SQ_def)
next
  case (double b)
  have "take 3 (v @ LF # s) \<noteq> [SQ, SQ, SQ]" "take 3 (v @ LF # s) \<noteq> [DQ, DQ, DQ]" "char_at (v @ LF # s) 0 = DQ"
    using double by (cases b; auto simp: char_at_def SQ_def DQ_def numeral_3_eq_3)+
  moreover have "DQ \<noteq> SQ" by (simp add: DQ_def SQ_def)
  ultimately have "scan_string (v @ LF # s) l False = pok (ret_token STRING l (v @ LF # s) (length v))"
    using double scan_quoted_plain [OF double(2), of l 1 "LF # s"] by (simp add: scan_string_def char_at_def nth_append)
  then show ?thesis using double by (simp add: DQ_def)
qed

text \<open>A section of the file: its head and its values, one in a line.\<close>

definition value_text :: "toml_keyval_t \<Rightarrow> string" where
  "value_text kv = kv_key kv @ '' = '' @ kv_val kv @ [LF]"

definition section_text :: "string \<Rightarrow> toml_keyval_t list \<Rightarrow> string" where
  "section_text head kvs = ''['' @ head @ '']'' @ [LF] @ concat (map value_text kvs)"

definition section_ok :: "toml_keyval_t list \<Rightarrow> bool" where
  "section_ok kvs \<longleftrightarrow> distinct (map kv_key kvs) \<and> list_all (\<lambda>kv. bare_key (kv_key kv) \<and> raw_value (kv_val kv)) kvs"

text \<open>The rest of the text and the rounds of the loop left.\<close>

definition run :: "(string \<Rightarrow> bool) \<Rightarrow> nat \<Rightarrow> nat \<Rightarrow> nat \<Rightarrow> bool \<Rightarrow> string \<Rightarrow> toml_table_t \<Rightarrow> path_step list \<Rightarrow> toml_table_t parse" where
  "run strtod f n l d s root cur = pbnd (make_token s l d) (\<lambda>t. toml_parse_loop strtod f n t root cur)"

text \<open>The table at the end of a path can be updated alone.\<close>

definition focused :: "path_step list \<Rightarrow> (toml_table_t \<Rightarrow> toml_table_t) \<Rightarrow> bool" where
  "focused cur build \<longleftrightarrow> (\<forall>f tab. at_path cur (f :: toml_table_t \<Rightarrow> (token_t \<times> toml_table_t) parse) (build tab) =
     pbnd (f tab) (\<lambda>(x, t). pok (x, build t)))"

lemma pbnd_assoc: "pbnd (pbnd m f) g = pbnd m (\<lambda>x. pbnd (f x) g)"
  by (simp add: pbnd_def split: sum.split)

lemma find_index_None: "find_index P xs = None \<longleftrightarrow> list_all (\<lambda>x. \<not> P x) xs"
  by (induction xs) auto

lemma keyval_line:
  assumes "bare_key k" and "raw_value v" and "k \<notin> kv_key ` set kvs"
  shows "parse_keyval strtod (Suc f) (ret_token STRING l (k @ '' = '' @ v @ LF # s) (length k)) (Toml_Table key i kvs [] [])
    = pok (ret_token NEWLINE (l + count_list v LF) (LF # s) 1, Toml_Table key i (kvs @ [\<lparr>kv_key = k, kv_val = v\<rparr>]) [] [])"
proof -
  have c: "check_key (Toml_Table key i kvs [] []) k = Found_Nothing"
    using assms(3) by (auto simp: check_key_def find_index_None list_all_iff split: option.split)
  then have "create_keyval_in_table (Toml_Table key i kvs [] []) (ret_token STRING l (k @ '' = '' @ v @ LF # s) (length k)) v
      = pok (Toml_Table key i (kvs @ [\<lparr>kv_key = k, kv_val = v\<rparr>]) [] [])"
    using normalize_bare [OF assms(1), of l "'' = '' @ v @ LF # s"] by (simp add: create_keyval_in_table_def add_kval_def)
  then show ?thesis using key_no_LF [OF assms(1)] make_token_value [OF assms(2), of s l] by (simp add: token_text_def)
qed

lemma value_no_LF: "raw_value v \<Longrightarrow> count_list v LF = 0"
  by (erule raw_value_cases) (auto simp: list_all_iff count_list_0_iff SQ_def DQ_def)

lemma run_value:
  assumes "bare_key k" and "raw_value v" and "k \<notin> kv_key ` set kvs" and "focused cur build"
  shows "run strtod (Suc f) (Suc n) l d (value_text \<lparr>kv_key = k, kv_val = v\<rparr> @ s) (build (Toml_Table key i kvs [] [])) cur
    = run strtod (Suc f) n (l + 1) False s (build (Toml_Table key i (kvs @ [\<lparr>kv_key = k, kv_val = v\<rparr>]) [] [])) cur"
proof -
  let ?p = "k @ '' = '' @ v @ LF # s"
  have "value_text \<lparr>kv_key = k, kv_val = v\<rparr> @ s = ?p" by (simp add: value_text_def)
  moreover have "make_token ?p l d = pok (ret_token STRING l ?p (length k))"
    using make_token_key [OF assms(1), of "'' = '' @ v @ LF # s"] by simp
  moreover have "at_path cur (parse_keyval strtod (Suc f) (ret_token STRING l ?p (length k))) (build (Toml_Table key i kvs [] []))
      = pok (ret_token NEWLINE l (LF # s) 1, build (Toml_Table key i (kvs @ [\<lparr>kv_key = k, kv_val = v\<rparr>]) [] []))"
    using assms(4) keyval_line [OF assms(1-3), of strtod f l s key i] value_no_LF [OF assms(2)] unfolding focused_def by simp
  ultimately show ?thesis by (simp add: run_def)
qed

lemma run_values:
  assumes "list_all (\<lambda>kv. bare_key (kv_key kv) \<and> raw_value (kv_val kv)) kvs" and "focused cur build"
    and "distinct (map kv_key (kvs0 @ kvs))"
  shows "run strtod (Suc f) (length kvs + n) l d (concat (map value_text kvs) @ s) (build (Toml_Table key i kvs0 [] [])) cur
    = run strtod (Suc f) n (l + length kvs) (d \<and> kvs = []) s (build (Toml_Table key i (kvs0 @ kvs) [] [])) cur"
  using assms
proof (induction kvs arbitrary: kvs0 l d)
  case (Cons kv kvs)
  have kv: "\<lparr>kv_key = kv_key kv, kv_val = kv_val kv\<rparr> = kv" by simp
  have "kv_key kv \<notin> kv_key ` set kvs0" using Cons.prems(3) by auto
  from run_value [OF _ _ this assms(2), of "kv_val kv" strtod f "length kvs + n" l d "concat (map value_text kvs) @ s" key i]
  show ?case using Cons.prems Cons.IH [of "kvs0 @ [kv]" "l + 1" False] unfolding kv by simp
qed simp

lemma fill_one:
  assumes "bare_key k"
  shows "fill_tabpath (Suc m) l (ret_token STRING l (k @ CHR '']'' # s) (length k))
    = pok ([(ret_token STRING l (k @ CHR '']'' # s) (length k), k)], ret_token RBRACKET l (CHR '']'' # s) 1)"
  using key_no_LF [OF assms] by (simp add: normalize_bare [OF assms])

lemma fill_two:
  assumes "bare_key k" and "bare_key z"
  shows "fill_tabpath (Suc (Suc m)) l (ret_token STRING l (k @ CHR ''.'' # z @ CHR '']'' # s) (length k))
    = pok ([(ret_token STRING l (k @ CHR ''.'' # z @ CHR '']'' # s) (length k), k), (ret_token STRING l (z @ CHR '']'' # s) (length z), z)],
         ret_token RBRACKET l (CHR '']'' # s) 1)"
  using key_no_LF [OF assms(1)] fill_one [OF assms(2), of m l s] make_token_key [OF assms(2), of "CHR '']'' # s" True l]
  by (simp add: normalize_bare [OF assms(1)])

text \<open>The current table after the head of a section.\<close>

definition selected :: "string \<Rightarrow> path_step list \<Rightarrow> toml_table_t \<Rightarrow> nat \<Rightarrow> toml_table_t \<Rightarrow> bool" where
  "selected z path root i root' \<longleftrightarrow> (\<forall>keytok. normalize_key keytok = pok z \<longrightarrow> at_path path (select_table keytok) root = pok (In_Table i, root'))"

lemma bracket_key: "bare_key k \<Longrightarrow> char_at (CHR ''['' # k @ s) 1 \<noteq> CHR ''[''"
  using key_chars [of k False] by (cases k) (auto simp: bare_key_def char_at_def)

lemma section_end:
  "EAT_TOKEN (ret_token RBRACKET l (CHR '']'' # LF # s) 1) RBRACKET = pok (ret_token NEWLINE l (LF # s) 1)"
  by simp

lemma select_section:
  assumes "bare_key z" and "selected z [] root i root'"
  shows "parse_select (ret_token LBRACKET l (CHR ''['' # z @ CHR '']'' # LF # s) 1) root = pok (ret_token NEWLINE l (LF # s) 1, root', [In_Table i])"
proof -
  let ?z = "ret_token STRING l (z @ CHR '']'' # LF # s) (length z)"
  have "select_table ?z root = pok (In_Table i, root')" using assms normalize_bare [OF assms(1)] by (simp add: selected_def)
  moreover have "fill_tabpath 10 l ?z = pok ([(?z, z)], ret_token RBRACKET l (CHR '']'' # LF # s) 1)"
    using fill_one [OF assms(1), of 9 l "LF # s"] by (simp add: eval_nat_numeral)
  moreover have "make_token (z @ CHR '']'' # LF # s) l True = pok ?z" using make_token_key [OF assms(1), of "CHR '']'' # LF # s" True l] by simp
  ultimately show ?thesis using bracket_key [OF assms(1)] by (simp add: parse_select_def Let_def)
qed

lemma select_subsection:
  assumes "bare_key k" and "bare_key z" and "\<And>tok. walk_tabpath [(tok, k)] root = pok (path, root1)" and "selected z path root1 i root'"
  shows "parse_select (ret_token LBRACKET l (CHR ''['' # k @ CHR ''.'' # z @ CHR '']'' # LF # s) 1) root
    = pok (ret_token NEWLINE l (LF # s) 1, root', path @ [In_Table i])"
proof -
  let ?k = "ret_token STRING l (k @ CHR ''.'' # z @ CHR '']'' # LF # s) (length k)"
  let ?z = "ret_token STRING l (z @ CHR '']'' # LF # s) (length z)"
  have "at_path path (select_table ?z) root1 = pok (In_Table i, root')" using assms(4) normalize_bare [OF assms(2)] by (simp add: selected_def)
  moreover have "fill_tabpath 10 l ?k = pok ([(?k, k), (?z, z)], ret_token RBRACKET l (CHR '']'' # LF # s) 1)"
    using fill_two [OF assms(1,2), of 8 l "LF # s"] by (simp add: eval_nat_numeral)
  moreover have "make_token (k @ CHR ''.'' # z @ CHR '']'' # LF # s) l True = pok ?k"
    using make_token_key [OF assms(1), of "CHR ''.'' # z @ CHR '']'' # LF # s" True l] by simp
  ultimately show ?thesis using bracket_key [OF assms(1)] assms(3) [of ?k] by (simp add: parse_select_def Let_def del: walk_tabpath.simps)
qed

lemma run_head:
  assumes "parse_select (ret_token LBRACKET l (CHR ''['' # h @ CHR '']'' # LF # s) 1) root = pok (ret_token NEWLINE l (LF # s) 1, root', path)"
  shows "run strtod f (Suc (Suc n)) l d (CHR ''['' # h @ CHR '']'' # LF # s) root cur = run strtod f n (l + 1) True s root' path"
  using assms by (simp add: run_def)

text \<open>The file and the document it describes.\<close>

fun servers_text :: "(string \<times> toml_keyval_t list) list \<Rightarrow> string" where
  "servers_text [] = []"
| "servers_text ((name, kvs) # servers) = section_text (''servers.'' @ name) kvs @ servers_text servers"

definition config_text :: "toml_keyval_t list \<Rightarrow> (string \<times> toml_keyval_t list) list \<Rightarrow> string" where
  "config_text kvs servers = section_text ''server'' kvs @ servers_text servers"

definition server_table :: "string \<times> toml_keyval_t list \<Rightarrow> toml_table_t" where
  "server_table sv = Toml_Table (Some (fst sv)) False (snd sv) [] []"

definition config_doc :: "toml_keyval_t list \<Rightarrow> (string \<times> toml_keyval_t list) list \<Rightarrow> toml_table_t" where
  "config_doc kvs servers = Toml_Table None False [] []
     (Toml_Table (Some ''server'') False kvs [] []
      # (if servers = [] then [] else [Toml_Table (Some ''servers'') True [] [] (map server_table servers)]))"

definition config_ok :: "toml_keyval_t list \<Rightarrow> (string \<times> toml_keyval_t list) list \<Rightarrow> bool" where
  "config_ok kvs servers \<longleftrightarrow> section_ok kvs \<and> distinct (map fst servers) \<and> list_all (\<lambda>(name, kvs). bare_key name \<and> section_ok kvs) servers"

lemma section_keys: "bare_key ''server''" "bare_key ''servers''"
  by (simp_all add: bare_key_def is_lower_def)

abbreviation server_root :: "toml_keyval_t list \<Rightarrow> toml_table_t list \<Rightarrow> toml_table_t" where
  "server_root kvs ts \<equiv> Toml_Table None False [] [] [Toml_Table (Some ''server'') False kvs [] [], Toml_Table (Some ''servers'') True [] [] ts]"

lemma run_server_section:
  assumes "section_ok kvs"
  shows "\<exists>d' l'. run strtod (Suc f) (2 + length kvs + n) 1 d (section_text ''server'' kvs @ s) (Toml_Table None False [] [] []) []
    = run strtod (Suc f) n l' d' s (config_doc kvs []) [In_Table 0]"
proof -
  let ?build = "\<lambda>t. Toml_Table None False [] [] [t]"
  have "selected ''server'' [] (Toml_Table None False [] [] []) 0 (?build (Toml_Table (Some ''server'') False [] [] []))"
    by (simp add: selected_def select_table_def create_keytable_in_table_def check_key_def set_tabs_def)
  from run_head [OF select_section [OF section_keys(1) this, of 1 "concat (map value_text kvs) @ s"], of strtod "Suc f" "length kvs + n" d "[]"]
  have 1: "run strtod (Suc f) (2 + length kvs + n) 1 d (section_text ''server'' kvs @ s) (Toml_Table None False [] [] []) []
    = run strtod (Suc f) (length kvs + n) 2 True (concat (map value_text kvs) @ s) (?build (Toml_Table (Some ''server'') False [] [] [])) [In_Table 0]"
    by (simp add: section_text_def numeral_2_eq_2)
  have "focused [In_Table 0] ?build" by (simp add: focused_def set_tabs_def)
  from run_values [OF _ this, of kvs "[]"] assms 1 show ?thesis unfolding section_ok_def config_doc_def by auto
qed

lemma walk_servers:
  "walk_tabpath [(tok, ''servers'')] (config_doc kvs ds) = pok ([In_Table 1], server_root kvs (map server_table ds))"
  by (auto simp: config_doc_def check_key_def set_tabs_def)

lemma server_selected:
  assumes "z \<notin> fst ` set ds"
  shows "selected z [In_Table 1] (server_root kvs (map server_table ds)) (length ds)
    (server_root kvs (map server_table ds @ [Toml_Table (Some z) False [] [] []]))"
proof -
  have "check_key (Toml_Table (Some ''servers'') True [] [] (map server_table ds)) z = Found_Nothing"
    using assms by (auto simp: check_key_def find_index_None list_all_iff server_table_def split: option.split)
  then show ?thesis by (simp add: selected_def select_table_def create_keytable_in_table_def set_tabs_def)
qed

lemma run_servers_section:
  assumes "bare_key z" and "section_ok kvs" and "z \<notin> fst ` set ds"
  shows "\<exists>d' l' cur'. run strtod (Suc f) (2 + length kvs + n) l d (section_text (''servers.'' @ z) kvs @ s) (config_doc skvs ds) cur
    = run strtod (Suc f) n l' d' s (config_doc skvs (ds @ [(z, kvs)])) cur'"
proof -
  let ?build = "\<lambda>t. server_root skvs (map server_table ds @ [t])"
  have "run strtod (Suc f) (2 + length kvs + n) l d (section_text (''servers.'' @ z) kvs @ s) (config_doc skvs ds) cur
    = run strtod (Suc f) (length kvs + n) (l + 1) True (concat (map value_text kvs) @ s) (?build (Toml_Table (Some z) False [] [] []))
        [In_Table 1, In_Table (length ds)]"
    using run_head [of l "''servers.'' @ z" "concat (map value_text kvs) @ s"]
      select_subsection [OF section_keys(2) assms(1) walk_servers server_selected [OF assms(3)], of l "concat (map value_text kvs) @ s"]
    by (simp add: section_text_def)
  moreover have "focused [In_Table 1, In_Table (length ds)] ?build"
    by (simp add: focused_def set_tabs_def pbnd_assoc split_def nth_append list_update_append)
  moreover have "?build (Toml_Table (Some z) False kvs [] []) = config_doc skvs (ds @ [(z, kvs)])" by (simp add: config_doc_def server_table_def)
  ultimately show ?thesis using run_values [of kvs "[In_Table 1, In_Table (length ds)]" ?build "[]"] assms(2)
    unfolding section_ok_def by auto
qed

text \<open>The rounds of the loop that the sections of the servers take.\<close>

fun rounds :: "(string \<times> toml_keyval_t list) list \<Rightarrow> nat" where
  "rounds [] = 0"
| "rounds ((name, kvs) # servers) = 2 + length kvs + rounds servers"

lemma run_config:
  assumes "distinct (map fst (ds @ servers))" and "list_all (\<lambda>(name, kvs). bare_key name \<and> section_ok kvs) servers"
  shows "run strtod (Suc f) (rounds servers + Suc n) l d (servers_text servers) (config_doc skvs ds) cur = pok (config_doc skvs (ds @ servers))"
  using assms
proof (induction servers arbitrary: ds l d cur)
  case Nil
  then show ?case by (simp add: run_def)
next
  case (Cons sv servers)
  obtain z kvs where sv: "sv = (z, kvs)" by (cases sv)
  have "bare_key z" "section_ok kvs" "z \<notin> fst ` set ds" using Cons.prems sv by auto
  from run_servers_section [OF this, of strtod f "rounds servers + Suc n" l d "servers_text servers" skvs cur]
  obtain d' l' cur' where "run strtod (Suc f) (2 + length kvs + (rounds servers + Suc n)) l d
      (section_text (''servers.'' @ z) kvs @ servers_text servers) (config_doc skvs ds) cur
    = run strtod (Suc f) (rounds servers + Suc n) l' d' (servers_text servers) (config_doc skvs (ds @ [(z, kvs)])) cur'" by blast
  moreover have "run strtod (Suc f) (rounds servers + Suc n) l' d' (servers_text servers) (config_doc skvs (ds @ [(z, kvs)])) cur'
    = pok (config_doc skvs ((ds @ [(z, kvs)]) @ servers))"
    using Cons.prems sv by (intro Cons.IH) auto
  ultimately show ?case unfolding sv rounds.simps servers_text.simps by (simp only: add.assoc append_assoc append_Cons append_Nil)
qed

lemma config_text_NUL:
  assumes "config_ok kvs servers"
  shows "NUL \<notin> set (config_text kvs servers)"
proof -
  have k: "NUL \<notin> set k" if "bare_key k" for k using that key_chars [of k False] by (auto simp: bare_key_def list_all_iff)
  have v: "NUL \<notin> set v" if "raw_value v" for v using that by (cases rule: raw_value_cases) (auto simp: list_all_iff SQ_def DQ_def)
  have "NUL \<notin> set (section_text h kvs)" if "NUL \<notin> set h" "section_ok kvs" for h kvs
    using that k v by (auto simp: section_text_def section_ok_def value_text_def list_all_iff)
  note sect = this
  have "NUL \<notin> set (servers_text servers)" if "list_all (\<lambda>(name, kvs). bare_key name \<and> section_ok kvs) servers"
    using that by (induction servers rule: servers_text.induct) (auto simp: sect k)
  then show ?thesis using assms sect [of "''server''" kvs] by (simp add: config_text_def config_ok_def)
qed

lemma toml_parse_text:
  assumes "config_ok kvs servers"
  shows "toml_parse strtod (lit (config_text kvs servers)) = Inr (Some (config_doc kvs servers))"
proof -
  let ?conf = "config_text kvs servers"
  define r where "r = rounds servers + Suc (2 * length ?conf + 3)"
  let ?F = "Suc (2 + length kvs + r)"
  obtain d' l' where "run strtod ?F (2 + length kvs + r) 1 True ?conf (Toml_Table None False [] [] []) []
    = run strtod ?F r l' d' (servers_text servers) (config_doc kvs []) [In_Table 0]"
    using run_server_section [of kvs strtod "2 + length kvs + r" r True "servers_text servers"] assms unfolding config_text_def config_ok_def by blast
  also have "\<dots> = pok (config_doc kvs servers)"
    using run_config [of "[]" servers] assms unfolding r_def config_ok_def append_Nil by blast
  finally have "toml_parse_fuel strtod ?F ?conf = Inr (Some (config_doc kvs servers))"
    by (simp add: toml_parse_fuel_def run_def pok_def)
  moreover have "2 * length ?conf + 2 < ?F" by (simp add: r_def)
  ultimately show ?thesis
    using toml_parse_fuel_enough [of ?conf ?F "2 * length ?conf + 3" strtod] config_text_NUL [OF assms] by (simp add: toml_parse_def)
qed

text \<open>C8. A configuration file is read as it is written: a section \<^verbatim>\<open>[server]\<close> and a section \<^verbatim>\<open>[servers.name]\<close> for each server, with
  keys and names of letters, digits, dashes and underscores, none of them twice in a section, and values without quotes or in
  quotes with nothing to unescape, are parsed, without an error or a fault, into the table of the process and a table for each
  server in the order of the file, with their raw values.\<close>

theorem toml_parse_config:
  assumes "config_ok kvs servers"
  shows "toml_parse strtod (lit (config_text kvs servers)) = Inr (Some (config_doc kvs servers))"
  using assms by (rule toml_parse_text)

theorem toml_parse_config_witness:
  "toml_parse (\<lambda>_. False) (lit (''[server]'' @ [LF] @ ''threads = 4'' @ [LF] @ ''[servers.a]'' @ [LF] @ ''port = 80'' @ [LF]))
    = Inr (Some (Toml_Table None False [] [] [Toml_Table (Some ''server'') False [\<lparr>kv_key = ''threads'', kv_val = ''4''\<rparr>] [] [],
        Toml_Table (Some ''servers'') True [] [] [Toml_Table (Some ''a'') False [\<lparr>kv_key = ''port'', kv_val = ''80''\<rparr>] [] []]]))"
proof -
  have "config_ok [\<lparr>kv_key = ''threads'', kv_val = ''4''\<rparr>] [(''a'', [\<lparr>kv_key = ''port'', kv_val = ''80''\<rparr>])]" by code_simp
  from toml_parse_config [OF this, of "\<lambda>_. False"] show ?thesis
    by (simp add: config_text_def config_doc_def section_text_def value_text_def server_table_def)
qed

text \<open>An element of an array that is no token, such as \<^verbatim>\<open>@\<close>, is read as an empty value, and looking for its type reads in front of it.\<close>

lemma toml_array_stray_element: "toml_parse strtod (lit ''a = [@]'') = Inl OutOfBounds"
proof -
  have "toml_parse_fuel strtod 17 ''a = [@]'' = Inl OutOfBounds" by code_simp
  then show ?thesis by (simp add: toml_parse_def eval_nat_numeral)
qed

end
