(* ===== verification/Config.thy ===== *)
theory Config
  imports Hash_Table Toml_Document
begin

text \<open>
  The configuration of \<^verbatim>\<open>src/config/config.c\<close>: reading a TOML document into one record for the
  process and a list of records for the servers, and looking servers up. What OpenSSL and the file system
  answer are arguments, collected in \<open>config_env\<close>; the settings the code makes on a
  TLS context are recorded in the context.
\<close>

section \<open>Data\<close>

text \<open>A TLS context is known by its address and by what has been set on it.\<close>

record ssl_ctx_t =
  ctx_address :: nat
  ctx_privateKey :: string
  ctx_certificate :: string
  ctx_min_proto_version :: string
  ctx_curves_list :: string
  ctx_verify_none :: bool
  ctx_cipher_list :: string
  ctx_ciphersuites :: "string option"

text \<open>The elements of a parsed array are pointers to strings, or integers in the place of a pointer.\<close>

datatype array_value = IntValue int | StringValue string_t

record server_config_t =
  sc_name :: "string_t option"
  sc_domain :: "string_t option"
  sc_rootDirectory :: "string_t option"
  sc_port :: int
  sc_enabled :: int
  sc_dhparams :: "nat option"
  sc_sslContext :: "ssl_ctx_t option"
  sc_directoryIndex :: "array_value list_t option"

record config_t =
  cfg_daemon :: int
  cfg_serverConfigs :: "server_config_t list_t"
  cfg_logfile :: "string_t option"
  cfg_loggingLevel :: nat
  cfg_threads :: nat
  cfg_backlog :: nat

text \<open>
  The outside world: whether \<^verbatim>\<open>strtod\<close> reads a whole text without leaving the range of a double, \<^verbatim>\<open>realpath\<close>, the backlog limit of the system, whether a TLS context
  can be created (and where), whether a key and a certificate file can be used, and what reading a file
  of Diffie Hellman parameters gives (nothing when it cannot be opened).
\<close>

record config_env =
  env_strtod :: "string \<Rightarrow> bool"
  env_realpath :: "string \<Rightarrow> string option"
  env_SOMAXCONN :: int
  env_SSL_CTX_new :: "nat \<Rightarrow> nat option"
  env_use_PrivateKey_file :: "string \<Rightarrow> bool"
  env_use_certificate_file :: "string \<Rightarrow> string \<Rightarrow> bool"
  env_read_DHparams :: "string \<Rightarrow> nat option option"

definition CONFIG_TLS_DEFAULT_ELLIPTIC_CURVES :: string where
  "CONFIG_TLS_DEFAULT_ELLIPTIC_CURVES = ''P-256:P-384:X25519''"

definition CONFIG_TLS_DEFAULT_TLS_1_2_CIPHER_SUITE :: string where
  "CONFIG_TLS_DEFAULT_TLS_1_2_CIPHER_SUITE = ''ECDHE-ECDSA-AES128-GCM-SHA256:ECDHE-RSA-AES128-GCM-SHA256:ECDHE-ECDSA-AES256-GCM-SHA384:ECDHE-RSA-AES256-GCM-SHA384:ECDHE-ECDSA-CHACHA20-POLY1305:ECDHE-RSA-CHACHA20-POLY1305:DHE-RSA-AES128-GCM-SHA256:DHE-RSA-AES256-GCM-SHA384''"

definition CONFIG_TLS_DEFAULT_TLS_1_3_CIPHER_SUITE :: string where
  "CONFIG_TLS_DEFAULT_TLS_1_3_CIPHER_SUITE = ''TLS_AES_128_GCM_SHA256:TLS_AES_256_GCM_SHA384:TLS_CHACHA20_POLY1305_SHA256''"

section \<open>Reading values\<close>

definition config_parseString :: "toml_table_t \<Rightarrow> string \<Rightarrow> string_t option exec" where
  "config_parseString table key =
     (case toml_raw_in table key of
        None \<Rightarrow> Inr None
      | Some rawValue \<Rightarrow>
          (case toml_rtos (Some rawValue) of
             None \<Rightarrow> Inr None
           | Some value \<Rightarrow> bnd (string_fromBuffer value) (\<lambda>s. Inr (Some s))))"

definition config_parseInt :: "toml_table_t \<Rightarrow> string \<Rightarrow> int exec" where
  "config_parseInt table key =
     (case toml_raw_in table key of
        None \<Rightarrow> Inr 0
      | Some rawValue \<Rightarrow>
          bnd (toml_rtoi (Some rawValue)) (\<lambda>r. Inr (case r of None \<Rightarrow> 0 | Some value \<Rightarrow> value)))"

definition config_parseBool :: "toml_table_t \<Rightarrow> string \<Rightarrow> int" where
  "config_parseBool table key =
     (case toml_raw_in table key of
        None \<Rightarrow> -1
      | Some rawValue \<Rightarrow>
          (case toml_rtob (Some rawValue) of None \<Rightarrow> -1 | Some value \<Rightarrow> if value then 1 else 0))"

text \<open>
  One element of an array whose type is known. The parser gives an array the type of its values, so that
  an integer can be read; a string that cannot be unescaped leaves a null pointer behind. A type other than
  integer, string and boolean adds nothing.
\<close>

definition config_parseElement :: "char \<Rightarrow> string \<Rightarrow> array_value list_t \<Rightarrow> array_value list_t exec" where
  "config_parseElement type rawValue l =
     (if type = CHR ''i'' then
        bnd (toml_rtoi (Some rawValue)) (\<lambda>r.
          list_addValue l (IntValue (case r of None \<Rightarrow> 0 | Some value \<Rightarrow> value)))
      else if type = CHR ''s'' then
        bnd (deref (toml_rtos (Some rawValue))) (\<lambda>value.
        bnd (string_fromBuffer value) (\<lambda>s. list_addValue l (StringValue s)))
      else if type = CHR ''b'' then
        list_addValue l (IntValue (case toml_rtob (Some rawValue) of Some True \<Rightarrow> 1 | _ \<Rightarrow> 0))
      else Inr l)"

fun config_parseElements :: "nat \<Rightarrow> nat \<Rightarrow> char \<Rightarrow> toml_array_t \<Rightarrow> array_value list_t \<Rightarrow> array_value list_t option exec" where
  "config_parseElements 0 i type arr l = Inr (Some l)"
| "config_parseElements (Suc n) i type arr l =
     (case toml_raw_at arr i of
        None \<Rightarrow> bnd (list_free l) (\<lambda>_. Inr None)
      | Some rawValue \<Rightarrow>
          bnd (config_parseElement type rawValue l) (\<lambda>l'. config_parseElements n (Suc i) type arr l'))"

definition config_parseArray :: "toml_table_t \<Rightarrow> string \<Rightarrow> array_value list_t option exec" where
  "config_parseArray table key =
     (case toml_array_in table key of
        None \<Rightarrow> Inr None
      | Some arr \<Rightarrow> config_parseElements (toml_array_nelem arr) 0 (toml_array_type arr) arr list_create)"

section \<open>Releasing\<close>

text \<open>
  The index files are released as strings until a null pointer comes; an integer other than zero is not
  the address of a string.
\<close>

fun config_freeIndex :: "nat \<Rightarrow> array_value list_t \<Rightarrow> array_value list_t exec" where
  "config_freeIndex 0 l = Inl Diverges"
| "config_freeIndex (Suc n) l =
     bnd (list_removeValue l 0) (\<lambda>(index, l').
       case index of
         None \<Rightarrow> Inr l'
       | Some (StringValue s) \<Rightarrow> bnd (string_free (Some s)) (\<lambda>_. config_freeIndex n l')
       | Some (IntValue i) \<Rightarrow> if i = 0 then Inr l' else Inl DanglingPointer)"

definition free_str :: "string_t option \<Rightarrow> unit exec" where
  "free_str p = (if p \<noteq> None then string_free p else Inr ())"

definition config_freeServerConfig :: "server_config_t \<Rightarrow> unit exec" where
  "config_freeServerConfig sc =
     bnd (free_str (sc_name sc)) (\<lambda>_.
     bnd (free_str (sc_domain sc)) (\<lambda>_.
     bnd (free_str (sc_rootDirectory sc)) (\<lambda>_.
       case sc_directoryIndex sc of
         None \<Rightarrow> Inr ()
       | Some l \<Rightarrow> bnd (config_freeIndex (Suc (list_length l)) l) (\<lambda>l'. bnd (list_free l') (\<lambda>_. Inr ())))))"

fun config_free_loop :: "nat \<Rightarrow> server_config_t list_t \<Rightarrow> server_config_t list_t exec" where
  "config_free_loop 0 l = Inl Diverges"
| "config_free_loop (Suc n) l =
     bnd (list_removeValue l 0) (\<lambda>(p, l').
       case p of
         None \<Rightarrow> Inr l'
       | Some sc \<Rightarrow> bnd (config_freeServerConfig sc) (\<lambda>_. config_free_loop n l'))"

definition config_free :: "config_t \<Rightarrow> unit exec" where
  "config_free config =
     bnd (config_free_loop (Suc (list_length (cfg_serverConfigs config))) (cfg_serverConfigs config)) (\<lambda>l.
     bnd (list_free l) (\<lambda>_. free_str (cfg_logfile config)))"

section \<open>Reading a server\<close>

text \<open>A failed server is released and nothing is returned.\<close>

definition config_reject :: "server_config_t \<Rightarrow> server_config_t option exec" where
  "config_reject sc = bnd (config_freeServerConfig sc) (\<lambda>_. Inr None)"

text \<open>The port and the index files, then before them the name, domain and root directory. The result is
  either the answer for a rejected server or the server read so far.\<close>

definition config_parseServerPort :: "toml_table_t \<Rightarrow> server_config_t \<Rightarrow> (server_config_t option + server_config_t) exec" where
  "config_parseServerPort serverTable config =
     bnd (if toml_raw_in serverTable ''port'' \<noteq> None then config_parseInt serverTable ''port'' else Inr 0) (\<lambda>port.
       if toml_raw_in serverTable ''port'' \<noteq> None \<and> (port < 0 \<or> port > 65536)
       then bnd (config_reject config) (\<lambda>r. Inr (Inl r))
       else bnd (config_parseArray serverTable ''directoryIndex'') (\<lambda>index.
              Inr (Inr (config\<lparr>sc_port := (if toml_raw_in serverTable ''port'' \<noteq> None then to_int16 port else sc_port config),
                               sc_directoryIndex := index\<rparr>))))"

definition config_parseServerRoot ::
  "config_env \<Rightarrow> string_t option \<Rightarrow> server_config_t \<Rightarrow> (server_config_t option + server_config_t) exec" where
  "config_parseServerRoot env relativePath config =
     (case relativePath of
        None \<Rightarrow> Inr (Inr config)
      | Some p \<Rightarrow>
          (case env_realpath env (key_text p) of
             None \<Rightarrow> bnd (config_reject config) (\<lambda>r. Inr (Inl r))
           | Some absolutePath \<Rightarrow>
               bnd (string_fromBuffer (lit absolutePath)) (\<lambda>root.
                 Inr (Inr (config\<lparr>sc_rootDirectory := Some root\<rparr>)))))"

definition config_parseServerBasics ::
  "config_env \<Rightarrow> toml_table_t \<Rightarrow> (server_config_t option + server_config_t) exec" where
  "config_parseServerBasics env serverTable =
     (let config = \<lparr>sc_name = None, sc_domain = None, sc_rootDirectory = None, sc_port = 0, sc_enabled = 0,
                    sc_dhparams = None, sc_sslContext = None, sc_directoryIndex = None\<rparr> in
      bnd (deref (toml_table_key (Some serverTable))) (\<lambda>rawName.
      bnd (string_fromBuffer (lit rawName)) (\<lambda>name.
      bnd (config_parseString serverTable ''domain'') (\<lambda>domain.
      bnd (config_parseString serverTable ''rootDirectory'') (\<lambda>relativePath.
        let config = config\<lparr>sc_name := Some name, sc_domain := domain\<rparr> in
        bnd (config_parseServerRoot env relativePath config) (\<lambda>rooted.
          case rooted of
            Inl r \<Rightarrow> Inr (Inl r)
          | Inr config \<Rightarrow>
              config_parseServerPort serverTable (config\<lparr>sc_enabled := config_parseBool serverTable ''enabled''\<rparr>)))))))"

text \<open>The settings of the TLS context, the Diffie Hellman parameters, and the TLS part of a server that has a
  private key and a certificate.\<close>

definition config_setupContext :: "nat \<Rightarrow> toml_table_t \<Rightarrow> string_t \<Rightarrow> string_t \<Rightarrow> ssl_ctx_t exec" where
  "config_setupContext address serverTable privateKey certificate =
     bnd (config_parseString serverTable ''ellipticCurves'') (\<lambda>ellipticCurves.
     let verifyCertificates = config_parseBool serverTable ''validateCertificate'' in
     bnd (config_parseString serverTable ''cipherSuite'') (\<lambda>cipherSuite.
       Inr \<lparr>ctx_address = address, ctx_privateKey = key_text privateKey, ctx_certificate = key_text certificate,
            ctx_min_proto_version = ''TLS1_2'',
            ctx_curves_list = (case ellipticCurves of None \<Rightarrow> CONFIG_TLS_DEFAULT_ELLIPTIC_CURVES | Some s \<Rightarrow> key_text s),
            ctx_verify_none = (verifyCertificates = 0),
            ctx_cipher_list = (case cipherSuite of None \<Rightarrow> CONFIG_TLS_DEFAULT_TLS_1_2_CIPHER_SUITE | Some s \<Rightarrow> key_text s),
            ctx_ciphersuites = (case cipherSuite of None \<Rightarrow> Some CONFIG_TLS_DEFAULT_TLS_1_3_CIPHER_SUITE | Some s \<Rightarrow> None)\<rparr>))"

definition config_parseServerDH :: "config_env \<Rightarrow> toml_table_t \<Rightarrow> server_config_t \<Rightarrow> server_config_t option exec" where
  "config_parseServerDH env serverTable config =
     bnd (config_parseString serverTable ''dhparams'') (\<lambda>dhparams.
       case dhparams of
         None \<Rightarrow> Inr (Some config)
       | Some s \<Rightarrow>
           (case env_read_DHparams env (key_text s) of
              None \<Rightarrow> config_reject config
            | Some dh \<Rightarrow> Inr (Some (config\<lparr>sc_dhparams := dh\<rparr>))))"

definition config_parseServerTLS ::
  "config_env \<Rightarrow> nat \<Rightarrow> toml_table_t \<Rightarrow> string_t \<Rightarrow> string_t \<Rightarrow> server_config_t \<Rightarrow> server_config_t option exec" where
  "config_parseServerTLS env fresh serverTable privateKey certificate config =
     (case env_SSL_CTX_new env fresh of
        None \<Rightarrow> config_reject config
      | Some address \<Rightarrow>
          if \<not> env_use_PrivateKey_file env (key_text privateKey) then config_reject config
          else if \<not> env_use_certificate_file env (key_text privateKey) (key_text certificate) then config_reject config
          else bnd (config_setupContext address serverTable privateKey certificate) (\<lambda>context.
                 config_parseServerDH env serverTable (config\<lparr>sc_sslContext := Some context\<rparr>)))"

definition config_parseServerTable :: "config_env \<Rightarrow> nat \<Rightarrow> toml_table_t \<Rightarrow> server_config_t option exec" where
  "config_parseServerTable env fresh serverTable =
     bnd (config_parseServerBasics env serverTable) (\<lambda>basics.
       case basics of
         Inl r \<Rightarrow> Inr r
       | Inr config \<Rightarrow>
           bnd (config_parseString serverTable ''privateKey'') (\<lambda>privateKey.
           bnd (config_parseString serverTable ''certificate'') (\<lambda>certificate.
             case (privateKey, certificate) of
               (None, None) \<Rightarrow> Inr (Some config)
             | (Some k, Some c) \<Rightarrow> config_parseServerTLS env fresh serverTable k c config
             | _ \<Rightarrow> config_reject config)))"

section \<open>Reading the configuration\<close>

definition config_parseServer :: "config_env \<Rightarrow> toml_table_t option \<Rightarrow> config_t \<Rightarrow> config_t exec" where
  "config_parseServer env serverTable config =
     (case serverTable of
        None \<Rightarrow> Inr config
      | Some table \<Rightarrow>
          bnd (config_parseString table ''logfile'') (\<lambda>logfile.
          bnd (config_parseInt table ''loggingLevel'') (\<lambda>level.
          bnd (config_parseInt table ''threads'') (\<lambda>rawThreads.
          bnd (config_parseInt table ''backlog'') (\<lambda>rawBacklog.
            Inr (config\<lparr>cfg_daemon := config_parseBool table ''daemon'',
              cfg_logfile := logfile,
              cfg_loggingLevel := (if toml_raw_in table ''loggingLevel'' \<noteq> None then nat (level mod 256) else LOG_NOTICE),
              cfg_threads := (if toml_raw_in table ''threads'' \<noteq> None
                              then if rawThreads \<le> 1 then 32 else nat rawThreads else 32),
              cfg_backlog := (if toml_raw_in table ''backlog'' \<noteq> None
                              then if rawBacklog \<le> 1 then nat (env_SOMAXCONN env)
                                   else if rawBacklog > env_SOMAXCONN env then nat (env_SOMAXCONN env)
                                   else nat rawBacklog
                              else nat (env_SOMAXCONN env))\<rparr>))))))"

text \<open>Whether a server that is already in the list has the domain and TLS too. All places but \<open>i\<close> below
  the number \<open>n\<close> of tables are examined.\<close>

fun config_isDuplicate ::
  "nat \<Rightarrow> nat \<Rightarrow> nat \<Rightarrow> server_config_t \<Rightarrow> server_config_t list_t \<Rightarrow> (bool \<times> server_config_t list_t) exec" where
  "config_isDuplicate 0 j i serverConfig l = Inr (False, l)"
| "config_isDuplicate (Suc n) j i serverConfig l =
     (if j = i then config_isDuplicate n (Suc j) i serverConfig l
      else bnd (list_getValue l j) (\<lambda>(p, l').
        case p of
          None \<Rightarrow> config_isDuplicate n (Suc j) i serverConfig l'
        | Some otherConfig \<Rightarrow>
            bnd (deref (sc_domain serverConfig)) (\<lambda>d1.
            bnd (deref (sc_domain otherConfig)) (\<lambda>d2.
            bnd (string_equals d1 d2) (\<lambda>isSameDomain.
              if isSameDomain \<and> sc_sslContext serverConfig \<noteq> None \<and> sc_sslContext otherConfig \<noteq> None
              then Inr (True, l')
              else config_isDuplicate n (Suc j) i serverConfig l')))))"

fun config_parseServers ::
  "config_env \<Rightarrow> nat \<Rightarrow> nat \<Rightarrow> nat \<Rightarrow> toml_table_t \<Rightarrow> server_config_t list_t \<Rightarrow> server_config_t list_t exec" where
  "config_parseServers env 0 i serversTables serversTable l = Inr l"
| "config_parseServers env (Suc n) i serversTables serversTable l =
     bnd (deref (toml_key_in serversTable i)) (\<lambda>tableKey.
       case toml_table_in serversTable tableKey of
         None \<Rightarrow> config_parseServers env n (Suc i) serversTables serversTable l
       | Some serverTable \<Rightarrow>
           bnd (config_parseServerTable env i serverTable) (\<lambda>r.
             case r of
               None \<Rightarrow> config_parseServers env n (Suc i) serversTables serversTable l
             | Some serverConfig \<Rightarrow>
                 bnd (config_isDuplicate serversTables 0 i serverConfig l) (\<lambda>(duplicate, l1).
                 bnd (if \<not> duplicate then list_addValue l1 serverConfig
                      else bnd (config_freeServerConfig serverConfig) (\<lambda>_. Inr l1)) (\<lambda>l2.
                   config_parseServers env n (Suc i) serversTables serversTable l2))))"

definition config_parse :: "config_env \<Rightarrow> string \<Rightarrow> config_t option exec" where
  "config_parse env configString =
     bnd (toml_parse (env_strtod env) (lit configString)) (\<lambda>r. case r of
        None \<Rightarrow> Inr None
      | Some toml \<Rightarrow>
          let config = \<lparr>cfg_daemon = 0, cfg_serverConfigs = list_create, cfg_logfile = None, cfg_loggingLevel = 0,
                        cfg_threads = 0, cfg_backlog = 0\<rparr> in
          bnd (config_parseServer env (toml_table_in toml ''server'') config) (\<lambda>config.
            case toml_table_in toml ''servers'' of
              None \<Rightarrow> Inr (Some config)
            | Some serversTable \<Rightarrow>
                bnd (config_parseServers env (toml_table_ntab serversTable) 0 (toml_table_ntab serversTable) serversTable
                       (cfg_serverConfigs config)) (\<lambda>l.
                  Inr (Some (config\<lparr>cfg_serverConfigs := l\<rparr>)))))"

section \<open>Access\<close>

text \<open>The variable \<^verbatim>\<open>config_globalConfig\<close> is a state that may be empty.\<close>

definition config_getGlobalConfig :: "config_t option \<Rightarrow> config_t option" where
  "config_getGlobalConfig globalConfig = globalConfig"

definition config_setGlobalConfig :: "config_t \<Rightarrow> config_t option" where
  "config_setGlobalConfig config = Some config"

definition config_freeGlobalConfig :: "config_t option \<Rightarrow> unit exec" where
  "config_freeGlobalConfig globalConfig = (case globalConfig of None \<Rightarrow> Inr () | Some config \<Rightarrow> config_free config)"

definition config_getIsDaemon :: "config_t \<Rightarrow> int" where
  "config_getIsDaemon config = cfg_daemon config"

definition config_setIsDaemon :: "config_t \<Rightarrow> int \<Rightarrow> config_t" where
  "config_setIsDaemon config isDaemon = config\<lparr>cfg_daemon := isDaemon\<rparr>"

definition config_getLoggingLevel :: "config_t \<Rightarrow> nat" where
  "config_getLoggingLevel config = cfg_loggingLevel config"

definition config_setLoggingLevel :: "config_t \<Rightarrow> nat \<Rightarrow> config_t" where
  "config_setLoggingLevel config level = config\<lparr>cfg_loggingLevel := level\<rparr>"

definition config_getServers :: "config_t \<Rightarrow> nat" where
  "config_getServers config = list_getLength (cfg_serverConfigs config)"

definition config_getNumberOfThreads :: "config_t \<Rightarrow> nat" where
  "config_getNumberOfThreads config = cfg_threads config"

definition config_getBacklogSize :: "config_t \<Rightarrow> nat" where
  "config_getBacklogSize config = cfg_backlog config"

definition config_getName :: "server_config_t \<Rightarrow> string_t option" where
  "config_getName sc = sc_name sc"

definition config_getDomain :: "server_config_t \<Rightarrow> string_t option" where
  "config_getDomain sc = sc_domain sc"

definition config_getRootDirectory :: "server_config_t \<Rightarrow> string_t option" where
  "config_getRootDirectory sc = sc_rootDirectory sc"

definition config_getPort :: "server_config_t \<Rightarrow> int" where
  "config_getPort sc = sc_port sc"

definition config_setPort :: "server_config_t \<Rightarrow> int \<Rightarrow> server_config_t" where
  "config_setPort sc port = sc\<lparr>sc_port := to_int16 port\<rparr>"

definition config_getLogfile :: "config_t \<Rightarrow> string_t option" where
  "config_getLogfile config = cfg_logfile config"

definition config_setLogfile :: "config_t \<Rightarrow> string_t option \<Rightarrow> config_t exec" where
  "config_setLogfile config logfile =
     bnd (free_str (cfg_logfile config)) (\<lambda>_. Inr (config\<lparr>cfg_logfile := logfile\<rparr>))"

definition config_getSSLContext :: "server_config_t \<Rightarrow> ssl_ctx_t option" where
  "config_getSSLContext sc = sc_sslContext sc"

definition config_getDiffieHellmanParameters :: "server_config_t \<Rightarrow> nat option" where
  "config_getDiffieHellmanParameters sc = sc_dhparams sc"

definition config_getDirectoryIndex :: "server_config_t \<Rightarrow> array_value list_t option" where
  "config_getDirectoryIndex sc = sc_directoryIndex sc"

text \<open>Reading the list moves its cursor, so the configuration is returned as well.\<close>

definition config_getServerConfig :: "config_t \<Rightarrow> nat \<Rightarrow> (server_config_t option \<times> config_t) exec" where
  "config_getServerConfig config index =
     bnd (list_getValue (cfg_serverConfigs config) index) (\<lambda>(p, l).
       Inr (p, config\<lparr>cfg_serverConfigs := l\<rparr>))"

text \<open>The loop the four lookups share: the first server from index \<open>i\<close> on that the test accepts.\<close>

fun config_search ::
  "(server_config_t \<Rightarrow> bool exec) \<Rightarrow> nat \<Rightarrow> nat \<Rightarrow> config_t \<Rightarrow> (server_config_t option \<times> config_t) exec" where
  "config_search test 0 i config = Inr (None, config)"
| "config_search test (Suc n) i config =
     bnd (config_getServerConfig config i) (\<lambda>(p, config').
     bnd (deref p) (\<lambda>serverConfig.
     bnd (test serverConfig) (\<lambda>found.
       if found then Inr (Some serverConfig, config') else config_search test n (Suc i) config')))"

definition domain_equals :: "string_t option \<Rightarrow> string_t option \<Rightarrow> bool exec" where
  "domain_equals p q = bnd (deref p) (\<lambda>a. bnd (deref q) (\<lambda>b. string_equals a b))"

definition config_getServerConfigByHTTPSDomain :: "config_t \<Rightarrow> string_t \<Rightarrow> (server_config_t option \<times> config_t) exec" where
  "config_getServerConfigByHTTPSDomain config domain =
     config_search (\<lambda>sc. bnd (domain_equals (config_getDomain sc) (Some domain)) (\<lambda>isSameDomain.
         Inr (isSameDomain \<and> sc_sslContext sc \<noteq> None)))
       (list_getLength (cfg_serverConfigs config)) 0 config"

definition config_getServerConfigByHTTPDomain :: "config_t \<Rightarrow> string_t \<Rightarrow> (server_config_t option \<times> config_t) exec" where
  "config_getServerConfigByHTTPDomain config domain =
     config_search (\<lambda>sc. bnd (domain_equals (config_getDomain sc) (Some domain)) (\<lambda>isSameDomain.
         Inr (isSameDomain \<and> \<not> sc_sslContext sc \<noteq> None)))
       (list_getLength (cfg_serverConfigs config)) 0 config"

definition config_getServerConfigByDomain :: "config_t \<Rightarrow> string_t \<Rightarrow> nat \<Rightarrow> (server_config_t option \<times> config_t) exec" where
  "config_getServerConfigByDomain config domain port =
     config_search (\<lambda>sc.
         if port = to_u16 (config_getPort sc) then domain_equals (Some domain) (config_getDomain sc) else Inr False)
       (list_getLength (cfg_serverConfigs config)) 0 config"

definition config_getServerConfigBySSLContext :: "config_t \<Rightarrow> nat \<Rightarrow> (server_config_t option \<times> config_t) exec" where
  "config_getServerConfigBySSLContext config sslContext =
     config_search (\<lambda>sc. Inr (Some sslContext = map_option ctx_address (config_getSSLContext sc)))
       (list_getLength (cfg_serverConfigs config)) 0 config"

section \<open>Lookup\<close>

definition same_settings :: "config_t \<Rightarrow> config_t \<Rightarrow> bool" where
  "same_settings c c' \<longleftrightarrow> (\<exists>l. c' = c\<lparr>cfg_serverConfigs := l\<rparr>)"

lemma same_settings_refl [simp]: "same_settings c c"
  unfolding same_settings_def by (rule exI [of _ "cfg_serverConfigs c"]) simp

lemma same_settings_trans: "same_settings a b \<Longrightarrow> same_settings b c \<Longrightarrow> same_settings a c"
  by (auto simp: same_settings_def)

lemma getServerConfig_at:
  assumes "list_inv (cfg_serverConfigs c) scs" and "i < length scs"
    and "i = 0 \<or> list_currentIndex (cfg_serverConfigs c) = i - 1"
  shows "\<exists>c'. config_getServerConfig c i = Inr (Some (scs ! i), c') \<and> list_inv (cfg_serverConfigs c') scs
    \<and> list_currentIndex (cfg_serverConfigs c') = i \<and> same_settings c c'"
proof -
  have "move_safe (length scs) (list_currentIndex (cfg_serverConfigs c)) i" using assms(2,3) by (cases i) auto
  from inv_get [OF assms(1,2) this] show ?thesis by (auto simp: config_getServerConfig_def same_settings_def)
qed

lemma config_search_find:
  assumes "list_inv (cfg_serverConfigs c) scs" and "\<And>sc. sc \<in> set scs \<Longrightarrow> test sc = Inr (P sc)"
    and "n + i = length scs" and "i = 0 \<or> list_currentIndex (cfg_serverConfigs c) = i - 1"
  shows "\<exists>c'. config_search test n i c = Inr (find P (drop i scs), c') \<and> list_inv (cfg_serverConfigs c') scs \<and> same_settings c c'"
  using assms(1,3,4)
proof (induction n arbitrary: i c)
  case (Suc n)
  then have i: "i < length scs" by simp
  obtain c' where c': "config_getServerConfig c i = Inr (Some (scs ! i), c')" "list_inv (cfg_serverConfigs c') scs"
    "list_currentIndex (cfg_serverConfigs c') = i" "same_settings c c'"
    using getServerConfig_at [OF Suc.prems(1) i Suc.prems(3)] by blast
  have d: "drop i scs = scs ! i # drop (Suc i) scs" using i by (rule Cons_nth_drop_Suc [symmetric])
  show ?case
  proof (cases "P (scs ! i)")
    case True
    then show ?thesis using c' d assms(2) i by simp
  next
    case False
    obtain c'' where "config_search test n (Suc i) c' = Inr (find P (drop (Suc i) scs), c'')"
      "list_inv (cfg_serverConfigs c'') scs" "same_settings c' c''"
      using Suc.IH [of c' "Suc i"] c' Suc.prems(2) by auto
    with False c' d assms(2) i show ?thesis using same_settings_trans by fastforce
  qed
qed auto

lemma string_equals_text: "key_ok a \<Longrightarrow> key_ok b \<Longrightarrow> string_equals a b = Inr (key_text a = key_text b)"
  by (auto simp: key_ok_def key_text_def string_equals_def string_equalsBuffer_def strcmp_eq_def strlen_def split: option.splits)

lemma string_equals_Inr: "string_equals a b = Inr r \<Longrightarrow> r = (key_text a = key_text b)"
  by (auto simp: key_text_def string_equals_def string_equalsBuffer_def strcmp_eq_def deref_def exec_simps split: option.splits)

definition domain_text :: "server_config_t \<Rightarrow> string" where
  "domain_text sc = (case sc_domain sc of None \<Rightarrow> [] | Some d \<Rightarrow> key_text d)"

definition has_domain :: "server_config_t \<Rightarrow> bool" where
  "has_domain sc = (case sc_domain sc of None \<Rightarrow> False | Some d \<Rightarrow> key_ok d)"

lemma domain_equals_text:
  assumes "has_domain sc" and "key_ok d"
  shows "domain_equals (sc_domain sc) (Some d) = Inr (domain_text sc = key_text d)"
    "domain_equals (Some d) (sc_domain sc) = Inr (domain_text sc = key_text d)"
  using assms string_equals_text by (auto simp: has_domain_def domain_text_def domain_equals_def split: option.splits)

section \<open>One TLS server per domain\<close>

definition tls_clash :: "server_config_t \<Rightarrow> server_config_t \<Rightarrow> bool" where
  "tls_clash a b \<longleftrightarrow> domain_text a = domain_text b \<and> sc_sslContext a \<noteq> None \<and> sc_sslContext b \<noteq> None"

definition tls_unique :: "server_config_t list \<Rightarrow> bool" where
  "tls_unique scs \<longleftrightarrow> (\<forall>i j. i < j \<longrightarrow> j < length scs \<longrightarrow> \<not> tls_clash (scs ! i) (scs ! j))"

lemma isDuplicate_sound:
  assumes "config_isDuplicate n j i sc l = Inr (dup, l')" and "list_inv l scs" and "length scs \<le> i"
    and "length scs \<le> n + j" and "j = 0 \<or> length scs \<le> j \<or> list_currentIndex l = j - 1"
  shows "list_inv l' scs \<and> (\<not> dup \<longrightarrow> (\<forall>m. j \<le> m \<and> m < length scs \<longrightarrow> \<not> tls_clash sc (scs ! m)))"
  using assms
proof (induction n arbitrary: j l)
  case (Suc n)
  show ?case
  proof (cases "j < length scs")
    case False
    then have n: "list_getValue l j = Inr (None, l)" using inv_get_none [OF Suc.prems(2)] by simp
    have "config_isDuplicate n (Suc j) i sc l = Inr (dup, l')" using Suc.prems(1) n by (simp split: if_splits)
    from Suc.IH [OF this Suc.prems(2,3)] Suc.prems(4) False show ?thesis by auto
  next
    case True
    then have ji: "j \<noteq> i" using Suc.prems(3) by simp
    have "move_safe (length scs) (list_currentIndex l) j"
      using True Suc.prems(5) move_safe_Suc [of "j - 1" "length scs"] by (cases j) auto
    then obtain l1 where l1: "list_getValue l j = Inr (Some (scs ! j), l1)" "list_inv l1 scs" "list_currentIndex l1 = j"
      using inv_get [OF Suc.prems(2) True] by blast
    from Suc.prems(1) ji l1(1) obtain d1 d2 same where d: "sc_domain sc = Some d1" "sc_domain (scs ! j) = Some d2"
      "string_equals d1 d2 = Inr same"
      and run: "(if same \<and> sc_sslContext sc \<noteq> None \<and> sc_sslContext (scs ! j) \<noteq> None then Inr (True, l1)
         else config_isDuplicate n (Suc j) i sc l1) = Inr (dup, l')"
      by (auto simp: exec_simps)
    have clash: "tls_clash sc (scs ! j) \<longleftrightarrow> same \<and> sc_sslContext sc \<noteq> None \<and> sc_sslContext (scs ! j) \<noteq> None"
      using string_equals_Inr [OF d(3)] d by (simp add: tls_clash_def domain_text_def)
    show ?thesis
    proof (cases "tls_clash sc (scs ! j)")
      case True
      then show ?thesis using run clash l1(2) by auto
    next
      case False
      then have "config_isDuplicate n (Suc j) i sc l1 = Inr (dup, l')" using run clash by auto
      from Suc.IH [OF this l1(2)] Suc.prems(3,4) l1(3) have
        "list_inv l' scs \<and> (\<not> dup \<longrightarrow> (\<forall>m. Suc j \<le> m \<and> m < length scs \<longrightarrow> \<not> tls_clash sc (scs ! m)))" by simp
      with False show ?thesis by (metis Suc_leI le_neq_implies_less)
    qed
  qed
qed auto

lemma tls_clash_sym: "tls_clash a b \<longleftrightarrow> tls_clash b a"
  by (auto simp: tls_clash_def)

lemma tls_unique_snoc:
  "tls_unique scs \<Longrightarrow> \<forall>m < length scs. \<not> tls_clash sc (scs ! m) \<Longrightarrow> tls_unique (scs @ [sc])"
  unfolding tls_unique_def by (auto simp: nth_append tls_clash_sym less_Suc_eq)

lemma tls_unique_find:
  assumes "tls_unique scs" and "sc \<in> set scs" and "sc_sslContext sc \<noteq> None"
  shows "find (\<lambda>s. domain_text s = domain_text sc \<and> sc_sslContext s \<noteq> None) scs = Some sc"
proof -
  obtain j where "j < length scs" "scs ! j = sc" using assms(2) by (auto simp: in_set_conv_nth)
  moreover have "\<not> (domain_text (scs ! i) = domain_text sc \<and> sc_sslContext (scs ! i) \<noteq> None)" if "i < j" for i
    using assms(1,3) calculation that unfolding tls_unique_def tls_clash_def by blast
  ultimately show ?thesis using assms(3) unfolding find_Some_iff by blast
qed

text \<open>What the loop over the tables keeps: the list is well linked, holds at most one server for each table
  read so far, satisfies \<open>Q\<close> everywhere, and no two TLS servers share a domain.\<close>

definition servers_inv :: "(server_config_t \<Rightarrow> bool) \<Rightarrow> nat \<Rightarrow> server_config_t list_t \<Rightarrow> bool" where
  "servers_inv Q i l \<longleftrightarrow> (\<exists>scs. list_inv l scs \<and> length scs \<le> i \<and> tls_unique scs \<and> (\<forall>sc \<in> set scs. Q sc))"

lemma servers_inv_mono: "servers_inv Q i l \<Longrightarrow> i \<le> j \<Longrightarrow> servers_inv Q j l"
  unfolding servers_inv_def by (meson le_trans)

lemma parseServers_inv:
  assumes "config_parseServers env n i tot st l = Inr l'" and "servers_inv Q i l" and "tot = n + i"
    and "\<And>i t sc. t \<in> set (tab_tab st) \<Longrightarrow> config_parseServerTable env i t = Inr (Some sc) \<Longrightarrow> Q sc"
  shows "servers_inv Q tot l'"
  using assms(1,2,3)
proof (induction n arbitrary: i l)
  case (Suc n)
  from Suc.prems(1) obtain key where key: "toml_key_in st i = Some key" by (auto simp: exec_simps)
  have skip: "servers_inv Q (Suc i) l" using servers_inv_mono [OF Suc.prems(2)] by simp
  have tot: "tot = n + Suc i" using Suc.prems(3) by simp
  show ?case
  proof (cases "toml_table_in st key")
    case None
    then have "config_parseServers env n (Suc i) tot st l = Inr l'" using Suc.prems(1) key by simp
    then show ?thesis using Suc.IH skip tot by blast
  next
    case (Some t)
    then have tin: "t \<in> set (tab_tab st)" by (auto simp: toml_table_in_def find_Some_iff)
    from Suc.prems(1) key Some obtain r where r: "config_parseServerTable env i t = Inr r" by (auto simp: exec_simps)
    show ?thesis
    proof (cases r)
      case None
      then have "config_parseServers env n (Suc i) tot st l = Inr l'" using Suc.prems(1) key Some r by simp
      then show ?thesis using Suc.IH skip tot by blast
    next
      case sc: (Some sc)
      obtain scs where scs: "list_inv l scs" "length scs \<le> i" "tls_unique scs" "\<forall>sc \<in> set scs. Q sc"
        using Suc.prems(2) by (auto simp: servers_inv_def)
      from Suc.prems(1) key Some r sc obtain dup l1 l2 where d: "config_isDuplicate tot 0 i sc l = Inr (dup, l1)"
        and l2: "(if \<not> dup then list_addValue l1 sc else bnd (config_freeServerConfig sc) (\<lambda>_. Inr l1)) = Inr l2"
        and rest: "config_parseServers env n (Suc i) tot st l2 = Inr l'"
        by (auto simp: exec_simps)
      have l1: "list_inv l1 scs" "\<not> dup \<Longrightarrow> \<forall>m < length scs. \<not> tls_clash sc (scs ! m)"
        using isDuplicate_sound [OF d scs(1,2)] scs(2) Suc.prems(3) by auto
      have "servers_inv Q (Suc i) l2"
      proof (cases dup)
        case True
        then have "l2 = l1" using l2 by (auto simp: exec_simps)
        then show ?thesis using l1 scs by (auto simp: servers_inv_def intro!: exI [of _ scs])
      next
        case False
        obtain l3 where "list_addValue l1 sc = Inr l3" "list_inv l3 (scs @ [sc])" using inv_add [OF l1(1)] by blast
        moreover have "Q sc" using assms(4) [OF tin] r sc by blast
        ultimately show ?thesis using False l2 scs tls_unique_snoc [OF scs(3) l1(2)]
          by (auto simp: servers_inv_def intro!: exI [of _ "scs @ [sc]"])
      qed
      then show ?thesis using Suc.IH rest tot by blast
    qed
  qed
qed simp

lemma servers_inv_create: "servers_inv Q 0 list_create"
  using inv_create by (auto simp: servers_inv_def tls_unique_def)

text \<open>The limits of the process settings.\<close>

lemma parseServer_fields:
  assumes "config_parseServer env st c = Inr c'"
  shows "cfg_serverConfigs c' = cfg_serverConfigs c"
  using assms by (auto simp: config_parseServer_def exec_simps split: option.splits)

lemma parseServer_limits:
  assumes "config_parseServer env p c = Inr c'" and "2 \<le> env_SOMAXCONN env"
  shows "case p of None \<Rightarrow> c' = c | Some t \<Rightarrow> 2 \<le> cfg_threads c' \<and> 2 \<le> cfg_backlog c'
    \<and> cfg_backlog c' \<le> nat (env_SOMAXCONN env) \<and> cfg_loggingLevel c' < 256"
proof (cases p)
  case None
  then show ?thesis using assms(1) by (simp add: config_parseServer_def)
next
  case (Some t)
  then obtain logfile level threads backlog where
    "c' = c\<lparr>cfg_daemon := config_parseBool t ''daemon'', cfg_logfile := logfile,
      cfg_loggingLevel := (if toml_raw_in t ''loggingLevel'' \<noteq> None then nat (level mod 256) else LOG_NOTICE),
      cfg_threads := (if toml_raw_in t ''threads'' \<noteq> None then if threads \<le> 1 then 32 else nat threads else 32),
      cfg_backlog := (if toml_raw_in t ''backlog'' \<noteq> None
         then if backlog \<le> 1 then nat (env_SOMAXCONN env)
              else if backlog > env_SOMAXCONN env then nat (env_SOMAXCONN env) else nat backlog
         else nat (env_SOMAXCONN env))\<rparr>"
    using assms(1) by (auto simp: config_parseServer_def bnd_eq_Inr)
  then show ?thesis using Some assms(2) by (auto simp: LOG_NOTICE_def nat_less_iff)
qed

lemma parse_cases:
  assumes "config_parse env s = Inr (Some c)"
  obtains toml c0 where "toml_parse (env_strtod env) (lit s) = Inr (Some toml)"
    "config_parseServer env (toml_table_in toml ''server'')
       \<lparr>cfg_daemon = 0, cfg_serverConfigs = list_create, cfg_logfile = None, cfg_loggingLevel = 0, cfg_threads = 0, cfg_backlog = 0\<rparr> = Inr c0"
    "case toml_table_in toml ''servers'' of None \<Rightarrow> c = c0
     | Some st \<Rightarrow> \<exists>l. config_parseServers env (toml_table_ntab st) 0 (toml_table_ntab st) st list_create = Inr l \<and> c = c0\<lparr>cfg_serverConfigs := l\<rparr>"
    "cfg_serverConfigs c0 = list_create"
proof -
  from assms obtain toml where toml: "toml_parse (env_strtod env) (lit s) = Inr (Some toml)"
    by (auto simp: config_parse_def bnd_eq_Inr split: option.splits)
  let ?c = "\<lparr>cfg_daemon = 0, cfg_serverConfigs = list_create, cfg_logfile = None, cfg_loggingLevel = 0, cfg_threads = 0, cfg_backlog = 0\<rparr>"
  from assms toml obtain c0 where c0: "config_parseServer env (toml_table_in toml ''server'') ?c = Inr c0"
    by (auto simp: config_parse_def Let_def exec_simps)
  have l: "cfg_serverConfigs c0 = list_create" using parseServer_fields [OF c0] by simp
  show ?thesis
    using that [OF toml c0 _ l] assms toml c0 l
    by (auto simp: config_parse_def Let_def exec_simps split: option.splits)
qed

lemma parse_servers_inv:
  assumes "config_parse env s = Inr (Some c)"
    and "\<And>toml st i t sc. toml_parse (env_strtod env) (lit s) = Inr (Some toml) \<Longrightarrow> toml_table_in toml ''servers'' = Some st \<Longrightarrow>
      t \<in> set (tab_tab st) \<Longrightarrow> config_parseServerTable env i t = Inr (Some sc) \<Longrightarrow> Q sc"
  shows "\<exists>scs. list_inv (cfg_serverConfigs c) scs \<and> tls_unique scs \<and> (\<forall>sc \<in> set scs. Q sc)"
proof -
  obtain toml c0 where toml: "toml_parse (env_strtod env) (lit s) = Inr (Some toml)"
    and "config_parseServer env (toml_table_in toml ''server'')
       \<lparr>cfg_daemon = 0, cfg_serverConfigs = list_create, cfg_logfile = None, cfg_loggingLevel = 0, cfg_threads = 0, cfg_backlog = 0\<rparr> = Inr c0"
    and c: "case toml_table_in toml ''servers'' of None \<Rightarrow> c = c0
     | Some st \<Rightarrow> \<exists>l. config_parseServers env (toml_table_ntab st) 0 (toml_table_ntab st) st list_create = Inr l \<and> c = c0\<lparr>cfg_serverConfigs := l\<rparr>"
    and l: "cfg_serverConfigs c0 = list_create"
    by (rule parse_cases [OF assms(1)])
  have "\<exists>i. servers_inv Q i (cfg_serverConfigs c)"
  proof (cases "toml_table_in toml ''servers''")
    case None
    then show ?thesis using c l servers_inv_create by auto
  next
    case (Some st)
    then obtain l where "config_parseServers env (toml_table_ntab st) 0 (toml_table_ntab st) st list_create = Inr l"
      "c = c0\<lparr>cfg_serverConfigs := l\<rparr>" using c by auto
    with parseServers_inv [OF _ servers_inv_create, of env "toml_table_ntab st" "toml_table_ntab st" st l Q] assms(2) [OF toml Some]
    show ?thesis by auto
  qed
  then show ?thesis by (auto simp: servers_inv_def)
qed

section \<open>Releasing what was read\<close>

definition index_ok :: "array_value list_t option \<Rightarrow> bool" where
  "index_ok p = (case p of None \<Rightarrow> True | Some l \<Rightarrow> \<exists>ss. list_inv l (map StringValue ss))"

lemma freeIndex_ok: "list_inv l (map StringValue ss) \<Longrightarrow> \<exists>l'. config_freeIndex (Suc (length ss)) l = Inr l' \<and> list_inv l' []"
proof (induction ss arbitrary: l)
  case Nil
  then show ?case using inv_remove_none [OF Nil.prems [simplified], of 0] by simp
next
  case (Cons s ss)
  obtain l1 where "list_removeValue l 0 = Inr (Some (StringValue s), l1)" "list_inv l1 (map StringValue ss)"
    using inv_remove_0 [of l "StringValue s" "map StringValue ss"] Cons.prems by auto
  with Cons.IH show ?case by auto
qed

lemma free_str_ok [simp]: "free_str p = Inr ()"
  by (cases p) (simp_all add: free_str_def)

lemma freeServerConfig_ok: "index_ok (sc_directoryIndex sc) \<Longrightarrow> config_freeServerConfig sc = Inr ()"
proof (cases "sc_directoryIndex sc")
  case (Some l)
  assume "index_ok (sc_directoryIndex sc)"
  then obtain ss where ss: "list_inv l (map StringValue ss)" using Some by (auto simp: index_ok_def)
  obtain l' where l': "config_freeIndex (Suc (length ss)) l = Inr l'" "list_inv l' []" using freeIndex_ok [OF ss] by blast
  obtain l'' where "list_clear l' = Inr l''" using inv_clear [OF l'(2)] by blast
  with l' show ?thesis using Some list_inv_length [OF ss] by (simp add: config_freeServerConfig_def list_free_def)
qed (simp add: config_freeServerConfig_def)

lemma config_free_loop_ok:
  "list_inv l scs \<Longrightarrow> \<forall>sc \<in> set scs. index_ok (sc_directoryIndex sc) \<Longrightarrow>
   \<exists>l'. config_free_loop (Suc (length scs)) l = Inr l' \<and> list_inv l' []"
proof (induction scs arbitrary: l)
  case Nil
  then show ?case using inv_remove_none [OF Nil.prems(1), of 0] by simp
next
  case (Cons sc scs)
  obtain l1 where "list_removeValue l 0 = Inr (Some sc, l1)" "list_inv l1 scs"
    using inv_remove_0 [of l sc scs] Cons.prems(1) by auto
  with Cons.IH [of l1] Cons.prems(2) show ?case by (auto simp: freeServerConfig_ok)
qed

lemma config_free_ok:
  assumes "list_inv (cfg_serverConfigs c) scs" and "\<forall>sc \<in> set scs. index_ok (sc_directoryIndex sc)"
  shows "config_free c = Inr ()"
proof -
  obtain l' where l': "config_free_loop (Suc (length scs)) (cfg_serverConfigs c) = Inr l'" "list_inv l' []"
    using config_free_loop_ok [OF assms] by blast
  obtain l'' where "list_clear l' = Inr l''" using inv_clear [OF l'(2)] by blast
  with l' show ?thesis using list_inv_length [OF assms(1)] by (simp add: config_free_def list_free_def)
qed

text \<open>An array that is not one of integers or booleans yields strings only.\<close>

lemma parseElements_strings:
  assumes "config_parseElements n i ty arr l = Inr r" and "list_inv l (map StringValue ss)"
    and "ty \<noteq> CHR ''i''" and "ty \<noteq> CHR ''b''"
  shows "index_ok r"
  using assms(1,2)
proof (induction n arbitrary: i l ss)
  case 0
  then show ?case by (auto simp: index_ok_def)
next
  case (Suc n)
  show ?case
  proof (cases "toml_raw_at arr i")
    case None
    then show ?thesis using Suc.prems(1) by (auto simp: index_ok_def exec_simps)
  next
    case (Some raw)
    then obtain l1 where l1: "config_parseElement ty raw l = Inr l1" "config_parseElements n (Suc i) ty arr l1 = Inr r"
      using Suc.prems(1) by (auto simp: exec_simps)
    have "\<exists>ss'. list_inv l1 (map StringValue ss')"
    proof (cases "ty = CHR ''s''")
      case True
      then obtain s where "list_addValue l (StringValue s) = Inr l1"
        using l1(1) by (auto simp: config_parseElement_def exec_simps)
      moreover obtain l2 where "list_addValue l (StringValue s) = Inr l2" "list_inv l2 (map StringValue ss @ [StringValue s])"
        using inv_add [OF Suc.prems(2)] by blast
      ultimately show ?thesis by (intro exI [of _ "ss @ [s]"]) simp
    next
      case False
      then show ?thesis using l1(1) assms(3,4) Suc.prems(2) by (auto simp: config_parseElement_def)
    qed
    then show ?thesis using Suc.IH l1(2) by blast
  qed
qed

definition string_index :: "toml_table_t \<Rightarrow> bool" where
  "string_index t \<longleftrightarrow> (\<forall>a. toml_array_in t ''directoryIndex'' = Some a \<longrightarrow> toml_array_type a \<notin> {CHR ''i'', CHR ''b''})"

lemma parseArray_strings:
  "config_parseArray t ''directoryIndex'' = Inr r \<Longrightarrow> string_index t \<Longrightarrow> index_ok r"
  using inv_create parseElements_strings [of _ 0 _ _ list_create r "[]"]
  by (auto simp: config_parseArray_def string_index_def index_ok_def split: option.splits)

text \<open>What a server that was read has: its index, and its port.\<close>

lemma parseServerPort_result:
  assumes "config_parseServerPort t config = Inr r"
  shows "case r of Inl r \<Rightarrow> r = None
    | Inr sc \<Rightarrow> config_parseArray t ''directoryIndex'' = Inr (sc_directoryIndex sc)
        \<and> (toml_raw_in t ''port'' \<noteq> None \<longrightarrow>
            (\<exists>port. config_parseInt t ''port'' = Inr port \<and> 0 \<le> port \<and> port \<le> 65536 \<and> sc_port sc = to_int16 port))"
  using assms by (auto simp: config_parseServerPort_def exec_simps config_reject_def split: if_splits)

lemma root_result: "config_parseServerRoot env p config = Inr r \<Longrightarrow> r = Inl None \<or> (\<exists>c. r = Inr c)"
  by (auto simp: config_parseServerRoot_def config_reject_def bnd_eq_Inr split: option.split_asm)

lemma basics_result:
  assumes "config_parseServerBasics env t = Inr r"
  shows "r = Inl None \<or> (\<exists>config. config_parseServerPort t config = Inr r)"
proof -
  from assms obtain p c rooted where rooted: "config_parseServerRoot env p c = Inr rooted"
    "(case rooted of Inl r \<Rightarrow> Inr (Inl r)
      | Inr config \<Rightarrow> config_parseServerPort t (config\<lparr>sc_enabled := config_parseBool t ''enabled''\<rparr>)) = Inr r"
    by (auto simp: config_parseServerBasics_def Let_def bnd_eq_Inr deref_eq_Inr)
  then show ?thesis using root_result [OF rooted(1)] by auto
qed

lemma basics_index:
  assumes "config_parseServerBasics env t = Inr (Inr sc)"
  shows "config_parseArray t ''directoryIndex'' = Inr (sc_directoryIndex sc)"
  using basics_result [OF assms] parseServerPort_result by fastforce

lemma basics_reject: "config_parseServerBasics env t = Inr (Inl r) \<Longrightarrow> r = None"
  using basics_result parseServerPort_result by fastforce

lemma reject_None: "config_reject sc = Inr r \<Longrightarrow> r = None"
  by (auto simp: config_reject_def bnd_eq_Inr)

lemma dh_self: "\<exists>dh. sc = sc\<lparr>sc_dhparams := dh\<rparr>"
  by (rule exI [of _ "sc_dhparams sc"]) simp

lemma dh_keeps:
  assumes "config_parseServerDH env t config = Inr (Some sc)"
  shows "\<exists>dh. sc = config\<lparr>sc_dhparams := dh\<rparr>"
proof -
  from assms obtain p where "(case p of None \<Rightarrow> Inr (Some config)
       | Some s \<Rightarrow> (case env_read_DHparams env (key_text s) of None \<Rightarrow> config_reject config
            | Some dh \<Rightarrow> Inr (Some (config\<lparr>sc_dhparams := dh\<rparr>)))) = Inr (Some sc)"
    by (auto simp: config_parseServerDH_def bnd_eq_Inr)
  then show ?thesis using reject_None [of config "Some sc"] dh_self by (auto split: option.split_asm)
qed

lemma tls_keeps:
  assumes "config_parseServerTLS env f t k c config = Inr (Some sc)"
  shows "sc_directoryIndex sc = sc_directoryIndex config \<and> sc_port sc = sc_port config \<and> sc_sslContext sc \<noteq> None"
proof -
  obtain address where "env_SSL_CTX_new env f = Some address"
    using assms reject_None by (cases "env_SSL_CTX_new env f") (fastforce simp: config_parseServerTLS_def)+
  then obtain ctx where "config_parseServerDH env t (config\<lparr>sc_sslContext := Some ctx\<rparr>) = Inr (Some sc)"
    using assms reject_None by (auto simp: config_parseServerTLS_def bnd_eq_Inr split: if_split_asm)
  from dh_keeps [OF this] show ?thesis by auto
qed

lemma parseServerTable_basics:
  assumes "config_parseServerTable env f t = Inr (Some sc)"
  shows "\<exists>config. config_parseServerBasics env t = Inr (Inr config)
    \<and> sc_directoryIndex sc = sc_directoryIndex config \<and> sc_port sc = sc_port config"
proof -
  obtain basics where b: "config_parseServerBasics env t = Inr basics"
    using assms by (auto simp: config_parseServerTable_def exec_simps)
  then obtain config where c: "basics = Inr config"
    using assms basics_reject by (cases basics) (auto simp: config_parseServerTable_def)
  show ?thesis using assms b c tls_keeps
    by (auto simp: config_parseServerTable_def exec_simps config_reject_def split: option.splits)
qed

section \<open>Properties\<close>

text \<open>The four searches.\<close>

lemma config_lookups:
  assumes "list_inv (cfg_serverConfigs c) scs" and "\<forall>sc \<in> set scs. has_domain sc" and "key_ok domain"
  shows "\<exists>c'. config_getServerConfigByDomain c domain port
      = Inr (find (\<lambda>sc. port = to_u16 (sc_port sc) \<and> domain_text sc = key_text domain) scs, c')
      \<and> list_inv (cfg_serverConfigs c') scs \<and> same_settings c c'"
    and "\<exists>c'. config_getServerConfigByHTTPSDomain c domain
      = Inr (find (\<lambda>sc. domain_text sc = key_text domain \<and> sc_sslContext sc \<noteq> None) scs, c')
      \<and> list_inv (cfg_serverConfigs c') scs \<and> same_settings c c'"
    and "\<exists>c'. config_getServerConfigByHTTPDomain c domain
      = Inr (find (\<lambda>sc. domain_text sc = key_text domain \<and> sc_sslContext sc = None) scs, c')
      \<and> list_inv (cfg_serverConfigs c') scs \<and> same_settings c c'"
    and "\<exists>c'. config_getServerConfigBySSLContext c a
      = Inr (find (\<lambda>sc. map_option ctx_address (sc_sslContext sc) = Some a) scs, c')
      \<and> list_inv (cfg_serverConfigs c') scs \<and> same_settings c c'"
proof -
  have n: "list_getLength (cfg_serverConfigs c) + 0 = length scs"
    using list_inv_length [OF assms(1)] by (simp add: list_getLength_def)
  note find = config_search_find [OF assms(1) _ n disjI1 [OF refl], unfolded drop_0]
  show "\<exists>c'. config_getServerConfigByDomain c domain port
      = Inr (find (\<lambda>sc. port = to_u16 (sc_port sc) \<and> domain_text sc = key_text domain) scs, c')
      \<and> list_inv (cfg_serverConfigs c') scs \<and> same_settings c c'"
    unfolding config_getServerConfigByDomain_def
    by (rule find) (use assms(2,3) in \<open>simp add: config_getPort_def config_getDomain_def domain_equals_text\<close>)
  show "\<exists>c'. config_getServerConfigByHTTPSDomain c domain
      = Inr (find (\<lambda>sc. domain_text sc = key_text domain \<and> sc_sslContext sc \<noteq> None) scs, c')
      \<and> list_inv (cfg_serverConfigs c') scs \<and> same_settings c c'"
    unfolding config_getServerConfigByHTTPSDomain_def
    by (rule find) (use assms(2,3) in \<open>simp add: config_getDomain_def domain_equals_text\<close>)
  show "\<exists>c'. config_getServerConfigByHTTPDomain c domain
      = Inr (find (\<lambda>sc. domain_text sc = key_text domain \<and> sc_sslContext sc = None) scs, c')
      \<and> list_inv (cfg_serverConfigs c') scs \<and> same_settings c c'"
    unfolding config_getServerConfigByHTTPDomain_def
    by (rule find) (use assms(2,3) in \<open>simp add: config_getDomain_def domain_equals_text\<close>)
  show "\<exists>c'. config_getServerConfigBySSLContext c a
      = Inr (find (\<lambda>sc. map_option ctx_address (sc_sslContext sc) = Some a) scs, c')
      \<and> list_inv (cfg_serverConfigs c') scs \<and> same_settings c c'"
    unfolding config_getServerConfigBySSLContext_def
    by (rule find) (simp add: config_getSSLContext_def eq_commute [of "Some a"])
qed

text \<open>Every lookup returns the first server of the list, in the order of the file, that fits: by port and
  domain, by domain with or without TLS, or by TLS context; nothing when none fits. The cursor of the list
  moves, its contents and the other settings stay.\<close>

theorem config_lookup_first:
  assumes "list_inv (cfg_serverConfigs c) scs" and "\<forall>sc \<in> set scs. has_domain sc" and "key_ok domain"
  shows "\<exists>c1 c2 c3 c4.
      config_getServerConfigByDomain c domain port
        = Inr (find (\<lambda>sc. port = to_u16 (sc_port sc) \<and> domain_text sc = key_text domain) scs, c1)
    \<and> config_getServerConfigByHTTPSDomain c domain
        = Inr (find (\<lambda>sc. domain_text sc = key_text domain \<and> sc_sslContext sc \<noteq> None) scs, c2)
    \<and> config_getServerConfigByHTTPDomain c domain
        = Inr (find (\<lambda>sc. domain_text sc = key_text domain \<and> sc_sslContext sc = None) scs, c3)
    \<and> config_getServerConfigBySSLContext c a
        = Inr (find (\<lambda>sc. map_option ctx_address (sc_sslContext sc) = Some a) scs, c4)
    \<and> (\<forall>c' \<in> {c1, c2, c3, c4}. list_inv (cfg_serverConfigs c') scs \<and> same_settings c c')"
  using config_lookups [OF assms] by blast

text \<open>C34. After reading a configuration no two servers with TLS have the same domain, so that the server name a
  client indicates selects one certificate.\<close>

theorem config_tls_domains_unique:
  assumes "config_parse env s = Inr (Some c)"
  shows "\<exists>scs. list_inv (cfg_serverConfigs c) scs
    \<and> (\<forall>i j. i < j \<and> j < length scs \<and> sc_sslContext (scs ! i) \<noteq> None \<and> sc_sslContext (scs ! j) \<noteq> None
         \<longrightarrow> domain_text (scs ! i) \<noteq> domain_text (scs ! j))"
proof -
  obtain scs where "list_inv (cfg_serverConfigs c) scs" "tls_unique scs"
    using parse_servers_inv [OF assms, of "\<lambda>_. True"] by blast
  then show ?thesis unfolding tls_unique_def tls_clash_def by blast
qed

text \<open>With a table \<^verbatim>\<open>server\<close> the number of threads is at least two, the backlog lies between two and the
  limit of the system, and the logging level fits into a byte, whatever the file says; without that table they
  are all zero, so that no worker thread is started.\<close>

theorem config_limits:
  assumes "config_parse env s = Inr (Some c)" and "toml_parse (env_strtod env) (lit s) = Inr (Some toml)" and "2 \<le> env_SOMAXCONN env"
  shows "if toml_table_in toml ''server'' = None
    then config_getNumberOfThreads c = 0 \<and> config_getBacklogSize c = 0 \<and> config_getLoggingLevel c = 0
    else 2 \<le> config_getNumberOfThreads c \<and> 2 \<le> config_getBacklogSize c
       \<and> config_getBacklogSize c \<le> nat (env_SOMAXCONN env) \<and> config_getLoggingLevel c < 256"
proof -
  let ?c = "\<lparr>cfg_daemon = 0, cfg_serverConfigs = list_create, cfg_logfile = None, cfg_loggingLevel = 0, cfg_threads = 0, cfg_backlog = 0\<rparr>"
  obtain toml' c0 where t: "toml_parse (env_strtod env) (lit s) = Inr (Some toml')"
    and c0: "config_parseServer env (toml_table_in toml' ''server'') ?c = Inr c0"
    and c: "case toml_table_in toml' ''servers'' of None \<Rightarrow> c = c0
     | Some st \<Rightarrow> \<exists>l. config_parseServers env (toml_table_ntab st) 0 (toml_table_ntab st) st list_create = Inr l \<and> c = c0\<lparr>cfg_serverConfigs := l\<rparr>"
    and "cfg_serverConfigs c0 = list_create"
    by (rule parse_cases [OF assms(1)])
  have "toml' = toml" using t assms(2) by simp
  moreover have "same_settings c0 c" using c by (auto simp: same_settings_def split: option.split_asm intro: exI [of _ "cfg_serverConfigs c0"])
  ultimately show ?thesis
    using parseServer_limits [OF _ assms(3), of "toml_table_in toml ''server''" ?c c0] c0
    by (auto simp: same_settings_def config_getNumberOfThreads_def config_getBacklogSize_def config_getLoggingLevel_def)
qed

text \<open>The port of a server comes out of the file unchanged for every 16-bit number, although it is stored in
  a signed field: reading it as an unsigned number gives the number in the file. 65536 is accepted and becomes
  port 0; larger numbers make the server be rejected.\<close>

theorem config_port_roundtrip:
  assumes "config_parseServerTable env f t = Inr (Some sc)" and "toml_raw_in t ''port'' = Some (dec n)" and "n < 2 ^ 63"
  shows "n \<le> 65536 \<and> to_u16 (config_getPort sc) = n mod 65536"
proof -
  obtain config where b: "config_parseServerBasics env t = Inr (Inr config)" "sc_port sc = sc_port config"
    using parseServerTable_basics [OF assms(1)] by blast
  then obtain c where "config_parseServerPort t c = Inr (Inr config)" using basics_result [OF b(1)] by auto
  from parseServerPort_result [OF this] obtain port where port: "config_parseInt t ''port'' = Inr port"
    "0 \<le> port" "port \<le> 65536" "sc_port config = to_int16 port"
    using assms(2) by auto
  have "dec n = dec_int (int n)" by (simp add: dec_int_def)
  then have "toml_rtoi (Some (dec n)) = Inr (Some (int n))" using rtoi_dec_int [of "int n"] assms(3) by simp
  then have "port = int n" using port(1) assms(2) by (simp add: config_parseInt_def)
  moreover have "to_u16 (int n) = n mod 65536" by (simp add: to_u16_def nat_mod_distrib)
  ultimately show ?thesis using port(2-4) b(2) by (simp add: config_getPort_def)
qed

text \<open>The servers are counted as the tables below \<^verbatim>\<open>servers\<close> but addressed by an index that counts plain
  values first: one stray value in that table makes its last server disappear without an error.\<close>

theorem config_servers_shifted:
  assumes "tab_kval st = [kv]" and "tab_arr st = []" and "tab_tab st = [t]" and "tab_key t \<noteq> Some (kv_key kv)"
  shows "config_parseServers env (toml_table_ntab st) 0 (toml_table_ntab st) st l = Inr l"
  using assms by (simp add: toml_table_ntab_def toml_key_in_def toml_table_in_def)

text \<open>A configuration that was read can be released without a fault when the index files of its servers are
  lists of strings, whatever else the file says.\<close>

theorem config_parse_then_free:
  assumes "config_parse env s = Inr (Some c)" and "toml_parse (env_strtod env) (lit s) = Inr (Some toml)"
    and "\<forall>st. toml_table_in toml ''servers'' = Some st \<longrightarrow> list_all string_index (tab_tab st)"
  shows "config_free c = Inr ()"
proof -
  have "index_ok (sc_directoryIndex sc)"
    if doc: "toml_parse (env_strtod env) (lit s) = Inr (Some toml')" "toml_table_in toml' ''servers'' = Some st" "t \<in> set (tab_tab st)"
      and run: "config_parseServerTable env i t = Inr (Some sc)" for toml' st i t sc
  proof -
    have "string_index t" using doc assms(2,3) by (auto simp: list_all_iff)
    moreover obtain config where "config_parseServerBasics env t = Inr (Inr config)"
      "sc_directoryIndex sc = sc_directoryIndex config" using parseServerTable_basics [OF run] by blast
    ultimately show ?thesis using basics_index parseArray_strings by metis
  qed
  then obtain scs where "list_inv (cfg_serverConfigs c) scs" "\<forall>sc \<in> set scs. index_ok (sc_directoryIndex sc)"
    using parse_servers_inv [OF assms(1), of "\<lambda>sc. index_ok (sc_directoryIndex sc)"] by blast
  then show ?thesis by (rule config_free_ok)
qed

text \<open>A small document and environment.\<close>

definition tiny_doc :: toml_table_t where
  "tiny_doc = Toml_Table None False [] []
     [Toml_Table (Some ''server'') False [\<lparr>kv_key = ''threads'', kv_val = ''4''\<rparr>] [] [],
      Toml_Table (Some ''servers'') True [] []
        [Toml_Table (Some ''a'') False [\<lparr>kv_key = ''domain'', kv_val = [CHR 0x27, CHR ''x'', CHR 0x27]\<rparr>,
           \<lparr>kv_key = ''port'', kv_val = ''8080''\<rparr>] [] []]]"

definition tiny_text :: string where
  "tiny_text = config_text [\<lparr>kv_key = ''threads'', kv_val = ''4''\<rparr>]
     [(''a'', [\<lparr>kv_key = ''domain'', kv_val = [CHR 0x27, CHR ''x'', CHR 0x27]\<rparr>, \<lparr>kv_key = ''port'', kv_val = ''8080''\<rparr>])]"

definition tiny_env :: config_env where
  "tiny_env = \<lparr>env_strtod = (\<lambda>s. False), env_realpath = (\<lambda>p. Some p), env_SOMAXCONN = 128,
     env_SSL_CTX_new = Some, env_use_PrivateKey_file = (\<lambda>p. True), env_use_certificate_file = (\<lambda>k c. True),
     env_read_DHparams = (\<lambda>p. None)\<rparr>"

definition tiny_server :: server_config_t where
  "tiny_server = \<lparr>sc_name = Some (str ''a''), sc_domain = Some (str ''x''), sc_rootDirectory = None, sc_port = 8080,
     sc_enabled = -1, sc_dhparams = None, sc_sslContext = None, sc_directoryIndex = None\<rparr>"

lemma tiny_parsed: "toml_parse strtod (lit tiny_text) = Inr (Some tiny_doc)"
proof -
  have "config_ok [\<lparr>kv_key = ''threads'', kv_val = ''4''\<rparr>]
     [(''a'', [\<lparr>kv_key = ''domain'', kv_val = [CHR 0x27, CHR ''x'', CHR 0x27]\<rparr>, \<lparr>kv_key = ''port'', kv_val = ''8080''\<rparr>])]" by code_simp
  then show ?thesis by (simp add: tiny_text_def toml_parse_text tiny_doc_def config_doc_def server_table_def)
qed

lemma tiny_parse_server:
  "config_parseServerTable tiny_env 0 (tab_tab (tab_tab tiny_doc ! 1) ! 0) = Inr (Some tiny_server)"
proof -
  have "toml_rtos (Some [CHR 0x27, CHR ''x'', CHR 0x27]) = Some (lit ''x'')" by code_simp
  moreover have "toml_rtoi (Some ''8080'') = Inr (Some 8080)" by code_simp
  ultimately show ?thesis
    by (simp add: tiny_doc_def tiny_server_def config_parseServerTable_def config_parseServerBasics_def Let_def
        toml_table_key_def config_parseString_def toml_raw_in_def fromBuffer_lit config_parseServerRoot_def
        config_parseServerPort_def config_parseInt_def config_parseBool_def config_parseArray_def toml_array_in_def
        to_int16_def)
qed

lemma tiny_parse:
  "\<exists>l. list_inv l [tiny_server] \<and> config_parse tiny_env tiny_text = Inr (Some \<lparr>cfg_daemon = -1, cfg_serverConfigs = l, cfg_logfile = None,
      cfg_loggingLevel = 5, cfg_threads = 4, cfg_backlog = 128\<rparr>)"
proof -
  let ?c = "\<lparr>cfg_daemon = 0, cfg_serverConfigs = list_create, cfg_logfile = None, cfg_loggingLevel = 0, cfg_threads = 0, cfg_backlog = 0\<rparr>"
  let ?st = "tab_tab tiny_doc ! 1"
  obtain l where l: "list_addValue list_create tiny_server = Inr l" "list_inv l [tiny_server]"
    using inv_add [OF inv_create, of tiny_server] by auto
  have t: "toml_table_in tiny_doc ''server'' = Some (tab_tab tiny_doc ! 0)" "toml_table_in tiny_doc ''servers'' = Some ?st"
    "toml_key_in ?st 0 = Some ''a''" "toml_table_in ?st ''a'' = Some (tab_tab ?st ! 0)" "toml_table_ntab ?st = 1"
    by (simp_all add: tiny_doc_def toml_table_in_def toml_key_in_def toml_table_ntab_def)
  have "toml_rtoi (Some ''4'') = Inr (Some 4)" by code_simp
  then have c: "config_parseServer tiny_env (Some (tab_tab tiny_doc ! 0)) ?c = Inr \<lparr>cfg_daemon = -1,
      cfg_serverConfigs = list_create, cfg_logfile = None, cfg_loggingLevel = 5, cfg_threads = 4, cfg_backlog = 128\<rparr>"
    by (simp add: tiny_doc_def tiny_env_def config_parseServer_def config_parseString_def config_parseInt_def
        config_parseBool_def toml_raw_in_def LOG_NOTICE_def)
  have "config_parseServers tiny_env 1 0 1 ?st list_create = Inr l"
    using t l(1) tiny_parse_server by (simp add: list_getValue_def list_create_def)
  then show ?thesis using t c l(2) by (simp add: config_parse_def Let_def tiny_parsed)
qed

theorem config_lookup_first_witness:
  "\<exists>c c'. list_inv (cfg_serverConfigs c) [tiny_server] \<and> config_getServerConfigByDomain c (str ''x'') 8080 = Inr (Some tiny_server, c')"
proof -
  obtain l where l: "list_inv l [tiny_server]" using tiny_parse by blast
  let ?c = "\<lparr>cfg_daemon = 0, cfg_serverConfigs = l, cfg_logfile = None, cfg_loggingLevel = 0, cfg_threads = 0, cfg_backlog = 0\<rparr>"
  have "list_inv (cfg_serverConfigs ?c) [tiny_server]" "\<forall>sc \<in> set [tiny_server]. has_domain sc" "key_ok (str ''x'')"
    using l by (simp_all add: has_domain_def tiny_server_def)
  from config_lookup_first [OF this, of 8080 0] obtain c1 where "config_getServerConfigByDomain ?c (str ''x'') 8080
      = Inr (find (\<lambda>sc. 8080 = to_u16 (sc_port sc) \<and> domain_text sc = key_text (str ''x'')) [tiny_server], c1)" by blast
  moreover have "find (\<lambda>sc. 8080 = to_u16 (sc_port sc) \<and> domain_text sc = key_text (str ''x'')) [tiny_server] = Some tiny_server"
    by (simp add: tiny_server_def domain_text_def)
  ultimately show ?thesis using l by (intro exI [of _ ?c] exI [of _ c1]) simp
qed

theorem config_tls_domains_unique_witness:
  "\<exists>c scs. config_parse tiny_env tiny_text = Inr (Some c) \<and> list_inv (cfg_serverConfigs c) scs"
  using tiny_parse config_tls_domains_unique [of tiny_env tiny_text] by blast

theorem config_limits_witness:
  "\<exists>c. config_parse tiny_env tiny_text = Inr (Some c) \<and> 2 \<le> config_getNumberOfThreads c"
proof -
  obtain c where c: "config_parse tiny_env tiny_text = Inr (Some c)" using tiny_parse by blast
  have "toml_parse (env_strtod tiny_env) (lit tiny_text) = Inr (Some tiny_doc)" "2 \<le> env_SOMAXCONN tiny_env" "toml_table_in tiny_doc ''server'' \<noteq> None"
    by (simp_all add: tiny_parsed tiny_env_def tiny_doc_def toml_table_in_def)
  with config_limits [OF c] c show ?thesis by auto
qed

theorem config_port_roundtrip_witness: "to_u16 (config_getPort tiny_server) = 8080"
proof -
  have "toml_raw_in (tab_tab (tab_tab tiny_doc ! 1) ! 0) ''port'' = Some (dec 8080)"
    by (simp add: tiny_doc_def toml_raw_in_def dec.simps)
  from config_port_roundtrip [OF tiny_parse_server this] show ?thesis by simp
qed

theorem config_parse_then_free_witness: "\<exists>c. config_parse tiny_env tiny_text = Inr (Some c) \<and> config_free c = Inr ()"
proof -
  obtain c where c: "config_parse tiny_env tiny_text = Inr (Some c)" using tiny_parse by blast
  have "toml_parse (env_strtod tiny_env) (lit tiny_text) = Inr (Some tiny_doc)" by (rule tiny_parsed)
  moreover have "\<forall>st. toml_table_in tiny_doc ''servers'' = Some st \<longrightarrow> list_all string_index (tab_tab st)"
    by (simp add: tiny_doc_def toml_table_in_def string_index_def toml_array_in_def)
  ultimately show ?thesis using config_parse_then_free [OF c] c by blast
qed

theorem config_servers_shifted_witness:
  "config_parseServers tiny_env 1 0 1
     (Toml_Table (Some ''servers'') True [\<lparr>kv_key = ''x'', kv_val = ''1''\<rparr>] [] [Toml_Table (Some ''a'') False [] [] []]) list_create
   = Inr list_create"
  using config_servers_shifted [of "Toml_Table (Some ''servers'') True [\<lparr>kv_key = ''x'', kv_val = ''1''\<rparr>] [] [Toml_Table (Some ''a'') False [] [] []]"]
  by (simp add: toml_table_ntab_def)

end
