(* ===== verification/Path.thy ===== *)
theory Path
  imports CString "HOL-Library.Sublist"
begin

text \<open>
  Path resolution of \<^verbatim>\<open>src/path/path.c\<close>. The file system is the parameter \<open>realpath\<close>: the
  canonical absolute path of an existing file, nothing for a missing one. What the C function
  documents of it is the hypothesis \<open>realpath_text\<close>: a result is a non-empty C string.
\<close>

section \<open>Operations\<close>

text \<open>The part both functions share: check that the canonical path starts with the root.\<close>

definition path_within :: "string \<Rightarrow> string_t \<Rightarrow> string_t option exec" where
  "path_within resolvedPathBuffer root =
     bnd (string_fromBuffer (lit resolvedPathBuffer)) (\<lambda>resolvedPath.
     bnd (string_substring resolvedPath 0 (string_getSize root)) (\<lambda>resolvedRoot.
       case resolvedRoot of None \<Rightarrow> Inr None
       | Some r \<Rightarrow> bnd (string_equals r root) (\<lambda>same.
                    Inr (if same then Some resolvedPath else None))))"

definition path_resolve ::
  "(string \<Rightarrow> string option) \<Rightarrow> string_t option \<Rightarrow> string_t \<Rightarrow> string_t option exec" where
  "path_resolve realpath relativePath root =
     bnd (string_fromBufferWithLength (string_getBuffer root) (string_getSize root)) (\<lambda>path.
     bnd (string_appendChar path (CHR ''/'')) (\<lambda>path1.
     bnd (deref relativePath) (\<lambda>rel.
     bnd (string_append path1 rel) (\<lambda>path2.
     bnd (deref (string_getBuffer path2)) (\<lambda>b.
     bnd (strlen b) (\<lambda>_.
       case realpath (cstr b) of None \<Rightarrow> Inr None
       | Some resolvedPathBuffer \<Rightarrow> path_within resolvedPathBuffer root))))))"

definition path_relativeTo ::
  "(string \<Rightarrow> string option) \<Rightarrow> string_t \<Rightarrow> string_t \<Rightarrow> string_t option exec" where
  "path_relativeTo realpath path root =
     bnd (deref (string_getBuffer path)) (\<lambda>b.
     bnd (strlen b) (\<lambda>_.
       case realpath (cstr b) of None \<Rightarrow> Inr None
       | Some resolvedPathBuffer \<Rightarrow>
           bnd (path_within resolvedPathBuffer root) (\<lambda>p.
             case p of None \<Rightarrow> Inr None
             | Some resolvedPath \<Rightarrow>
                 string_substring resolvedPath (string_getSize root) (string_getSize resolvedPath))))"

section \<open>Lemmas\<close>

definition realpath_text :: "(string \<Rightarrow> string option) \<Rightarrow> bool" where
  "realpath_text realpath \<longleftrightarrow> (\<forall>p q. realpath p = Some q \<longrightarrow> q \<noteq> [] \<and> NUL \<notin> set q)"

lemma path_within_eq:
  assumes "p \<noteq> []" and "NUL \<notin> set p" and "0 < k" and "NUL \<notin> set root"
  shows "path_within p (pad root k) = Inr (if prefix root p then Some (str p) else None)"
proof (cases "length root \<le> length p")
  case True
  have no: "NUL \<notin> set (take (length root) p)" using assms(2) by (meson in_set_takeD)
  have pre: "prefix root p \<longleftrightarrow> take (length root) p = root"
    by (metis append_eq_conv_conj prefix_def take_is_prefix)
  have "string_substring (str p) 0 (length root) = Inr (Some (str (take (length root) p)))"
    using True assms(1) by (auto simp: substring_pad)
  with assms no pre show ?thesis
    by (simp add: path_within_def fromBuffer_lit string_getSize_def equals_pad)
next
  case False
  then have "\<not> prefix root p" using prefix_length_le by blast
  moreover have "string_substring (str p) 0 (length root) = Inr None" using False by (simp add: substring_pad)
  ultimately show ?thesis using assms by (simp add: path_within_def fromBuffer_lit string_getSize_def)
qed

lemma path_resolve_eq:
  assumes "realpath_text realpath" and "0 < k" and "0 < l" and "NUL \<notin> set root" and "NUL \<notin> set rel"
  shows "path_resolve realpath (Some (pad rel l)) (pad root k) =
    Inr (case realpath (root @ ''/'' @ rel) of None \<Rightarrow> None
         | Some p \<Rightarrow> if prefix root p then Some (str p) else None)"
proof -
  have "string_fromBufferWithLength (string_getBuffer (pad root k)) (string_getSize (pad root k)) = Inr (str root)"
    by (simp add: string_getBuffer_def string_getSize_def fromBufferWithLength_eq)
  moreover have "string_append (str (root @ ''/'')) (pad rel l) = Inr (str (root @ ''/'' @ rel))"
    using assms by (simp add: append_pad)
  moreover have "cstr ((root @ ''/'' @ rel) @ [NUL]) = root @ ''/'' @ rel"
    using assms(4,5) by (intro cstr_append) simp
  ultimately show ?thesis
    using assms path_within_eq [OF _ _ assms(2,4)]
    by (auto simp: path_resolve_def appendChar_pad string_getBuffer_def strlen_def realpath_text_def
        split: option.splits)
qed

lemma path_relativeTo_eq:
  assumes "realpath_text realpath" and "NUL \<notin> set root" and "NUL \<notin> set path"
  shows "path_relativeTo realpath (str path) (str root) =
    Inr (case realpath path of None \<Rightarrow> None
         | Some q \<Rightarrow> if prefix root q \<and> q \<noteq> root then Some (str (drop (length root) q)) else None)"
proof (cases "realpath path")
  case (Some q)
  then have q: "q \<noteq> []" "NUL \<notin> set q" using assms(1) by (auto simp: realpath_text_def)
  have "path_relativeTo realpath (str path) (str root) =
      (if prefix root q then string_substring (str q) (length root) (length q) else Inr None)"
    using assms Some path_within_eq [OF q, of 1 root]
    by (simp add: path_relativeTo_def string_getBuffer_def strlen_def string_getSize_def)
  then show ?thesis using Some by (auto simp: substring_pad prefix_def)
qed (use assms in \<open>simp add: path_relativeTo_def string_getBuffer_def strlen_def\<close>)

section \<open>Properties\<close>

text \<open>C38. Resolving a path inside a root directory returns the canonical path of
  \<^verbatim>\<open>root/relativePath\<close> exactly when that file exists and its canonical path starts with the text of
  the root; otherwise nothing. In particular a path that leaves the root through \<^verbatim>\<open>..\<close> or a symbolic
  link to a place whose path does not start with the root is refused.\<close>

theorem path_resolve_contained:
  assumes "realpath_text realpath" and "NUL \<notin> set root" and "NUL \<notin> set rel"
  shows "path_resolve realpath (Some (str rel)) (str root) = Inr (Some p)
    \<longleftrightarrow> (\<exists>q. p = str q \<and> realpath (root @ ''/'' @ rel) = Some q \<and> prefix root q)"
  using assms by (auto simp: path_resolve_eq split: option.splits if_splits)

theorem path_resolve_contained_witness:
  "path_resolve [''/srv/www//a'' \<mapsto> ''/srv/www/a''] (Some (str ''/a'')) (str ''/srv/www'') = Inr (Some (str ''/srv/www/a''))"
proof -
  have "realpath_text [''/srv/www//a'' \<mapsto> ''/srv/www/a'']" by (simp add: realpath_text_def)
  from path_resolve_contained [OF this, of "''/srv/www''" "''/a''" "str ''/srv/www/a''"] show ?thesis by simp
qed

text \<open>C39. The root is compared as text and not as a directory: a file of a sibling directory whose
  name merely starts with the name of the root is returned, although it lies outside the root.\<close>

theorem path_resolve_sibling_escape:
  assumes "realpath_text realpath" and "NUL \<notin> set root" and "NUL \<notin> set name" and "NUL \<notin> set rel"
    and "realpath (root @ ''/'' @ rel) = Some (root @ name)" and "hd name \<noteq> CHR ''/''" and "name \<noteq> []"
  shows "path_resolve realpath (Some (str rel)) (str root) = Inr (Some (str (root @ name)))"
  using assms by (simp add: path_resolve_eq)

theorem path_resolve_sibling_escape_witness:
  "path_resolve [''/srv/www//../www-private/key'' \<mapsto> ''/srv/www-private/key'']
     (Some (str ''/../www-private/key'')) (str ''/srv/www'') = Inr (Some (str ''/srv/www-private/key''))"
proof -
  have "realpath_text [''/srv/www//../www-private/key'' \<mapsto> ''/srv/www-private/key'']"
    by (simp add: realpath_text_def)
  from path_resolve_sibling_escape [OF this, of "''/srv/www''" "''-private/key''" "''/../www-private/key''"]
  show ?thesis by simp
qed

text \<open>The relative path of a file below the root, prefixed with the root, is its canonical path; the
  root itself has no relative path although it exists.\<close>

theorem path_relativeTo_inverse:
  assumes "realpath_text realpath" and "NUL \<notin> set root" and "NUL \<notin> set path" and "realpath path = Some q"
  shows "(\<forall>r. path_relativeTo realpath (str path) (str root) = Inr (Some (str r)) \<longleftrightarrow> q = root @ r \<and> r \<noteq> [])
    \<and> (q = root \<longrightarrow> path_relativeTo realpath (str path) (str root) = Inr None)"
  using path_relativeTo_eq [OF assms(1-3)] assms(4) by (auto simp: prefix_def)

theorem path_relativeTo_inverse_witness:
  "path_relativeTo [''/srv/www/a'' \<mapsto> ''/srv/www/a''] (str ''/srv/www/a'') (str ''/srv/www'') = Inr (Some (str ''/a''))"
proof -
  have "realpath_text [''/srv/www/a'' \<mapsto> ''/srv/www/a'']" by (simp add: realpath_text_def)
  from path_relativeTo_inverse [OF this, of "''/srv/www''" "''/srv/www/a''" "''/srv/www/a''"] show ?thesis by simp
qed

end
