(* ===== verification/Resources.thy ===== *)
theory Resources
  imports CString
begin

unbundle bit_operations_syntax

text \<open>
  File access of \<^verbatim>\<open>src/resources/resources.c\<close> and the tables of \<^verbatim>\<open>src/resources/mime.c\<close>. The file
  system is an argument: \<open>fopen\<close> maps a path to what opening it gives, \<open>stat\<close> maps a path to the mode
  bits of the file it names.
\<close>

section \<open>MIME tables\<close>

definition MIME_TYPES :: nat where
  "MIME_TYPES = 63"

definition mime_extensions :: "string list" where
  "mime_extensions =
   [''.html'', ''.aac'', ''.abw'', ''.arc'', ''.avi'', ''.azw'', ''.bin'', ''.bmp'', ''.bz'',
    ''.bz2'', ''.csh'', ''.css'', ''.csv'', ''.doc'', ''.docx'', ''.eot'', ''.epub'', ''.gz'',
    ''.gif'', ''.ico'', ''.ics'', ''.jar'', ''.js'', ''.json'', ''.jsonld'', ''.mjs'', ''.mp3'',
    ''.mpeg'', ''.mpkg'', ''.odp'', ''.ods'', ''.odt'', ''.oga'', ''.ogv'', ''.ogx'', ''.otf'',
    ''.png'', ''.pdf'', ''.php'', ''.ppt'', ''.pptx'', ''.rar'', ''.rtf'', ''.sh'', ''.svg'',
    ''.swf'', ''.tar'', ''.ts'', ''.ttf'', ''.txt'', ''.vsd'', ''.wav'', ''.weba'', ''.webm'',
    ''.webp'', ''.woff'', ''.woff2'', ''.xhtml'', ''.xls'', ''.xlsx'', ''.xul'', ''.zip'',
    ''.7z'']"

definition mime_types :: "string list" where
  "mime_types =
   [''text/html'', ''audio/aac'', ''application/x-abiword'', ''application/x-freearc'',
    ''video/x-msvideo'', ''application/vnd.amazon.ebook'', ''application/octet-stream'',
    ''image/bmp'', ''application/x-bzip'', ''application/x-bzip2'', ''application/x-csh'',
    ''text/css'', ''text/csv'', ''application/msword'',
    ''application/vnd.openxmlformats-officedocument.wordprocessingml.document'',
    ''application/vnd.ms-fontobject'', ''application/epub+zip'', ''application/gzip'',
    ''image/gif'', ''image/vnd.microsoft.icon'', ''text/calendar'',
    ''application/java-archive'', ''text/javascript'', ''application/json'',
    ''application/ld+json'', ''text/javascript'', ''audio/mpeg'', ''video/mpeg'',
    ''application/vnd.apple.installer+xml'',
    ''application/vnd.oasis.opendocument.presentation'',
    ''application/vnd.oasis.opendocument.spreadsheet'',
    ''application/vnd.oasis.opendocument.text'', ''audio/ogg'', ''video/ogg'',
    ''application/ogg'', ''font/otf'', ''image/png'', ''application/pdf'', ''appliction/php'',
    ''application/vnd.ms-powerpoint'',
    ''application/vnd.openxmlformats-officedocument.presentationml.presentation'',
    ''application/x-rar-compressed'', ''application/rtf'', ''application/x-sh'',
    ''image/svg+xml'', ''application/x-shockwave-flash'', ''application/x-tar'', ''video/mp2t'',
    ''font/ttf'', ''text/plain'', ''application/vnd.visio'', ''audio/wav'', ''audio/webm'',
    ''video/webm'', ''image/webp'', ''font/woff'', ''font/woff2'', ''application/xhtml+xml'',
    ''application/vnd.ms-excel'',
    ''application/vnd.openxmlformats-officedocument.spreadsheetml.sheet'',
    ''application/vnd.mozilla.xul+xml'', ''application/zip'', ''application/x-7z-compressed'']"

section \<open>Operations\<close>

text \<open>An opened file: whether seeking to the end succeeds, the position \<^verbatim>\<open>ftell\<close> reports there (\<open>-1\<close> on
  failure), and the bytes \<^verbatim>\<open>fgetc\<close> delivers.\<close>

record file_t =
  file_seek :: bool
  file_tell :: int
  file_bytes :: bytes

text \<open>
  \<^verbatim>\<open>char current; while ((current = fgetc(file)) != EOF)\<close>: the result of \<^verbatim>\<open>fgetc\<close> is narrowed to a
  (signed) \<^verbatim>\<open>char\<close> before it is compared, so that the byte \<^verbatim>\<open>0xFF\<close> is \<open>-1\<close> and ends the loop as well.
\<close>

definition EOF :: int where
  "EOF = -1"

fun resources_readChars :: "bytes \<Rightarrow> string_t \<Rightarrow> string_t exec" where
  "resources_readChars [] contents = Inr contents"
| "resources_readChars (current # rest) contents =
     (if schar current = EOF then Inr contents
      else bnd (string_appendChar contents current) (\<lambda>contents'. resources_readChars rest contents'))"

definition resources_loadFile :: "(string \<Rightarrow> file_t option) \<Rightarrow> string_t \<Rightarrow> string_t option exec" where
  "resources_loadFile fopen filePath =
     bnd (deref (string_getBuffer filePath)) (\<lambda>path.
     bnd (strlen path) (\<lambda>_.
       case fopen (cstr path) of
         None \<Rightarrow> Inr None
       | Some file \<Rightarrow>
           (if \<not> file_seek file then Inr None
            else
              let fileSize = file_tell file in
              if fileSize = -1 then Inr None
              else bnd (string_setBufferSize string_create (nat fileSize)) (\<lambda>contents.
                   bnd (resources_readChars (file_bytes file) contents) (\<lambda>contents'.
                     Inr (Some contents'))))))"

fun resources_findMIMEType :: "nat \<Rightarrow> nat \<Rightarrow> string_t \<Rightarrow> string_t option exec" where
  "resources_findMIMEType 0 i extension = Inr None"
| "resources_findMIMEType (Suc n) i extension =
     bnd (string_equalsBuffer extension (lit (mime_extensions ! i))) (\<lambda>eq.
       if eq then bnd (string_fromBuffer (lit (mime_types ! i))) (\<lambda>t. Inr (Some t))
       else resources_findMIMEType n (Suc i) extension)"

definition resources_getMIMEType :: "string_t \<Rightarrow> string_t option exec" where
  "resources_getMIMEType filePath =
     bnd (string_findNextChar (string_createCursor filePath) (CHR ''.'')) (\<lambda>(dotIndex, _).
       if dotIndex = -1 then Inr None
       else bnd (string_substring filePath (nat dotIndex) (string_getSize filePath)) (\<lambda>r.
              case r of
                None \<Rightarrow> Inr None
              | Some extension \<Rightarrow> resources_findMIMEType MIME_TYPES 0 extension))"

definition S_IXUSR :: "32 word" where "S_IXUSR = 0x40"
definition S_IFMT :: "32 word" where "S_IFMT = 0xF000"
definition S_IFREG :: "32 word" where "S_IFREG = 0x8000"

definition resources_isExecutable :: "(string \<Rightarrow> 32 word option) \<Rightarrow> string_t \<Rightarrow> bool exec" where
  "resources_isExecutable stat filePath =
     bnd (deref (string_getBuffer filePath)) (\<lambda>path.
     bnd (strlen path) (\<lambda>_.
       Inr (case stat (cstr path) of Some st_mode \<Rightarrow> st_mode AND S_IXUSR \<noteq> 0 | None \<Rightarrow> False)))"

definition resources_isFile :: "(string \<Rightarrow> 32 word option) \<Rightarrow> string_t \<Rightarrow> bool exec" where
  "resources_isFile stat filePath =
     bnd (deref (string_getBuffer filePath)) (\<lambda>path.
     bnd (strlen path) (\<lambda>_.
       Inr (case stat (cstr path) of Some st_mode \<Rightarrow> st_mode AND S_IFMT = S_IFREG | None \<Rightarrow> False)))"

section \<open>Reading a file\<close>

text \<open>Appending a zero byte to a string whose next byte is already zero only moves the end.\<close>

lemma appendChar_room: "1 < k \<Longrightarrow> string_appendChar (pad xs k) c = Inr (pad (xs @ [c]) (k - 1))"
proof (cases "c = NUL")
  case True
  assume "1 < k"
  then obtain j where "k = 2 + j" using le_Suc_ex [of 2 k] by auto
  then show ?thesis using True replicate_last [of k xs NUL]
    by (simp add: string_appendChar_def string_appendBufferWithLength_def Let_def load_def memcpy_def store_def pad_def)
next
  case False
  assume "1 < k"
  then show ?thesis using False appendChar_pad [of k c xs] by (simp add: cap_after_def)
qed

definition FF :: char where
  "FF = CHR 0xFF"

lemma schar_EOF: "schar c = EOF \<longleftrightarrow> c = FF"
proof -
  have "schar c = -1 \<longleftrightarrow> (of_char c :: nat) = 255"
    using nat_of_char_less_256 [of c] by (auto simp: schar_def Let_def)
  also have "\<dots> \<longleftrightarrow> (of_char c :: nat) = of_char FF" by (simp add: FF_def)
  finally show ?thesis by (simp add: EOF_def)
qed

lemma readChars_room:
  "length bs < k \<Longrightarrow> resources_readChars bs (pad xs k)
     = Inr (pad (xs @ takeWhile (\<lambda>c. c \<noteq> FF) bs) (k - length (takeWhile (\<lambda>c. c \<noteq> FF) bs)))"
  by (induction bs arbitrary: xs k) (auto simp: schar_EOF appendChar_room)

lemma loadFile_found:
  assumes "is_text path" and "fopen (content path) = Some f" and "file_seek f" and "file_tell f = int (length (file_bytes f))"
  shows "resources_loadFile fopen path
    = Inr (Some (if file_bytes f = [] then string_create
        else let ys = takeWhile (\<lambda>c. c \<noteq> FF) (file_bytes f) in pad ys (length (file_bytes f) + 1 - length ys)))"
proof -
  obtain b where b: "str_buffer path = Some b" "NUL \<in> set b" "cstr b = content path"
    using assms(1) by (auto elim!: is_textE simp: content_def)
  show ?thesis
  proof (cases "file_bytes f = []")
    case True
    then show ?thesis using assms b
      by (simp add: resources_loadFile_def string_getBuffer_def strlen_def string_setBufferSize_def string_create_def)
  next
    case False
    then show ?thesis using assms b
      by (simp add: resources_loadFile_def string_getBuffer_def strlen_def setBufferSize_create readChars_room Let_def)
  qed
qed

section \<open>MIME lookup\<close>

lemma findMIMEType_eq:
  assumes "NUL \<notin> set ext" and "\<forall>j < i + n. NUL \<notin> set (mime_extensions ! j) \<and> NUL \<notin> set (mime_types ! j)"
  shows "resources_findMIMEType n i (str ext)
    = Inr (map_option str (map_of (map (\<lambda>j. (mime_extensions ! j, mime_types ! j)) [i..<i + n]) ext))"
  using assms(2)
proof (induction n arbitrary: i)
  case (Suc n)
  from Suc.prems have i: "NUL \<notin> set (mime_extensions ! i)" "NUL \<notin> set (mime_types ! i)" by auto
  have "\<forall>j < Suc i + n. NUL \<notin> set (mime_extensions ! j) \<and> NUL \<notin> set (mime_types ! j)" using Suc.prems by simp
  from Suc.IH [OF this] i assms(1) show ?case
    by (simp add: str_simps upt_conv_Cons [of i] del: upt_Suc)
qed simp

lemma mime_tables:
  "length mime_extensions = MIME_TYPES" "length mime_types = MIME_TYPES"
  "distinct mime_extensions" "list_all (\<lambda>s. NUL \<notin> set s) mime_extensions" "list_all (\<lambda>s. NUL \<notin> set s) mime_types"
  "list_all (\<lambda>s. s \<noteq> [] \<and> hd s = CHR ''.'' \<and> CHR ''.'' \<notin> set (tl s)) mime_extensions"
  by (code_simp)+

definition mime_map :: "string \<Rightarrow> string option" where
  "mime_map = map_of (zip mime_extensions mime_types)"

lemma mime_zip: "map (\<lambda>j. (mime_extensions ! j, mime_types ! j)) [0..<MIME_TYPES] = zip mime_extensions mime_types"
  by (rule nth_equalityI) (simp_all add: mime_tables)

lemma findMIMEType_all:
  assumes "NUL \<notin> set ext"
  shows "resources_findMIMEType MIME_TYPES 0 (str ext) = Inr (map_option str (mime_map ext))"
proof -
  have "\<forall>j < 0 + MIME_TYPES. NUL \<notin> set (mime_extensions ! j) \<and> NUL \<notin> set (mime_types ! j)"
    using mime_tables by (auto simp: list_all_length)
  from findMIMEType_eq [OF assms this] show ?thesis by (simp add: mime_zip mime_map_def)
qed

lemma mime_map_None: "mime_map e = None \<longleftrightarrow> e \<notin> set mime_extensions"
  by (simp add: mime_map_def map_of_zip_is_None mime_tables(1,2))

lemma mime_map_Nil [simp]: "mime_map [] = None"
proof -
  have "[] \<notin> set mime_extensions" using mime_tables(6) by (auto simp: list_all_iff)
  then show ?thesis by (simp add: mime_map_None)
qed

lemma getMIMEType_eq:
  assumes "NUL \<notin> set name"
  shows "resources_getMIMEType (pad name k) = Inr (map_option str (mime_map (dropWhile (\<lambda>c. c \<noteq> CHR ''.'') name)))"
proof -
  let ?i = "length (takeWhile (\<lambda>c. c \<noteq> CHR ''.'') name)"
  have i: "find_from name 0 (CHR ''.'') = ?i" by (simp add: find_from_def)
  show ?thesis
  proof (cases "CHR ''.'' \<in> set name")
    case True
    then have "?i < length name" using find_from_less_iff [of 0 name "CHR ''.''"] i by simp
    moreover have "NUL \<notin> set (drop ?i name)" using assms by (meson in_set_dropD)
    ultimately show ?thesis using assms
      by (simp add: resources_getMIMEType_def findNextChar_at i Let_def substring_pad string_getSize_def
          findMIMEType_all dropWhile_eq_drop)
  next
    case False
    then have "\<not> find_from name 0 (CHR ''.'') < length name" using find_from_less_iff [of 0 name "CHR ''.''"] by simp
    moreover have "dropWhile (\<lambda>c. c \<noteq> CHR ''.'') name = []" using False by auto
    ultimately show ?thesis using assms
      by (simp add: resources_getMIMEType_def findNextChar_at Let_def del: dropWhile_eq_Nil_conv)
  qed
qed

lemma mime_map_nth: "i < MIME_TYPES \<Longrightarrow> mime_map (mime_extensions ! i) = Some (mime_types ! i)"
  using mime_tables(1-3) by (simp add: mime_map_def map_of_zip_nth)

lemma mime_map_two_dots: "CHR ''.'' \<in> set (tl e) \<Longrightarrow> mime_map e = None"
proof -
  assume "CHR ''.'' \<in> set (tl e)"
  then have "e \<notin> set mime_extensions" using mime_tables(6) by (auto simp: list_all_iff)
  then show ?thesis by (simp add: mime_map_None)
qed

section \<open>Properties\<close>

text \<open>Loading a file returns its bytes up to the first byte \<^verbatim>\<open>0xFF\<close>, zero bytes included, in a string
  that needed no reallocation; a file without that byte is loaded completely. An empty file becomes a
  string without a buffer, and a path that cannot be opened, or a file whose size cannot be determined, nothing.\<close>

theorem resources_loadFile_content:
  assumes "is_text path"
  shows "(fopen (content path) = None \<longrightarrow> resources_loadFile fopen path = Inr None)
    \<and> (\<forall>f. fopen (content path) = Some f \<longrightarrow>
        (\<not> file_seek f \<or> file_tell f = -1 \<longrightarrow> resources_loadFile fopen path = Inr None)
      \<and> (file_seek f \<and> file_tell f = int (length (file_bytes f)) \<longrightarrow>
          (\<exists>s. resources_loadFile fopen path = Inr (Some s) \<and> str_wf s
             \<and> content s = takeWhile (\<lambda>c. c \<noteq> CHR 0xFF) (file_bytes f)
             \<and> (str_buffer s = None \<longleftrightarrow> file_bytes f = []))))"
proof -
  obtain b where b: "str_buffer path = Some b" "NUL \<in> set b" "cstr b = content path"
    using assms(1) by (auto elim!: is_textE simp: content_def)
  have "\<exists>s. resources_loadFile fopen path = Inr (Some s) \<and> str_wf s
      \<and> content s = takeWhile (\<lambda>c. c \<noteq> CHR 0xFF) (file_bytes f) \<and> (str_buffer s = None \<longleftrightarrow> file_bytes f = [])"
    if "fopen (content path) = Some f" "file_seek f" "file_tell f = int (length (file_bytes f))" for f
    using loadFile_found [of path fopen f, OF assms that] length_takeWhile_le [of "\<lambda>c. c \<noteq> FF" "file_bytes f"]
    by (cases "file_bytes f = []") (auto simp: Let_def FF_def, simp_all add: string_create_def content_def)
  with b show ?thesis by (auto simp: resources_loadFile_def string_getBuffer_def strlen_def Let_def)
qed

theorem resources_loadFile_content_witness:
  "\<exists>s. resources_loadFile [''a'' \<mapsto> \<lparr>file_seek = True, file_tell = 3, file_bytes = [CHR ''x'', CHR 0xFF, CHR ''y'']\<rparr>]
     (str ''a'') = Inr (Some s) \<and> content s = ''x''"
  using resources_loadFile_content [of "str ''a''"
      "[''a'' \<mapsto> \<lparr>file_seek = True, file_tell = 3, file_bytes = [CHR ''x'', CHR 0xFF, CHR ''y'']\<rparr>]"]
  by auto

text \<open>The MIME type of a file name is looked up under everything from its first dot on: each of the 63
  extensions gives the type in the same row of the table, an extension that is not in the table or a
  name without a dot gives nothing, and so does every name with a second dot.\<close>

theorem resources_mime_lookup:
  assumes "NUL \<notin> set base" and "CHR ''.'' \<notin> set base"
  shows "(\<forall>i < MIME_TYPES. resources_getMIMEType (str (base @ mime_extensions ! i)) = Inr (Some (str (mime_types ! i))))
    \<and> resources_getMIMEType (str base) = Inr None
    \<and> (\<forall>ext. NUL \<notin> set ext \<and> (CHR ''.'' # ext \<notin> set mime_extensions \<or> CHR ''.'' \<in> set ext) \<longrightarrow>
          resources_getMIMEType (str (base @ CHR ''.'' # ext)) = Inr None)"
proof -
  have d: "dropWhile (\<lambda>c. c \<noteq> CHR ''.'') (base @ CHR ''.'' # e) = CHR ''.'' # e" for e
    using assms(2) by (subst dropWhile_append2) auto
  have "resources_getMIMEType (str (base @ mime_extensions ! i)) = Inr (Some (str (mime_types ! i)))"
    if "i < MIME_TYPES" for i
  proof -
    have "mime_extensions ! i \<in> set mime_extensions" using that mime_tables(1) by simp
    then have "NUL \<notin> set (mime_extensions ! i)" "mime_extensions ! i \<noteq> []" "hd (mime_extensions ! i) = CHR ''.''"
      using mime_tables(4,6) unfolding list_all_iff by blast+
    then obtain e where e: "mime_extensions ! i = CHR ''.'' # e" "NUL \<notin> set e"
      by (cases "mime_extensions ! i") auto
    then show ?thesis using d [of e] getMIMEType_eq [of "base @ mime_extensions ! i"] mime_map_nth [OF that] assms by simp
  qed
  moreover have "resources_getMIMEType (str base) = Inr None"
  proof -
    have "dropWhile (\<lambda>c. c \<noteq> CHR ''.'') base = []" using assms(2) by auto
    then show ?thesis using getMIMEType_eq [OF assms(1), of 1] by (simp del: dropWhile_eq_Nil_conv)
  qed
  moreover have "resources_getMIMEType (str (base @ CHR ''.'' # ext)) = Inr None"
    if "NUL \<notin> set ext" "CHR ''.'' # ext \<notin> set mime_extensions \<or> CHR ''.'' \<in> set ext" for ext
    using getMIMEType_eq [of "base @ CHR ''.'' # ext"] d that assms mime_map_two_dots [of "CHR ''.'' # ext"]
    by (auto simp: mime_map_None)
  ultimately show ?thesis by blast
qed

theorem resources_mime_lookup_witness:
  "resources_getMIMEType (str ''app.min.js'') = Inr None \<and> resources_getMIMEType (str ''app.html'') = Inr (Some (str ''text/html''))"
proof -
  have "resources_getMIMEType (str (''app'' @ CHR ''.'' # ''min.js'')) = Inr None"
    using resources_mime_lookup [of "''app''"] by auto
  moreover have "resources_getMIMEType (str (''app'' @ mime_extensions ! 0)) = Inr (Some (str (mime_types ! 0)))"
    using resources_mime_lookup [of "''app''"] by (auto simp: MIME_TYPES_def)
  ultimately show ?thesis by (simp add: mime_extensions_def mime_types_def)
qed

end
