(* ===== verification/Www.thy ===== *)
theory Www
  imports Url
begin

text \<open>
  The error pages of \<^verbatim>\<open>src/www/www.c\<close>: a page is a source text and a table of templates, and
  resolving replaces every \<^verbatim>\<open>{{key}}\<close> in the source by the value of the key, again and again from the
  place of the last replacement. The HTML resources and the version are generated when the program is
  built; they are an argument of the operations that use them.
\<close>

section \<open>Data\<close>

record page_t =
  page_source :: "string_t option"
  page_templates :: "string_t hash_table_t option"

record www_resources =
  WSIC_VERSION :: bytes
  RESOURCES_WWW_TEMPLATE_HTML :: bytes
  RESOURCES_WWW_TEMPLATE_HTML_LENGTH :: nat
  RESOURCES_WWW_400_HTML :: bytes
  RESOURCES_WWW_403_HTML :: bytes
  RESOURCES_WWW_404_HTML :: bytes
  RESOURCES_WWW_413_HTML :: bytes
  RESOURCES_WWW_417_HTML :: bytes
  RESOURCES_WWW_500_HTML :: bytes
  RESOURCES_WWW_501_HTML :: bytes

section \<open>Operations\<close>

definition page_setSource :: "page_t \<Rightarrow> string_t \<Rightarrow> page_t exec" where
  "page_setSource page source =
     bnd (if page_source page \<noteq> None then string_free (page_source page) else Inr ()) (\<lambda>_.
       Inr (page\<lparr>page_source := Some source\<rparr>))"

definition page_getSource :: "page_t \<Rightarrow> string_t option" where
  "page_getSource page = page_source page"

definition page_setTemplate :: "page_t \<Rightarrow> string_t \<Rightarrow> string_t \<Rightarrow> page_t exec" where
  "page_setTemplate page key value =
     bnd (deref (page_templates page)) (\<lambda>t.
     bnd (hash_table_setValue t key (Some value)) (\<lambda>(_, t').
       Inr (page\<lparr>page_templates := Some t'\<rparr>)))"

definition page_create :: "www_resources \<Rightarrow> page_t exec" where
  "page_create res =
     (let page = \<lparr>page_source = None, page_templates = Some hash_table_create\<rparr> in
      bnd (string_fromBuffer (lit ''version'')) (\<lambda>key.
      bnd (string_fromBuffer (WSIC_VERSION res)) (\<lambda>value.
        page_setTemplate page key value)))"

text \<open>
  The loop of \<^verbatim>\<open>page_resolveTemplate\<close> over the characters from the cursor on, with the key read so
  far, the start of the template (\<open>-1\<close> outside one) and the previous character. The result is the
  inclusive range of the first complete template and its key.
\<close>

function page_scan ::
  "string_cursor_t \<Rightarrow> string_t \<Rightarrow> int \<Rightarrow> char \<Rightarrow> (int \<times> int \<times> string_t) option exec" where
  "page_scan cu templateKey templateStart previous =
     (case string_getNextChar cu of
        Inl e \<Rightarrow> Inl e
      | Inr (current, cu') \<Rightarrow>
          (if current = NUL then Inr None
           else if previous = CHR ''{'' \<and> current = CHR ''{'' then
             page_scan cu' templateKey (int (string_getOffset cu') - 2) current
           else if templateStart \<ge> 0 then
             (if schar (CHR ''a'') \<le> schar current \<and> schar current \<le> schar (CHR ''z'') then
                bnd (string_appendChar templateKey current) (\<lambda>key'. page_scan cu' key' templateStart current)
              else if current \<noteq> CHR ''}'' then
                bnd (string_clear templateKey) (\<lambda>key'. page_scan cu' key' (-1) current)
              else if templateStart \<ge> 0 \<and> previous = CHR ''}'' \<and> current = CHR ''}'' then
                Inr (Some (templateStart, int (string_getOffset cu') - 1, templateKey))
              else page_scan cu' templateKey templateStart current)
           else page_scan cu' templateKey templateStart current))"
  by pat_completeness auto
termination
  by (relation "measure (\<lambda>(cu, _, _, _). str_size (cur_string cu) - cur_offset cu)")
    (auto simp: string_getNextChar_def exec_simps split: if_splits)

declare page_scan.simps [simp del]

text \<open>Replacing the range of a template by its value.\<close>

definition page_replace :: "page_t \<Rightarrow> string_t \<Rightarrow> int \<Rightarrow> int \<Rightarrow> string_t \<Rightarrow> page_t exec" where
  "page_replace page oldSource templateStart templateEnd templateKey =
     bnd (deref (page_templates page)) (\<lambda>t.
     bnd (hash_table_getValue t templateKey) (\<lambda>(templateValue, t').
       let templateValueLength = (case templateValue of None \<Rightarrow> 0 | Some v \<Rightarrow> string_getSize v) in
       bnd (string_setBufferSize string_create
              (string_getSize oldSource - nat (templateEnd - templateStart) - 1 + templateValueLength)) (\<lambda>s0.
       bnd (deref (string_getBuffer oldSource)) (\<lambda>old.
       bnd (string_appendBufferWithLength s0 old (nat templateStart)) (\<lambda>s1.
       bnd (case templateValue of
              None \<Rightarrow> Inr s1
            | Some v \<Rightarrow>
                if templateValueLength \<noteq> 0
                then bnd (deref (string_getBuffer v)) (\<lambda>b. string_appendBufferWithLength s1 b templateValueLength)
                else Inr s1) (\<lambda>s2.
       bnd (string_appendBufferWithLength s2 (drop (nat templateEnd + 1) old)
              (string_getSize oldSource - nat templateEnd - 1)) (\<lambda>s3.
         Inr (page\<lparr>page_source := Some s3, page_templates := Some t'\<rparr>))))))))"

definition page_resolveTemplate :: "page_t \<Rightarrow> nat \<Rightarrow> (int \<times> page_t) exec" where
  "page_resolveTemplate page offset =
     bnd (string_setBufferSize string_create 100) (\<lambda>templateKey.
     bnd (deref (page_source page)) (\<lambda>source.
     bnd (page_scan (string_setOffset (string_createCursor source) offset) templateKey (-1) NUL) (\<lambda>r.
       case r of
         None \<Rightarrow> Inr (-1, page)
       | Some (templateStart, templateEnd, key) \<Rightarrow>
           bnd (page_replace page source templateStart templateEnd key) (\<lambda>page'.
             Inr (templateStart, page')))))"

partial_function (option) page_resolve_loop :: "page_t \<Rightarrow> nat \<Rightarrow> page_t exec option" where
  "page_resolve_loop page offset =
     (case page_resolveTemplate page offset of
        Inl e \<Rightarrow> Some (Inl e)
      | Inr (offset', page') \<Rightarrow>
          (if offset' > -1 then page_resolve_loop page' (nat offset') else Some (Inr page')))"

fun page_clear_loop :: "nat \<Rightarrow> string_t hash_table_t \<Rightarrow> string_t hash_table_t exec" where
  "page_clear_loop 0 t = (if hash_table_getLength t > 0 then Inl Diverges else Inr t)"
| "page_clear_loop (Suc n) t =
     (if hash_table_getLength t > 0
      then bnd (hash_table_getKeyByIndex t 0) (\<lambda>(key, t1).
           bnd (deref key) (\<lambda>k.
           bnd (hash_table_removeValue t1 k) (\<lambda>(value, t2).
           bnd (string_free value) (\<lambda>_. page_clear_loop n t2))))
      else Inr t)"

definition page_clearTemplates :: "page_t \<Rightarrow> page_t exec" where
  "page_clearTemplates page =
     (case page_templates page of
        None \<Rightarrow> Inr page
      | Some t \<Rightarrow>
          bnd (page_clear_loop (hash_table_getLength t) t) (\<lambda>t'.
          bnd (hash_table_free t') (\<lambda>_.
            Inr (page\<lparr>page_templates := None\<rparr>))))"

text \<open>Running forever is the fault \<open>Diverges\<close>.\<close>

definition page_resolveTemplates :: "page_t \<Rightarrow> page_t exec" where
  "page_resolveTemplates page =
     (case page_resolve_loop page 0 of
        None \<Rightarrow> Inl Diverges
      | Some r \<Rightarrow> bnd r page_clearTemplates)"

definition page_free :: "page_t \<Rightarrow> unit exec" where
  "page_free page =
     bnd (if page_source page \<noteq> None then string_free (page_source page) else Inr ()) (\<lambda>_.
     bnd (page_clearTemplates page) (\<lambda>_. Inr ()))"

text \<open>The error pages.\<close>

definition page_create400 :: "www_resources \<Rightarrow> string_t \<Rightarrow> page_t exec" where
  "page_create400 res description =
     bnd (page_create res) (\<lambda>page.
     bnd (string_fromBufferWithLength (Some (RESOURCES_WWW_TEMPLATE_HTML res)) (RESOURCES_WWW_TEMPLATE_HTML_LENGTH res)) (\<lambda>source.
     bnd (page_setSource page source) (\<lambda>page.
     bnd (string_fromBuffer (lit ''content'')) (\<lambda>key.
     bnd (string_fromBuffer (RESOURCES_WWW_400_HTML res)) (\<lambda>value.
     bnd (page_setTemplate page key value) (\<lambda>page.
     bnd (string_fromBuffer (lit ''description'')) (\<lambda>key.
     bnd (page_setTemplate page key description) (\<lambda>page.
       page_resolveTemplates page))))))))"

definition page_create403 :: "www_resources \<Rightarrow> page_t exec" where
  "page_create403 res =
     bnd (page_create res) (\<lambda>page.
     bnd (string_fromBufferWithLength (Some (RESOURCES_WWW_TEMPLATE_HTML res)) (RESOURCES_WWW_TEMPLATE_HTML_LENGTH res)) (\<lambda>source.
     bnd (page_setSource page source) (\<lambda>page.
     bnd (string_fromBuffer (lit ''content'')) (\<lambda>key.
     bnd (string_fromBuffer (RESOURCES_WWW_403_HTML res)) (\<lambda>value.
     bnd (page_setTemplate page key value) (\<lambda>page.
       page_resolveTemplates page))))))"

definition page_create413 :: "www_resources \<Rightarrow> page_t exec" where
  "page_create413 res =
     bnd (page_create res) (\<lambda>page.
     bnd (string_fromBufferWithLength (Some (RESOURCES_WWW_TEMPLATE_HTML res)) (RESOURCES_WWW_TEMPLATE_HTML_LENGTH res)) (\<lambda>source.
     bnd (page_setSource page source) (\<lambda>page.
     bnd (string_fromBuffer (lit ''content'')) (\<lambda>key.
     bnd (string_fromBuffer (RESOURCES_WWW_413_HTML res)) (\<lambda>value.
     bnd (page_setTemplate page key value) (\<lambda>page.
       page_resolveTemplates page))))))"

definition page_create417 :: "www_resources \<Rightarrow> page_t exec" where
  "page_create417 res =
     bnd (page_create res) (\<lambda>page.
     bnd (string_fromBufferWithLength (Some (RESOURCES_WWW_TEMPLATE_HTML res)) (RESOURCES_WWW_TEMPLATE_HTML_LENGTH res)) (\<lambda>source.
     bnd (page_setSource page source) (\<lambda>page.
     bnd (string_fromBuffer (lit ''content'')) (\<lambda>key.
     bnd (string_fromBuffer (RESOURCES_WWW_417_HTML res)) (\<lambda>value.
     bnd (page_setTemplate page key value) (\<lambda>page.
       page_resolveTemplates page))))))"

definition page_create404 :: "www_resources \<Rightarrow> string_t \<Rightarrow> page_t exec" where
  "page_create404 res path =
     bnd (page_create res) (\<lambda>page.
     bnd (string_fromBufferWithLength (Some (RESOURCES_WWW_TEMPLATE_HTML res)) (RESOURCES_WWW_TEMPLATE_HTML_LENGTH res)) (\<lambda>source.
     bnd (page_setSource page source) (\<lambda>page.
     bnd (string_fromBuffer (lit ''content'')) (\<lambda>key.
     bnd (string_fromBuffer (RESOURCES_WWW_404_HTML res)) (\<lambda>value.
     bnd (page_setTemplate page key value) (\<lambda>page.
     bnd (string_fromBuffer (lit ''path'')) (\<lambda>key.
     bnd (page_setTemplate page key path) (\<lambda>page.
       page_resolveTemplates page))))))))"

definition page_create500 :: "www_resources \<Rightarrow> string_t \<Rightarrow> page_t exec" where
  "page_create500 res description =
     bnd (page_create res) (\<lambda>page.
     bnd (string_fromBufferWithLength (Some (RESOURCES_WWW_TEMPLATE_HTML res)) (RESOURCES_WWW_TEMPLATE_HTML_LENGTH res)) (\<lambda>source.
     bnd (page_setSource page source) (\<lambda>page.
     bnd (string_fromBuffer (lit ''content'')) (\<lambda>key.
     bnd (string_fromBuffer (RESOURCES_WWW_500_HTML res)) (\<lambda>value.
     bnd (page_setTemplate page key value) (\<lambda>page.
     bnd (string_fromBuffer (lit ''description'')) (\<lambda>key.
     bnd (page_setTemplate page key description) (\<lambda>page.
       page_resolveTemplates page))))))))"

definition page_create501 :: "www_resources \<Rightarrow> page_t exec" where
  "page_create501 res =
     bnd (page_create res) (\<lambda>page.
     bnd (string_fromBufferWithLength (Some (RESOURCES_WWW_TEMPLATE_HTML res)) (RESOURCES_WWW_TEMPLATE_HTML_LENGTH res)) (\<lambda>source.
     bnd (page_setSource page source) (\<lambda>page.
     bnd (string_fromBuffer (lit ''content'')) (\<lambda>key.
     bnd (string_fromBuffer (RESOURCES_WWW_501_HTML res)) (\<lambda>value.
     bnd (page_setTemplate page key value) (\<lambda>page.
       page_resolveTemplates page))))))"

section \<open>Scanning\<close>

text \<open>Plain text contains no \<^verbatim>\<open>{{\<close> and does not end in \<^verbatim>\<open>{\<close>; a template key consists of lower-case
  letters.\<close>

fun no_braces :: "char \<Rightarrow> string \<Rightarrow> bool" where
  "no_braces prev [] \<longleftrightarrow> prev \<noteq> CHR ''{''"
| "no_braces prev (c # cs) \<longleftrightarrow> \<not> (prev = CHR ''{'' \<and> c = CHR ''{'') \<and> no_braces c cs"

definition plain :: "string \<Rightarrow> bool" where
  "plain s \<longleftrightarrow> NUL \<notin> set s \<and> no_braces NUL s"

definition lower :: "char \<Rightarrow> bool" where
  "lower c \<longleftrightarrow> schar (CHR ''a'') \<le> schar c \<and> schar c \<le> schar (CHR ''z'')"

definition tpl :: "string \<Rightarrow> string" where
  "tpl k = ''{{'' @ k @ ''}}''"

lemma lower_facts: "lower c \<Longrightarrow> c \<noteq> NUL \<and> c \<noteq> CHR ''{'' \<and> c \<noteq> CHR ''}''"
  by (auto simp: lower_def schar_def Let_def)

lemma scan_end: "page_scan (at (pad xs k) (length xs)) key st p = Inr None"
  by (subst page_scan.simps) (simp add: getNextChar_at)

lemma no_braces_last: "no_braces p s \<Longrightarrow> last (p # s) \<noteq> CHR ''{''"
  by (induction s arbitrary: p) auto

lemma scan_text:
  assumes "NUL \<notin> set s" and "no_braces p s" and "xs = pre @ s @ rest" and "i = length pre"
  shows "page_scan (at (pad xs k) i) key (-1) p
       = page_scan (at (pad xs k) (i + length s)) key (-1) (last (p # s))"
  using assms
proof (induction s arbitrary: pre i p)
  case (Cons c s)
  have "page_scan (at (pad xs k) i) key (-1) p = page_scan (at (pad xs k) (Suc i)) key (-1) c"
    using Cons.prems by (subst page_scan.simps) (auto simp: getNextChar_at nth_append)
  also have "\<dots> = page_scan (at (pad xs k) (Suc i + length s)) key (-1) (last (c # s))"
    using Cons.prems by (intro Cons.IH [of c "pre @ [c]"]) simp_all
  finally show ?case by simp
qed simp

lemma scan_key:
  assumes "list_all lower s" and "xs = pre @ s @ rest" and "i = length pre" and "0 \<le> st" and "0 < m"
  shows "page_scan (at (pad xs k) i) (pad ys m) st p
       = page_scan (at (pad xs k) (i + length s)) (pad (ys @ s) (cap_after m (length s))) st (last (p # s))"
  using assms
proof (induction s arbitrary: pre i p ys m)
  case Nil
  then show ?case by (simp add: cap_after_def)
next
  case (Cons c s)
  have "lower c" using Cons.prems by simp
  then have "page_scan (at (pad xs k) i) (pad ys m) st p
      = page_scan (at (pad xs k) (Suc i)) (pad (ys @ [c]) (cap_after m 1)) st c"
    using Cons.prems lower_facts [of c]
    by (subst page_scan.simps) (simp add: getNextChar_at nth_append lower_def [symmetric] appendChar_pad)
  also have "\<dots> = page_scan (at (pad xs k) (Suc i + length s)) (pad ((ys @ [c]) @ s) (cap_after (cap_after m 1) (length s))) st (last (c # s))"
    using Cons.prems lower_facts [OF \<open>lower c\<close>] by (intro Cons.IH [of "pre @ [c]"]) simp_all
  finally show ?case by simp
qed

lemma scan_template:
  assumes "list_all lower key" and "xs = pre @ tpl key @ rest" and "i = length pre" and "p \<noteq> CHR ''{''" and "0 < m"
  shows "page_scan (at (pad xs k) i) (pad [] m) (-1) p
       = Inr (Some (int i, int (i + length key + 3), pad key (cap_after m (length key))))"
proof -
  let ?q = "last (CHR ''{'' # key)" and ?key = "pad key (cap_after m (length key))"
  have q: "?q \<noteq> CHR ''}''"
    using assms(1) lower_facts by (auto simp: list_all_iff)
  have l: "\<not> lower (CHR ''}'')" using lower_facts by blast
  have "page_scan (at (pad xs k) i) (pad [] m) (-1) p = page_scan (at (pad xs k) (Suc i)) (pad [] m) (-1) (CHR ''{'')"
    using assms by (subst page_scan.simps) (simp add: getNextChar_at nth_append tpl_def)
  also have "\<dots> = page_scan (at (pad xs k) (i + 2)) (pad [] m) (int i) (CHR ''{'')"
    using assms by (subst page_scan.simps) (simp add: getNextChar_at nth_append tpl_def string_getOffset_def)
  also have "\<dots> = page_scan (at (pad xs k) (i + 2 + length key)) ?key (int i) ?q"
    using scan_key [of key xs "pre @ ''{{''" "''}}'' @ rest" "i + 2" "int i" m k "[]" "CHR ''{''"] assms
    by (simp add: tpl_def)
  also have "\<dots> = page_scan (at (pad xs k) (Suc (i + 2 + length key))) ?key (int i) (CHR ''}'')"
    using assms q l by (subst page_scan.simps) (simp add: getNextChar_at nth_append tpl_def lower_def [symmetric])
  also have "\<dots> = Inr (Some (int i, int (i + length key + 3), ?key))"
    using assms l
    by (subst page_scan.simps) (simp add: getNextChar_at nth_append tpl_def lower_def [symmetric] string_getOffset_def)
  finally show ?thesis .
qed

section \<open>Replacing one template\<close>

definition values_ok :: "string_t hash_table_entry_t list \<Rightarrow> bool" where
  "values_ok es \<longleftrightarrow> (\<forall>e \<in> set es. \<exists>v. ent_value e = Some v \<and> is_text v)"

definition tvalue :: "string_t hash_table_entry_t list \<Rightarrow> string \<Rightarrow> string" where
  "tvalue es k = (case entries_map es (crc32 k) of Some (Some v) \<Rightarrow> content v | _ \<Rightarrow> [])"

definition page_ok :: "page_t \<Rightarrow> string \<Rightarrow> string_t hash_table_entry_t list \<Rightarrow> bool" where
  "page_ok page xs es \<longleftrightarrow> NUL \<notin> set xs \<and> values_ok es \<and> page_source page = Some (str xs)
     \<and> (\<exists>t. page_templates page = Some t \<and> ht_rep t es)"

lemma entries_value:
  "values_ok es \<Longrightarrow> entries_map es h = None \<or> (\<exists>v. entries_map es h = Some (Some v) \<and> is_text v)"
proof (cases "entries_map es h")
  case (Some a)
  assume "values_ok es"
  moreover from Some obtain e where "e \<in> set es" "ent_value e = a"
    by (auto simp: entries_map_def dest!: map_of_SomeD)
  ultimately show ?thesis using Some by (auto simp: values_ok_def)
qed simp

lemma tvalue_text: "values_ok es \<Longrightarrow> NUL \<notin> set (tvalue es k)"
  using entries_value [of es "crc32 k"] by (auto simp: tvalue_def elim!: is_textE)

text \<open>Building a text of known length in a preallocated buffer.\<close>

lemma append_part:
  assumes "NUL \<notin> set ys" and "length ys + length xs \<le> n" and "take (length ys) b = ys" and "length ys \<le> length b"
  shows "string_appendBufferWithLength (pad xs (Suc n - length xs)) b (length ys)
       = Inr (pad (xs @ ys) (Suc n - length (xs @ ys)))"
proof -
  have "length ys = 0 \<or> b ! (length ys - 1) \<noteq> NUL"
    using assms(1,3) by (metis One_nat_def Suc_pred diff_less length_greater_0_conv lessI less_imp_diff_less neq0_conv nth_mem nth_take zero_less_Suc)
  with assms show ?thesis by (auto simp: appendBufferWithLength_pad cap_after_def)
qed

lemma append_parts:
  assumes n: "n = length a + length b + length c" and t: "NUL \<notin> set (a @ b @ c)"
    and a: "take (length a) ba = a" "length a \<le> length ba" and c: "take (length c) bc = c" "length c \<le> length bc"
    and f: "\<And>s. b \<noteq> [] \<Longrightarrow> f s = string_appendBufferWithLength s bb (length b)" "\<And>s. b = [] \<Longrightarrow> f s = Inr s"
    and b: "take (length b) bb = b" "length b \<le> length bb"
  shows "bnd (string_setBufferSize string_create n) (\<lambda>s0.
     bnd (string_appendBufferWithLength s0 ba (length a)) (\<lambda>s1. bnd (f s1) (\<lambda>s2.
     bnd (string_appendBufferWithLength s2 bc (length c)) g))) = g (str (a @ b @ c))"
proof (cases "n = 0")
  case True
  then have z: "a = []" "b = []" "c = []" using n by auto
  have "string_setBufferSize string_create 0 = Inr string_create"
    by (simp add: string_setBufferSize_def string_create_def)
  then show ?thesis using True z f(2)
      appendBufferWithLength_create [of 0 ba] appendBufferWithLength_pad [of 1 0 bc "[]"]
    by (simp add: cap_after_def)
next
  case False
  have "string_appendBufferWithLength (pad [] (Suc n)) ba (length a) = Inr (pad a (Suc n - length a))"
    using append_part [of a "[]" n ba] a t n by simp
  moreover have "f (pad a (Suc n - length a)) = Inr (pad (a @ b) (Suc n - length (a @ b)))"
    using append_part [of b a n bb] b t n f by (cases "b = []") simp_all
  moreover have "string_appendBufferWithLength (pad (a @ b) (Suc n - length (a @ b))) bc (length c) = Inr (str (a @ b @ c))"
    using append_part [of c "a @ b" n bc] c t n by simp
  ultimately show ?thesis using False by (simp add: setBufferSize_create)
qed

lemma replace_ok:
  assumes ok: "page_ok page xs es" and xs: "xs = pre @ tpl k @ rest" and k: "NUL \<notin> set k" and m: "0 < m"
  shows "\<exists>page'. page_replace page (str xs) (int (length pre)) (int (length pre + length k + 3)) (pad k m) = Inr page'
     \<and> page_ok page' (pre @ tvalue es k @ rest) es"
proof -
  obtain t where t: "page_templates page = Some t" "ht_rep t es" and v: "values_ok es" and n: "NUL \<notin> set xs"
    using ok by (auto simp: page_ok_def)
  obtain t' where t': "hash_table_getValue t (pad k m) = Inr (Option.bind (entries_map es (crc32 k)) id, t')" "ht_rep t' es"
    using ht_rep_get [OF t(2), of "pad k m"] k m by (auto simp: key_hash_def)
  let ?val = "Option.bind (entries_map es (crc32 k)) id"
  let ?f = "\<lambda>s. case ?val of None \<Rightarrow> Inr s
     | Some v \<Rightarrow> if length (tvalue es k) \<noteq> 0
        then bnd (deref (string_getBuffer v)) (\<lambda>b. string_appendBufferWithLength s b (length (tvalue es k)))
        else Inr s"
  obtain bb where bb: "\<And>s. tvalue es k \<noteq> [] \<Longrightarrow> ?f s = string_appendBufferWithLength s bb (length (tvalue es k))"
    "take (length (tvalue es k)) bb = tvalue es k" "length (tvalue es k) \<le> length bb"
    "\<And>s. tvalue es k = [] \<Longrightarrow> ?f s = Inr s" "(case ?val of None \<Rightarrow> 0 | Some v \<Rightarrow> string_getSize v) = length (tvalue es k)"
    using entries_value [OF v, of "crc32 k"]
    by (auto elim!: is_textE simp: tvalue_def string_getSize_def string_getBuffer_def)
  define e where "e = length pre + length k + 3"
  have "page_replace page (str xs) (int (length pre)) (int e) (pad k m)
     = Inr (page\<lparr>page_source := Some (str (pre @ tvalue es k @ rest)), page_templates := Some t'\<rparr>)"
  proof -
    have e: "length xs - nat (int e - int (length pre)) - 1 + length (tvalue es k)
          = length pre + length (tvalue es k) + length rest"
      "length xs - e - 1 = length rest" "drop (e + 1) (xs @ [NUL]) = rest @ [NUL]"
      using xs by (simp_all add: tpl_def e_def eval_nat_numeral)
    have "take (length pre) (xs @ [NUL]) = pre" "length pre \<le> length (xs @ [NUL])"
      "take (length rest) (rest @ [NUL]) = rest" "length rest \<le> length (rest @ [NUL])"
      using xs by simp_all
    moreover have "NUL \<notin> set (pre @ tvalue es k @ rest)" using n xs tvalue_text [OF v, of k] by simp
    ultimately have parts: "bnd (string_setBufferSize string_create (length pre + length (tvalue es k) + length rest)) (\<lambda>s0.
       bnd (string_appendBufferWithLength s0 (xs @ [NUL]) (length pre)) (\<lambda>s1. bnd (?f s1) (\<lambda>s2.
       bnd (string_appendBufferWithLength s2 (rest @ [NUL]) (length rest)) g))) = g (str (pre @ tvalue es k @ rest))" for g
      using append_parts [OF refl _ _ _ _ _ bb(1,4) bb(2,3)] by blast
    show ?thesis
      unfolding page_replace_def t t' bnd_Inr deref_Some prod.case Let_def bb(5) nat_int string_getSize_def
        string_getBuffer_def pad_fields e replicate_Suc replicate_0
      by (rule parts [unfolded string_getBuffer_def])
  qed
  then show ?thesis using t' v n xs tvalue_text [OF v, of k] by (simp add: page_ok_def e_def)
qed

lemma resolveTemplate_hit:
  assumes "page_ok page xs es" and "xs = pre @ s @ tpl k @ rest" and "plain s" and "list_all lower k"
  shows "\<exists>page'. page_resolveTemplate page (length pre) = Inr (int (length pre + length s), page')
     \<and> page_ok page' (pre @ s @ tvalue es k @ rest) es"
proof -
  have k: "NUL \<notin> set k" using assms(4) lower_facts by (auto simp: list_all_iff)
  have src: "page_source page = Some (str xs)" using assms(1) by (simp add: page_ok_def)
  have s: "NUL \<notin> set s" "no_braces NUL s" using assms(3) by (simp_all add: plain_def)
  have "page_scan (at (str xs) (length pre)) (pad [] 101) (-1) NUL
      = page_scan (at (str xs) (length pre + length s)) (pad [] 101) (-1) (last (NUL # s))"
    using assms(2) by (intro scan_text [OF s]) simp_all
  also have "\<dots> = Inr (Some (int (length (pre @ s)), int (length (pre @ s) + length k + 3), pad k (cap_after 101 (length k))))"
    using assms(2,4) no_braces_last [OF s(2)] scan_template [of k xs "pre @ s" rest "length pre + length s" "last (NUL # s)" 101 1]
    by simp
  finally show ?thesis
    using replace_ok [OF assms(1), of "pre @ s" k rest "cap_after 101 (length k)"] assms(2) k src
    by (auto simp: page_resolveTemplate_def setBufferSize_create string_setOffset_def)
qed

lemma resolveTemplate_end:
  assumes "page_ok page (pre @ s) es" and "plain s"
  shows "page_resolveTemplate page (length pre) = Inr (-1, page)"
  using assms scan_text [of s NUL "pre @ s" pre "[]" "length pre" 1 "pad [] 101"] scan_end [of "pre @ s" 1]
  by (simp add: page_resolveTemplate_def setBufferSize_create string_setOffset_def page_ok_def plain_def)

section \<open>Resolving all templates\<close>

text \<open>
  The specification of resolving: a source is a sequence of plain texts and templates, and so is each
  value; replacing templates by their values one after the other, from left to right, ends in a text.
\<close>

datatype piece = Txt string | Tpl string

fun print_piece :: "piece \<Rightarrow> string" where
  "print_piece (Txt s) = s"
| "print_piece (Tpl k) = tpl k"

definition print_pieces :: "piece list \<Rightarrow> string" where
  "print_pieces ps = concat (map print_piece ps)"

inductive expands :: "(string \<Rightarrow> piece list) \<Rightarrow> piece list \<Rightarrow> string \<Rightarrow> bool" for vals where
  expands_Nil: "expands vals [] []"
| expands_Txt: "plain s \<Longrightarrow> expands vals ps out \<Longrightarrow> expands vals (Txt s # ps) (s @ out)"
| expands_Tpl: "list_all lower k \<Longrightarrow> expands vals (vals k @ ps) out \<Longrightarrow> expands vals (Tpl k # ps) out"

lemma resolve_loop_step:
  "page_resolveTemplate page offset = Inr (int n, page') \<Longrightarrow> page_resolve_loop page offset = page_resolve_loop page' n"
  "page_resolveTemplate page offset = Inr (-1, page') \<Longrightarrow> page_resolve_loop page offset = Some (Inr page')"
  by (simp_all add: page_resolve_loop.simps [of page offset])

lemma no_braces_append: "no_braces p s \<Longrightarrow> no_braces NUL s' \<Longrightarrow> no_braces p (s @ s')"
proof (induction s arbitrary: p)
  case Nil
  then show ?case by (cases s') auto
qed auto

lemma plain_append: "plain s \<Longrightarrow> plain s' \<Longrightarrow> plain (s @ s')"
  by (simp add: plain_def no_braces_append)

lemma resolve_loop_expands:
  assumes "expands vals ps out" and "\<And>k. tvalue es k = print_pieces (vals k)"
    and "page_ok page (pre @ s @ print_pieces ps) es" and "plain s"
  shows "\<exists>page'. page_resolve_loop page (length pre) = Some (Inr page') \<and> page_ok page' (pre @ s @ out) es"
  using assms(1,3,4)
proof (induction arbitrary: page pre s rule: expands.induct)
  case expands_Nil
  then have "page_resolveTemplate page (length pre) = Inr (-1, page)"
    using resolveTemplate_end [of page pre s es] by (simp add: print_pieces_def)
  with expands_Nil show ?case using resolve_loop_step(2) by (auto simp: print_pieces_def)
next
  case (expands_Txt s' ps out)
  then show ?case using expands_Txt.IH [of page pre "s @ s'"] plain_append by (simp add: print_pieces_def)
next
  case (expands_Tpl k ps out)
  then obtain page' where p: "page_resolveTemplate page (length pre) = Inr (int (length pre + length s), page')"
    "page_ok page' (pre @ s @ tvalue es k @ print_pieces ps) es"
    using resolveTemplate_hit [of page _ es pre s k "print_pieces ps"] by (auto simp: print_pieces_def)
  have "page_ok page' ((pre @ s) @ [] @ print_pieces (vals k @ ps)) es" "plain []"
    using p(2) assms(2) by (simp_all add: print_pieces_def plain_def)
  from expands_Tpl.IH [OF this] resolve_loop_step(1) [OF p(1)] show ?case by simp
qed

section \<open>Releasing the templates\<close>

lemma clear_loop_ok:
  "ht_rep t es \<Longrightarrow> values_ok es \<Longrightarrow> \<exists>t'. page_clear_loop (length es) t = Inr t' \<and> ht_rep t' []"
proof (induction es arbitrary: t)
  case Nil
  then show ?case using ht_rep_length [OF Nil.prems(1)] by auto
next
  case (Cons e es)
  note rep = Cons.prems(1)
  obtain t1 where t1: "hash_table_getEntryByIndex t 0 = Inr (Some e, t1)" "ht_rep t1 (e # es)"
    using entry_at [OF rep, of 0] by auto
  have e: "key_ok (ent_key e)" "ent_keyHash e = key_hash (ent_key e)"
    and d: "ent_keyHash e \<notin> ent_keyHash ` set es" using rep by (auto simp: ht_rep_def ent_ok_def)
  obtain t2 where t2: "hash_table_removeValue t1 (ent_key e) = Inr (ent_value e, t2)"
    "ht_rep t2 (filter (\<lambda>e'. ent_keyHash e' \<noteq> key_hash (ent_key e)) (e # es))"
    using ht_rep_remove [OF t1(2) e(1)] e(2) by (auto simp: entries_map_def)
  have "filter (\<lambda>e'. ent_keyHash e' \<noteq> key_hash (ent_key e)) (e # es) = es"
    using d e(2) by (auto simp: filter_id_conv image_iff)
  then obtain t' where "page_clear_loop (length es) t2 = Inr t'" "ht_rep t' []"
    using Cons.IH [of t2] t2(2) Cons.prems(2) by (auto simp: values_ok_def)
  moreover obtain v where "ent_value e = Some v" using Cons.prems(2) by (auto simp: values_ok_def)
  ultimately show ?case using t1 t2(1) ht_rep_length [OF rep]
    by (simp add: hash_table_getKeyByIndex_def)
qed

lemma clearTemplates_ok:
  "page_ok page xs es \<Longrightarrow> page_clearTemplates page = Inr \<lparr>page_source = Some (str xs), page_templates = None\<rparr>"
proof -
  assume ok: "page_ok page xs es"
  then obtain t where t: "page_templates page = Some t" "ht_rep t es" "values_ok es" by (auto simp: page_ok_def)
  then obtain t' where t': "page_clear_loop (length es) t = Inr t'" "ht_rep t' []" using clear_loop_ok by blast
  with t ok show ?thesis
    using ht_rep_length [OF t(2)] ht_rep_free [OF t'(2)]
    by (cases page) (simp add: page_clearTemplates_def page_ok_def)
qed

section \<open>Building a page\<close>

lemma tvalue_set:
  "tvalue (entries_set es (str k) (Some v)) k' = (if crc32 k' = crc32 k then content v else tvalue es k')"
  if "NUL \<notin> set k"
  using that by (simp add: tvalue_def entries_map_set key_hash_def)

lemma values_ok_set: "values_ok es \<Longrightarrow> is_text v \<Longrightarrow> values_ok (entries_set es key (Some v))"
  by (auto simp: values_ok_def entries_set_def)

lemma setTemplate_ok:
  assumes "page_templates page = Some t" and "ht_rep t es" and "NUL \<notin> set k"
  shows "\<exists>t'. page_setTemplate page (str k) v = Inr (page\<lparr>page_templates := Some t'\<rparr>) \<and> ht_rep t' (entries_set es (str k) (Some v))"
  using ht_rep_set [OF assms(2), of "str k" "Some v"] assms by (auto simp: page_setTemplate_def)

text \<open>The keys the pages use have different hashes.\<close>

lemma template_hashes:
  "crc32 ''version'' = 0xBF1CD3C3" "crc32 ''content'' = 0xFEC530A9" "crc32 ''path'' = 0x0B548B0F"
  "crc32 ''description'' = 0x6DE44026"
  by (simp_all add: crc32_def crc_byte_unfold crc_bit_alt)

text \<open>The shape of the generated resources: the page template names the content and then the version.\<close>

definition template_ok :: "www_resources \<Rightarrow> string \<Rightarrow> string \<Rightarrow> string \<Rightarrow> string \<Rightarrow> bool" where
  "template_ok res t0 t1 t2 ver \<longleftrightarrow>
     RESOURCES_WWW_TEMPLATE_HTML res = lit (t0 @ tpl ''content'' @ t1 @ tpl ''version'' @ t2)
   \<and> RESOURCES_WWW_TEMPLATE_HTML_LENGTH res = length (t0 @ tpl ''content'' @ t1 @ tpl ''version'' @ t2)
   \<and> WSIC_VERSION res = lit ver \<and> plain t0 \<and> plain t1 \<and> plain t2 \<and> plain ver"

definition page_text :: "string \<Rightarrow> string \<Rightarrow> string \<Rightarrow> piece list" where
  "page_text t0 t1 t2 = [Txt t0, Tpl ''content'', Txt t1, Tpl ''version'', Txt t2]"

definition base_entries :: "string \<Rightarrow> string \<Rightarrow> string_t hash_table_entry_t list" where
  "base_entries ver c = entries_set (entries_set [] (str ''version'') (Some (str ver))) (str ''content'') (Some (str c))"

text \<open>The part all error pages share, and the part of those that show a value.\<close>

definition error_page :: "www_resources \<Rightarrow> bytes \<Rightarrow> (page_t \<Rightarrow> page_t exec) \<Rightarrow> page_t exec" where
  "error_page res html f =
     bnd (page_create res) (\<lambda>page.
     bnd (string_fromBufferWithLength (Some (RESOURCES_WWW_TEMPLATE_HTML res)) (RESOURCES_WWW_TEMPLATE_HTML_LENGTH res)) (\<lambda>source.
     bnd (page_setSource page source) (\<lambda>page.
     bnd (string_fromBuffer (lit ''content'')) (\<lambda>key.
     bnd (string_fromBuffer html) (\<lambda>value.
     bnd (page_setTemplate page key value) f)))))"

definition show_value :: "string \<Rightarrow> string_t \<Rightarrow> page_t \<Rightarrow> page_t exec" where
  "show_value k v page =
     bnd (string_fromBuffer (lit k)) (\<lambda>key. bnd (page_setTemplate page key v) (\<lambda>page. page_resolveTemplates page))"

lemma page_create_forms:
  "page_create403 res = error_page res (RESOURCES_WWW_403_HTML res) page_resolveTemplates"
  "page_create413 res = error_page res (RESOURCES_WWW_413_HTML res) page_resolveTemplates"
  "page_create417 res = error_page res (RESOURCES_WWW_417_HTML res) page_resolveTemplates"
  "page_create501 res = error_page res (RESOURCES_WWW_501_HTML res) page_resolveTemplates"
  "page_create400 res v = error_page res (RESOURCES_WWW_400_HTML res) (show_value ''description'' v)"
  "page_create500 res v = error_page res (RESOURCES_WWW_500_HTML res) (show_value ''description'' v)"
  "page_create404 res v = error_page res (RESOURCES_WWW_404_HTML res) (show_value ''path'' v)"
  unfolding page_create403_def page_create413_def page_create417_def page_create501_def page_create400_def
    page_create500_def page_create404_def error_page_def show_value_def by (rule refl)+

lemma plain_NUL: "plain s \<Longrightarrow> NUL \<notin> set s"
  by (simp add: plain_def)

lemma NUL_tpl [simp]: "NUL \<in> set (tpl k) \<longleftrightarrow> NUL \<in> set k"
  by (simp add: tpl_def)

lemma base_page:
  assumes "template_ok res t0 t1 t2 ver" and "NUL \<notin> set c"
  shows "\<exists>page. page_ok page (print_pieces (page_text t0 t1 t2)) (base_entries ver c)
    \<and> (\<forall>f. error_page res (lit c) f = f page)"
proof -
  let ?T = "print_pieces (page_text t0 t1 t2)"
  have T: "RESOURCES_WWW_TEMPLATE_HTML res = lit ?T" "RESOURCES_WWW_TEMPLATE_HTML_LENGTH res = length ?T" "NUL \<notin> set ?T"
    using assms plain_NUL by (simp_all add: template_ok_def print_pieces_def page_text_def)
  have ver: "NUL \<notin> set ver" "WSIC_VERSION res = lit ver" using assms plain_NUL by (auto simp: template_ok_def)
  obtain t1 where t1: "page_create res = Inr \<lparr>page_source = None, page_templates = Some t1\<rparr>"
    "ht_rep t1 (entries_set [] (str ''version'') (Some (str ver)))"
    using setTemplate_ok [OF _ ht_rep_create, of "\<lparr>page_source = None, page_templates = Some hash_table_create\<rparr>" "''version''" "str ver"] ver
    by (auto simp: page_create_def fromBuffer_lit)
  obtain t2 where t2: "page_setTemplate \<lparr>page_source = Some (str ?T), page_templates = Some t1\<rparr> (str ''content'') (str c)
      = Inr \<lparr>page_source = Some (str ?T), page_templates = Some t2\<rparr>" "ht_rep t2 (base_entries ver c)"
    using setTemplate_ok [OF _ t1(2), of "\<lparr>page_source = Some (str ?T), page_templates = Some t1\<rparr>" "''content''" "str c"]
    by (auto simp: base_entries_def)
  have "values_ok (base_entries ver c)"
    unfolding base_entries_def using ver assms(2) by (intro values_ok_set) (simp_all add: values_ok_def)
  with t1 t2 T assms(2) show ?thesis
    by (intro exI [of _ "\<lparr>page_source = Some (str ?T), page_templates = Some t2\<rparr>"])
      (simp add: page_ok_def error_page_def fromBufferWithLength_eq page_setSource_def fromBuffer_lit)
qed

lemma resolveTemplates_expands:
  assumes "expands vals ps out" and "\<And>k. tvalue es k = print_pieces (vals k)" and "page_ok page (print_pieces ps) es"
  shows "page_resolveTemplates page = Inr \<lparr>page_source = Some (str out), page_templates = None\<rparr>"
proof -
  have "page_ok page ([] @ [] @ print_pieces ps) es" "plain []" using assms(3) by (simp_all add: plain_def)
  from resolve_loop_expands [OF assms(1,2) this] obtain page' where
    "page_resolve_loop page 0 = Some (Inr page')" "page_ok page' out es" by auto
  then show ?thesis by (simp add: page_resolveTemplates_def clearTemplates_ok)
qed

lemma tvalue_base:
  "tvalue (base_entries ver c) k' = (if crc32 k' = crc32 ''content'' then c else if crc32 k' = crc32 ''version'' then ver else [])"
  by (simp add: base_entries_def tvalue_set tvalue_def [of "[]"] entries_map_def)

lemma lower_keys:
  "list_all lower ''version''" "list_all lower ''content''" "list_all lower ''path''" "list_all lower ''description''"
  by code_simp+

lemma page_text_expands:
  assumes "plain t0" and "plain t1" and "plain t2" and "plain ver"
    and "vals ''content'' = cs" and "vals ''version'' = [Txt ver]"
    and "\<And>ps out. expands vals ps out \<Longrightarrow> expands vals (cs @ ps) (c @ out)"
  shows "expands vals (page_text t0 t1 t2) (t0 @ c @ t1 @ ver @ t2)"
proof -
  have "expands vals [Txt t2] (t2 @ [])" using assms(3) by (intro expands.intros)
  then have "expands vals (vals ''version'' @ [Txt t2]) (ver @ t2)" using assms(4,6) expands_Txt by fastforce
  then have "expands vals [Txt t1, Tpl ''version'', Txt t2] (t1 @ ver @ t2)"
    using assms(2) lower_keys(1) by (intro expands.intros)
  from assms(7) [OF this] have "expands vals [Tpl ''content'', Txt t1, Tpl ''version'', Txt t2] (c @ t1 @ ver @ t2)"
    using assms(5) lower_keys(2) by (intro expands_Tpl) simp_all
  with assms(1) show ?thesis unfolding page_text_def by (intro expands_Txt)
qed

lemma simple_page:
  assumes "template_ok res t0 t1 t2 ver" and "plain c" and "page_ok page (print_pieces (page_text t0 t1 t2)) (base_entries ver c)"
  shows "page_resolveTemplates page = Inr \<lparr>page_source = Some (str (t0 @ c @ t1 @ ver @ t2)), page_templates = None\<rparr>"
proof (rule resolveTemplates_expands [OF _ _ assms(3)])
  let ?vals = "\<lambda>k. if crc32 k = crc32 ''content'' then [Txt c] else if crc32 k = crc32 ''version'' then [Txt ver] else []"
  show "tvalue (base_entries ver c) k = print_pieces (?vals k)" for k
    by (simp add: tvalue_base print_pieces_def)
  show "expands ?vals (page_text t0 t1 t2) (t0 @ c @ t1 @ ver @ t2)"
    by (rule page_text_expands [where cs = "[Txt c]"])
      (use assms(1,2) in \<open>auto simp: template_ok_def template_hashes intro: expands_Txt\<close>)
qed

definition value_entries :: "string \<Rightarrow> string \<Rightarrow> string \<Rightarrow> string_t \<Rightarrow> string_t hash_table_entry_t list" where
  "value_entries ver c k v = entries_set (base_entries ver c) (str k) (Some v)"

lemma value_page:
  assumes "template_ok res t0 t1 t2 ver" and "plain c0" and "plain c1" and "plain (content v)"
    and "k = ''path'' \<or> k = ''description''"
    and "page_ok page (print_pieces (page_text t0 t1 t2)) (value_entries ver (c0 @ tpl k @ c1) k v)"
  shows "page_resolveTemplates page
    = Inr \<lparr>page_source = Some (str (t0 @ c0 @ content v @ c1 @ t1 @ ver @ t2)), page_templates = None\<rparr>"
proof (rule resolveTemplates_expands [OF _ _ assms(6)])
  let ?vals = "\<lambda>k'. if crc32 k' = crc32 k then [Txt (content v)]
     else if crc32 k' = crc32 ''content'' then [Txt c0, Tpl k, Txt c1]
     else if crc32 k' = crc32 ''version'' then [Txt ver] else []"
  have k: "list_all lower k" "NUL \<notin> set k" "crc32 ''content'' \<noteq> crc32 k" "crc32 ''version'' \<noteq> crc32 k"
    using assms(5) lower_keys(3,4) by (auto simp: template_hashes)
  show "tvalue (value_entries ver (c0 @ tpl k @ c1) k v) k' = print_pieces (?vals k')" for k'
    using k(2) by (simp add: value_entries_def tvalue_set tvalue_base print_pieces_def)
  have "expands ?vals ([Txt c0, Tpl k, Txt c1] @ ps) (c0 @ content v @ c1 @ out)" if "expands ?vals ps out" for ps out
  proof -
    have "expands ?vals (Txt c1 # ps) (c1 @ out)" using assms(3) that by (rule expands_Txt)
    then have "expands ?vals (?vals k @ Txt c1 # ps) (content v @ c1 @ out)" using assms(4) by (simp add: expands_Txt)
    then show ?thesis using k(1) assms(2) by (simp add: expands_Txt expands_Tpl)
  qed
  then show "expands ?vals (page_text t0 t1 t2) (t0 @ c0 @ content v @ c1 @ t1 @ ver @ t2)"
    using page_text_expands [of t0 t1 t2 ver ?vals "[Txt c0, Tpl k, Txt c1]" "c0 @ content v @ c1"] assms(1) k
    by (simp add: template_ok_def template_hashes)
qed

lemma value_entries_page:
  assumes "page_ok page xs (base_entries ver c)" and "is_text v" and "NUL \<notin> set k"
  shows "\<exists>page'. page_ok page' xs (value_entries ver c k v) \<and> page_setTemplate page (str k) v = Inr page'"
proof -
  obtain t where t: "page_templates page = Some t" "ht_rep t (base_entries ver c)" using assms(1) by (auto simp: page_ok_def)
  from setTemplate_ok [OF t assms(3), of v] assms values_ok_set [of "base_entries ver c" v "str k"] show ?thesis
    by (auto simp: page_ok_def value_entries_def)
qed

lemma value_page_prepared:
  assumes "template_ok res t0 t1 t2 ver" and "NUL \<notin> set c" and "NUL \<notin> set k" and "is_text v"
  shows "\<exists>page. page_ok page (print_pieces (page_text t0 t1 t2)) (value_entries ver c k v)
    \<and> error_page res (lit c) (show_value k v) = page_resolveTemplates page"
proof -
  obtain page where p: "page_ok page (print_pieces (page_text t0 t1 t2)) (base_entries ver c)"
    "\<And>f. error_page res (lit c) f = f page"
    using base_page [OF assms(1,2)] by blast
  from value_entries_page [OF p(1) assms(4,3)] obtain page' where
    "page_ok page' (print_pieces (page_text t0 t1 t2)) (value_entries ver c k v)" "page_setTemplate page (str k) v = Inr page'"
    by blast
  with p(2) assms(3) show ?thesis by (auto simp: fromBuffer_lit show_value_def)
qed

lemma value_page_built:
  assumes "template_ok res t0 t1 t2 ver" and "plain c0" and "plain c1" and "plain (content v)"
    and "k = ''path'' \<or> k = ''description''" and "is_text v"
  shows "error_page res (lit (c0 @ tpl k @ c1)) (show_value k v)
     = Inr \<lparr>page_source = Some (str (t0 @ c0 @ content v @ c1 @ t1 @ ver @ t2)), page_templates = None\<rparr>"
proof -
  have "NUL \<notin> set (c0 @ tpl k @ c1)" "NUL \<notin> set k" using assms(2,3,5) plain_NUL by auto
  from value_page_prepared [OF assms(1) this assms(6)] value_page [OF assms(1-5)] show ?thesis by metis
qed

section \<open>A value that contains its own template\<close>

lemma resolve_loop_diverges:
  assumes "tvalue es k = a @ tpl k @ b" and "plain a" and "list_all lower k"
    and "page_ok page (pre @ s @ tpl k @ rest) es" and "plain s"
  shows "page_resolve_loop page (length pre) = None"
proof -
  let ?P = "\<lambda>page offset (y :: page_t exec). \<forall>pre s rest. offset = length pre \<and> plain s \<and> page_ok page (pre @ s @ tpl k @ rest) es \<longrightarrow> False"
  have step: "?P page offset y"
    if IH: "\<And>page offset y. loop page offset = Some y \<Longrightarrow> ?P page offset y"
      and run: "(case page_resolveTemplate page offset of Inl e \<Rightarrow> Some (Inl e)
        | Inr (offset', page') \<Rightarrow> (if offset' > -1 then loop page' (nat offset') else Some (Inr page'))) = Some y"
    for loop page offset y
  proof (intro allI impI)
    fix pre s rest
    assume a: "offset = length pre \<and> plain s \<and> page_ok page (pre @ s @ tpl k @ rest) es"
    then obtain page' where p: "page_resolveTemplate page offset = Inr (int (length pre + length s), page')"
      "page_ok page' (pre @ s @ tvalue es k @ rest) es"
      using resolveTemplate_hit [of page _ es pre s k rest] assms(3) by blast
    have "nat (int (length pre + length s)) = length (pre @ s)" by simp
    then have "loop page' (length (pre @ s)) = Some y" using run p(1) by (simp del: of_nat_add)
    from IH [OF this] have "\<not> page_ok page' ((pre @ s) @ a @ tpl k @ b @ rest) es" using assms(2) by blast
    with p(2) assms(1) show False by simp
  qed
  have "?P page offset y" if "page_resolve_loop page offset = Some y" for page offset y
    by (rule page_resolve_loop.raw_induct [where P = ?P, OF step that])
  with assms(4,5) show ?thesis by (cases "page_resolve_loop page (length pre)") blast+
qed

section \<open>Properties\<close>

text \<open>C32. Resolving the templates of a page terminates and gives the text in which every template is
  replaced by its value, values included, whenever this replacement ends: when the source and the values
  are sequences of plain texts and templates and the templates do not refer back to themselves. The
  templates are released afterwards.\<close>

theorem www_resolve_refines_expansion:
  assumes "page_ok page (print_pieces ps) es" and "\<forall>k. tvalue es k = print_pieces (vals k)" and "expands vals ps out"
  shows "page_resolveTemplates page = Inr \<lparr>page_source = Some (str out), page_templates = None\<rparr>"
  using resolveTemplates_expands [OF assms(3) _ assms(1)] assms(2) by blast

theorem www_resolve_refines_expansion_witness:
  "page_resolveTemplates \<lparr>page_source = Some (str ''a{{b}}c''), page_templates = Some hash_table_create\<rparr>
     = Inr \<lparr>page_source = Some (str ''ac''), page_templates = None\<rparr>"
proof -
  let ?p = "\<lparr>page_source = Some (str ''a{{b}}c''), page_templates = Some hash_table_create\<rparr>"
  have "page_ok ?p (print_pieces [Txt ''a'', Tpl ''b'', Txt ''c'']) []"
    using ht_rep_create by (auto simp: page_ok_def print_pieces_def tpl_def values_ok_def)
  moreover have "expands (\<lambda>k. []) [Txt ''a'', Tpl ''b'', Txt ''c''] (''a'' @ ''c'' @ [])"
  proof (intro expands_Txt expands_Tpl)
    show "expands (\<lambda>k. []) ([] @ [Txt ''c'']) (''c'' @ [])" 
      unfolding append_Nil by (rule expands_Txt [OF _ expands_Nil]) (simp add: plain_def)
  qed (simp_all add: plain_def lower_def schar_def)
  ultimately show ?thesis
    using www_resolve_refines_expansion [of ?p "[Txt ''a'', Tpl ''b'', Txt ''c'']" "[]" "\<lambda>k. []"]
    by (simp add: tvalue_def entries_map_def print_pieces_def)
qed

text \<open>The error pages are the page template with the content of the page and the version filled in;
  the pages for bad requests, missing files and internal errors have the description or the path of
  the request in the place of its template, as long as that text contains no \<^verbatim>\<open>{{\<close>. The text is
  inserted as it is, without escaping HTML.\<close>

theorem www_error_pages:
  assumes "template_ok res t0 t1 t2 ver" and "plain c" and "plain c0" and "plain c1" and "is_text v" and "plain (content v)"
  shows "(RESOURCES_WWW_403_HTML res = lit c \<longrightarrow> page_create403 res = Inr \<lparr>page_source = Some (str (t0 @ c @ t1 @ ver @ t2)), page_templates = None\<rparr>)
    \<and> (RESOURCES_WWW_413_HTML res = lit c \<longrightarrow> page_create413 res = Inr \<lparr>page_source = Some (str (t0 @ c @ t1 @ ver @ t2)), page_templates = None\<rparr>)
    \<and> (RESOURCES_WWW_417_HTML res = lit c \<longrightarrow> page_create417 res = Inr \<lparr>page_source = Some (str (t0 @ c @ t1 @ ver @ t2)), page_templates = None\<rparr>)
    \<and> (RESOURCES_WWW_501_HTML res = lit c \<longrightarrow> page_create501 res = Inr \<lparr>page_source = Some (str (t0 @ c @ t1 @ ver @ t2)), page_templates = None\<rparr>)
    \<and> (RESOURCES_WWW_400_HTML res = lit (c0 @ tpl ''description'' @ c1) \<longrightarrow>
         page_create400 res v = Inr \<lparr>page_source = Some (str (t0 @ c0 @ content v @ c1 @ t1 @ ver @ t2)), page_templates = None\<rparr>)
    \<and> (RESOURCES_WWW_500_HTML res = lit (c0 @ tpl ''description'' @ c1) \<longrightarrow>
         page_create500 res v = Inr \<lparr>page_source = Some (str (t0 @ c0 @ content v @ c1 @ t1 @ ver @ t2)), page_templates = None\<rparr>)
    \<and> (RESOURCES_WWW_404_HTML res = lit (c0 @ tpl ''path'' @ c1) \<longrightarrow>
         page_create404 res v = Inr \<lparr>page_source = Some (str (t0 @ c0 @ content v @ c1 @ t1 @ ver @ t2)), page_templates = None\<rparr>)"
proof -
  obtain page where p: "page_ok page (print_pieces (page_text t0 t1 t2)) (base_entries ver c)"
    "\<And>f. error_page res (lit c) f = f page"
    using base_page [OF assms(1), of c] plain_NUL [OF assms(2)] by blast
  have a: "page_resolveTemplates page = Inr \<lparr>page_source = Some (str (t0 @ c @ t1 @ ver @ t2)), page_templates = None\<rparr>"
    using simple_page [OF assms(1,2) p(1)] .
  have b: "error_page res (lit (c0 @ tpl k @ c1)) (show_value k v)
     = Inr \<lparr>page_source = Some (str (t0 @ c0 @ content v @ c1 @ t1 @ ver @ t2)), page_templates = None\<rparr>"
    if k: "k = ''path'' \<or> k = ''description''" for k
    using value_page_built [OF assms(1,3,4,6) k assms(5)] .
  show ?thesis
    using p(2) a b [of "''path''"] b [of "''description''"]
    by (simp add: page_create_forms)
qed

text \<open>A small instance of the resources.\<close>

definition tiny_resources :: www_resources where
  "tiny_resources =
     \<lparr>WSIC_VERSION = lit ''1'', RESOURCES_WWW_TEMPLATE_HTML = lit ''<{{content}}-{{version}}>'',
      RESOURCES_WWW_TEMPLATE_HTML_LENGTH = 25, RESOURCES_WWW_400_HTML = lit ''{{description}}'',
      RESOURCES_WWW_403_HTML = lit ''403'', RESOURCES_WWW_404_HTML = lit ''No {{path}}'',
      RESOURCES_WWW_413_HTML = lit ''413'', RESOURCES_WWW_417_HTML = lit ''417'',
      RESOURCES_WWW_500_HTML = lit ''{{description}}'', RESOURCES_WWW_501_HTML = lit ''501''\<rparr>"

lemma tiny_template: "template_ok tiny_resources ''<'' ''-'' ''>'' ''1''"
  by (simp add: template_ok_def tiny_resources_def tpl_def plain_def)

theorem www_error_pages_witness:
  "page_create404 tiny_resources (str ''/a'') = Inr \<lparr>page_source = Some (str ''<No /a-1>''), page_templates = None\<rparr>"
proof -
  have "RESOURCES_WWW_404_HTML tiny_resources = lit (''No '' @ tpl ''path'' @ [])"
    by (simp add: tiny_resources_def tpl_def)
  with www_error_pages [OF tiny_template, of "''403''" "''No ''" "[]" "str ''/a''"] show ?thesis
    by (simp add: plain_def)
qed

text \<open>C33. A request for a missing path that contains the text \<^verbatim>\<open>{{path}}\<close> makes building the page for
  the answer run forever: the path is inserted, scanned again from its beginning, and replaced by itself.\<close>

theorem www_404_diverges:
  assumes "template_ok res t0 t1 t2 ver" and "RESOURCES_WWW_404_HTML res = lit (c0 @ tpl ''path'' @ c1)"
    and "plain c0" and "plain c1" and "plain a" and "NUL \<notin> set b"
  shows "page_create404 res (str (a @ tpl ''path'' @ b)) = Inl Diverges"
proof -
  let ?v = "str (a @ tpl ''path'' @ b)" and ?c = "c0 @ tpl ''path'' @ c1" and ?k = "''path''"
  let ?es = "value_entries ver ?c ?k ?v" and ?after = "t1 @ tpl ''version'' @ t2"
  have n: "NUL \<notin> set ?c" "NUL \<notin> set ?k" "is_text ?v" using assms plain_NUL by simp_all
  obtain page where p: "page_ok page (print_pieces (page_text t0 t1 t2)) ?es"
    "error_page res (lit ?c) (show_value ?k ?v) = page_resolveTemplates page"
    using value_page_prepared [OF assms(1) n] by blast
  have v: "tvalue ?es ''content'' = ?c" "tvalue ?es ?k = a @ tpl ?k @ b"
    by (simp_all add: value_entries_def tvalue_set tvalue_base template_hashes)
  have src: "page_ok page ([] @ t0 @ tpl ''content'' @ ?after) ?es" "plain t0"
    using p(1) assms(1) by (simp_all add: print_pieces_def page_text_def template_ok_def)
  then obtain page' where page': "page_resolveTemplate page 0 = Inr (int (length t0), page')"
    "page_ok page' (t0 @ c0 @ tpl ?k @ c1 @ ?after) ?es"
    using resolveTemplate_hit [OF src(1) refl src(2) lower_keys(2)] v(1) by auto
  have "page_resolve_loop page' (length t0) = None"
    by (rule resolve_loop_diverges [OF v(2) assms(5) lower_keys(3) page'(2) assms(3)])
  then have "page_resolve_loop page 0 = None" using resolve_loop_step(1) [OF page'(1)] by simp
  then show ?thesis using p(2) assms(2) by (simp add: page_create_forms page_resolveTemplates_def)
qed

theorem www_404_diverges_witness: "page_create404 tiny_resources (str ''/{{path}}'') = Inl Diverges"
proof -
  have "RESOURCES_WWW_404_HTML tiny_resources = lit (''No '' @ tpl ''path'' @ [])"
    by (simp add: tiny_resources_def tpl_def)
  from www_404_diverges [OF tiny_template this, of "''/''" "[]"] show ?thesis by (simp add: plain_def tpl_def)
qed

end
