(* ===== verification/Connection.thy ===== *)
theory Connection
  imports CString
begin

text \<open>
  The client connection of \<^verbatim>\<open>src/connection/connection.c\<close>: reading a line or a body from a socket or a
  TLS stream with polling and a bounded number of attempts, writing, and telling TLS from plain text.
  The system calls and the OpenSSL functions are the fields of \<open>net\<close>, functions on the state \<open>'w\<close> of the
  world outside the process. What the proofs need of them is stated in \<open>stream_laws\<close>: a read delivers a
  prefix of the bytes that have arrived, a peek leaves them in place.
\<close>

section \<open>System calls and state\<close>

datatype errno = EAGAIN | EBADF | ENOTCONN | EINVAL | ENOTSOCK | ErrnoOther

record 'w net =
  net_poll :: "int \<Rightarrow> int \<Rightarrow> 'w \<Rightarrow> int \<times> 'w"
  net_fionread :: "int \<Rightarrow> 'w \<Rightarrow> (errno + int) \<times> 'w"
  net_recv :: "int \<Rightarrow> nat \<Rightarrow> bool \<Rightarrow> 'w \<Rightarrow> (errno + bytes) \<times> 'w"
  net_send :: "int \<Rightarrow> bytes \<Rightarrow> 'w \<Rightarrow> (errno + nat) \<times> 'w"
  net_shutdown :: "int \<Rightarrow> 'w \<Rightarrow> errno option \<times> 'w"
  net_close :: "int \<Rightarrow> 'w \<Rightarrow> errno option \<times> 'w"
  net_SSL_pending :: "nat \<Rightarrow> 'w \<Rightarrow> int"
  net_SSL_peek_ex :: "nat \<Rightarrow> nat \<Rightarrow> 'w \<Rightarrow> bytes option \<times> 'w"
  net_SSL_read_ex :: "nat \<Rightarrow> nat \<Rightarrow> 'w \<Rightarrow> bytes option \<times> 'w"
  net_SSL_write_ex :: "nat \<Rightarrow> bytes \<Rightarrow> 'w \<Rightarrow> (int \<times> nat) \<times> 'w"
  net_SSL_free :: "nat \<Rightarrow> 'w \<Rightarrow> 'w"
  net_LOGGING_LEVEL :: nat

datatype read_flags = READ_FLAGS_NONE | READ_FLAGS_PEEK

record connection_t =
  conn_ssl :: "nat option"
  conn_socket :: int
  conn_sourceAddress :: "string_t option"
  conn_sourcePort :: nat

definition connection_create :: connection_t where
  "connection_create = \<lparr>conn_ssl = None, conn_socket = 0, conn_sourceAddress = None, conn_sourcePort = 0\<rparr>"

definition connection_setSocket :: "connection_t \<Rightarrow> int \<Rightarrow> connection_t" where
  "connection_setSocket c s = c\<lparr>conn_socket := s\<rparr>"

definition connection_getSocket :: "connection_t \<Rightarrow> int" where
  "connection_getSocket c = conn_socket c"

definition connection_setSSL :: "connection_t \<Rightarrow> nat option \<Rightarrow> connection_t" where
  "connection_setSSL c ssl = c\<lparr>conn_ssl := ssl\<rparr>"

definition connection_setSourceAddress :: "connection_t \<Rightarrow> string_t option \<Rightarrow> connection_t" where
  "connection_setSourceAddress c a = c\<lparr>conn_sourceAddress := a\<rparr>"

definition connection_getSourceAddress :: "connection_t \<Rightarrow> string_t option" where
  "connection_getSourceAddress c = conn_sourceAddress c"

definition connection_setSourcePort :: "connection_t \<Rightarrow> nat \<Rightarrow> connection_t" where
  "connection_setSourcePort c p = c\<lparr>conn_sourcePort := p\<rparr>"

definition connection_getSourcePort :: "connection_t \<Rightarrow> nat" where
  "connection_getSourcePort c = conn_sourcePort c"

text \<open>An error message that names the peer reads the source address, but only if errors (level 3) are logged.\<close>

definition log_source :: "'w net \<Rightarrow> connection_t \<Rightarrow> unit exec" where
  "log_source net c =
     (if 3 \<le> net_LOGGING_LEVEL net then bnd (deref (conn_sourceAddress c)) (\<lambda>_. Inr ()) else Inr ())"

section \<open>Reading bytes\<close>

text \<open>The buffer has the requested size; only its first bytes are filled. \<open>None\<close> is the null pointer.\<close>

definition fill_buffer :: "nat \<Rightarrow> bytes \<Rightarrow> 'w \<Rightarrow> ((bytes option \<times> nat) \<times> 'w) exec" where
  "fill_buffer n bs w = bnd (memcpy (malloc n) 0 bs (length bs)) (\<lambda>b. Inr ((Some b, length bs), w))"

definition connection_readBytes ::
  "'w net \<Rightarrow> connection_t \<Rightarrow> nat \<Rightarrow> read_flags \<Rightarrow> 'w \<Rightarrow> ((bytes option \<times> nat) \<times> 'w) exec" where
  "connection_readBytes net c bytesToRead flags w =
     (case net_recv net (conn_socket c) bytesToRead (flags = READ_FLAGS_PEEK) w of
        (Inl e, w') \<Rightarrow>
          (if e = EAGAIN then Inr ((None, 0), w') else bnd (log_source net c) (\<lambda>_. Inr ((None, 0), w')))
      | (Inr bs, w') \<Rightarrow>
          (if bs = [] then Inr ((None, 0), w') else fill_buffer bytesToRead bs w'))"

definition connection_readSSLBytes ::
  "'w net \<Rightarrow> connection_t \<Rightarrow> nat \<Rightarrow> nat \<Rightarrow> read_flags \<Rightarrow> 'w \<Rightarrow> ((bytes option \<times> nat) \<times> 'w) exec" where
  "connection_readSSLBytes net c ssl bytesToRead flags w =
     (case (if flags = READ_FLAGS_PEEK then net_SSL_peek_ex net ssl bytesToRead w
            else net_SSL_read_ex net ssl bytesToRead w) of
        (None, w') \<Rightarrow> bnd (log_source net c) (\<lambda>_. Inr ((None, 0), w'))
      | (Some bs, w') \<Rightarrow> fill_buffer bytesToRead bs w')"

definition connection_readEither ::
  "'w net \<Rightarrow> connection_t \<Rightarrow> nat \<Rightarrow> read_flags \<Rightarrow> 'w \<Rightarrow> ((bytes option \<times> nat) \<times> 'w) exec" where
  "connection_readEither net c n flags w =
     (case conn_ssl c of
        None \<Rightarrow> connection_readBytes net c n flags w
      | Some ssl \<Rightarrow> connection_readSSLBytes net c ssl n flags w)"

definition connection_pollForData :: "'w net \<Rightarrow> connection_t \<Rightarrow> int \<Rightarrow> 'w \<Rightarrow> bool \<times> 'w" where
  "connection_pollForData net c timeout w =
     (if (case conn_ssl c of None \<Rightarrow> False | Some ssl \<Rightarrow> net_SSL_pending net ssl w > 0) then (True, w)
      else
        let (status, w') = net_poll net (conn_socket c) timeout w
        in if status < -1 then (False, w') else if status = 0 then (False, w') else (True, w'))"

definition connection_getAvailableBytes :: "'w net \<Rightarrow> connection_t \<Rightarrow> 'w \<Rightarrow> (int \<times> 'w) exec" where
  "connection_getAvailableBytes net c w =
     (case conn_ssl c of
        None \<Rightarrow>
          (case net_fionread net (conn_socket c) w of
             (Inl e, w') \<Rightarrow> Inr (-1, w')
           | (Inr n, w') \<Rightarrow> Inr (n, w'))
      | Some ssl \<Rightarrow>
          let bytesAvailable = net_SSL_pending net ssl w
          in if bytesAvailable < 0 then Inr (-1, w)
             else if bytesAvailable = 0 then
               bnd (connection_readSSLBytes net c ssl 1 READ_FLAGS_PEEK w) (\<lambda>(_, w'). Inr (bytesAvailable, w'))
             else Inr (bytesAvailable, w))"

section \<open>Reading a body and reading a line\<close>

text \<open>
  Both loops poll, give up once \<^verbatim>\<open>timeouts\<close> has passed 5, and otherwise make one attempt, which ends the
  function (\<open>Inl\<close>) or goes on to the next poll (\<open>Inr\<close>, with the offset up to which the line was searched).
\<close>

definition connection_read_try :: "'w net \<Rightarrow> connection_t \<Rightarrow> nat \<Rightarrow> 'w \<Rightarrow> ((string_t option + unit) \<times> 'w) exec" where
  "connection_read_try net c bytesToRead w =
     bnd (connection_getAvailableBytes net c w) (\<lambda>(bytesAvailable, w1).
       if bytesAvailable = 0 then Inr (Inr (), w1)
       else if bytesAvailable < 0 then Inr (Inl None, w1)
       else if nat bytesAvailable < bytesToRead then Inr (Inr (), w1)
       else bnd (connection_readEither net c bytesToRead READ_FLAGS_NONE w1) (\<lambda>((buffer, bytesReceived), w2).
         if buffer = None then Inr (Inl None, w2)
         else bnd (string_fromBufferWithLength buffer bytesReceived) (\<lambda>s. Inr (Inl (Some s), w2))))"

function connection_read_loop ::
  "'w net \<Rightarrow> connection_t \<Rightarrow> int \<Rightarrow> nat \<Rightarrow> nat \<Rightarrow> 'w \<Rightarrow> (string_t option \<times> 'w) exec" where
  "connection_read_loop net c timeout bytesToRead timeouts w =
     (case connection_pollForData net c timeout w of (dataIsAvailable, w1) \<Rightarrow>
       if timeouts > 5 then Inr (None, w1)
       else if \<not> dataIsAvailable then connection_read_loop net c timeout bytesToRead (timeouts + 1) w1
       else bnd (connection_read_try net c bytesToRead w1) (\<lambda>(r, w2).
         case r of
           Inl result \<Rightarrow> Inr (result, w2)
         | Inr _ \<Rightarrow> connection_read_loop net c timeout bytesToRead (timeouts + 1) w2))"
  by pat_completeness auto
termination by (relation "measure (\<lambda>(net, c, timeout, n, timeouts, w). 6 - timeouts)") auto

definition connection_read :: "'w net \<Rightarrow> connection_t \<Rightarrow> int \<Rightarrow> nat \<Rightarrow> 'w \<Rightarrow> (string_t option \<times> 'w) exec" where
  "connection_read net c timeout bytesToRead w = connection_read_loop net c timeout bytesToRead 0 w"

text \<open>The search for the end of the line in the bytes peeked at.\<close>

definition connection_findLine :: "bytes option \<Rightarrow> nat \<Rightarrow> nat \<Rightarrow> (int \<times> nat) exec" where
  "connection_findLine buffer bytesReceived offset =
     bnd (string_fromBufferWithLength buffer bytesReceived) (\<lambda>s.
     bnd (string_findNextChar (string_setOffset (string_createCursor s) offset) LF) (\<lambda>(i, cursor).
     Inr (i + 1, string_getOffset cursor)))"

definition connection_takeLine ::
  "'w net \<Rightarrow> connection_t \<Rightarrow> nat \<Rightarrow> 'w \<Rightarrow> (string_t option \<times> 'w) exec" where
  "connection_takeLine net c lineLength w =
     bnd (connection_readEither net c lineLength READ_FLAGS_NONE w) (\<lambda>((buffer, bytesReceived), w').
       if buffer = None then Inr (None, w')
       else bnd (string_fromBufferWithLength buffer bytesReceived) (\<lambda>s.
            bnd (string_trimEnd s) (\<lambda>line. Inr (Some line, w'))))"

definition connection_readLine_try ::
  "'w net \<Rightarrow> connection_t \<Rightarrow> nat \<Rightarrow> nat \<Rightarrow> 'w \<Rightarrow> ((string_t option + nat) \<times> 'w) exec" where
  "connection_readLine_try net c maxBytes offset w =
     bnd (connection_getAvailableBytes net c w) (\<lambda>(available, w1).
       if available = 0 then Inr (Inr offset, w1)
       else if available < 0 then Inr (Inl None, w1)
       else
         let bytesAvailable = (if nat available \<ge> maxBytes then maxBytes else nat available)
         in bnd (connection_readEither net c bytesAvailable READ_FLAGS_PEEK w1) (\<lambda>((buffer, bytesReceived), w2).
              if buffer = None then Inr (Inr offset, w2)
              else bnd (connection_findLine buffer bytesReceived offset) (\<lambda>(lineLength, offset').
                if lineLength < 1 then
                  if bytesAvailable \<ge> maxBytes then Inr (Inl None, w2) else Inr (Inr offset', w2)
                else bnd (connection_takeLine net c (nat lineLength) w2) (\<lambda>(line, w3). Inr (Inl line, w3)))))"

function connection_readLine_loop ::
  "'w net \<Rightarrow> connection_t \<Rightarrow> int \<Rightarrow> nat \<Rightarrow> nat \<Rightarrow> nat \<Rightarrow> 'w \<Rightarrow> (string_t option \<times> 'w) exec" where
  "connection_readLine_loop net c timeout maxBytes offset timeouts w =
     (case connection_pollForData net c timeout w of (dataIsAvailable, w1) \<Rightarrow>
       if timeouts > 5 then Inr (None, w1)
       else if \<not> dataIsAvailable then connection_readLine_loop net c timeout maxBytes offset (timeouts + 1) w1
       else bnd (connection_readLine_try net c maxBytes offset w1) (\<lambda>(r, w2).
         case r of
           Inl result \<Rightarrow> Inr (result, w2)
         | Inr offset' \<Rightarrow> connection_readLine_loop net c timeout maxBytes offset' (timeouts + 1) w2))"
  by pat_completeness auto
termination by (relation "measure (\<lambda>(net, c, timeout, m, off, timeouts, w). 6 - timeouts)") auto

declare connection_read_loop.simps [simp del] connection_readLine_loop.simps [simp del]

definition connection_readLine :: "'w net \<Rightarrow> connection_t \<Rightarrow> int \<Rightarrow> nat \<Rightarrow> 'w \<Rightarrow> (string_t option \<times> 'w) exec" where
  "connection_readLine net c timeout maxBytes w = connection_readLine_loop net c timeout maxBytes 0 0 w"

section \<open>Writing, closing, recognising TLS\<close>

text \<open>The number of bytes comes from \<^verbatim>\<open>strlen\<close>; the size passed by the caller is only logged.\<close>

definition connection_write :: "'w net \<Rightarrow> connection_t \<Rightarrow> bytes option \<Rightarrow> nat \<Rightarrow> 'w \<Rightarrow> (nat \<times> 'w) exec" where
  "connection_write net c buffer bufferSize w =
     bnd (deref (conn_sourceAddress c)) (\<lambda>_.
     bnd (deref buffer) (\<lambda>b.
     bnd (strlen b) (\<lambda>n.
       case conn_ssl c of
         None \<Rightarrow>
           (case net_send net (conn_socket c) (take n b) w of
              (Inl e, w') \<Rightarrow> Inr (0, w')
            | (Inr bytesSent, w') \<Rightarrow> Inr (bytesSent, w'))
       | Some ssl \<Rightarrow>
           (case net_SSL_write_ex net ssl (take n b) w of
              ((status, bytesSent), w') \<Rightarrow> if status < 0 then Inr (0, w') else Inr (bytesSent, w')))))"

definition connection_close :: "'w net \<Rightarrow> connection_t \<Rightarrow> 'w \<Rightarrow> 'w" where
  "connection_close net c w =
     (case net_shutdown net (conn_socket c) w of
        (Some e, w') \<Rightarrow> w'
      | (None, w') \<Rightarrow> snd (net_close net (conn_socket c) w'))"

definition connection_isSSL :: "'w net \<Rightarrow> connection_t \<Rightarrow> 'w \<Rightarrow> (bool \<times> 'w) exec" where
  "connection_isSSL net c w =
     bnd (connection_readBytes net c 6 READ_FLAGS_PEEK w) (\<lambda>((buffer, _), w').
       case buffer of
         None \<Rightarrow> Inr (False, w')
       | Some b \<Rightarrow>
           bnd (load b 0) (\<lambda>b0. bnd (load b 5) (\<lambda>b5.
             Inr (b0 = CHR 0x16 \<and> b5 = CHR 0x01, w'))))"

definition connection_free :: "'w net \<Rightarrow> connection_t \<Rightarrow> 'w \<Rightarrow> 'w exec" where
  "connection_free net c w =
     (let w1 = connection_close net c w
      in bnd (case conn_sourceAddress c of None \<Rightarrow> Inr () | Some a \<Rightarrow> string_free (Some a)) (\<lambda>_.
           case conn_ssl c of None \<Rightarrow> Inr w1 | Some ssl \<Rightarrow> Inr (net_SSL_free net ssl w1)))"

section \<open>What the system calls promise\<close>

text \<open>
  \<open>queued w\<close> are the bytes that have arrived on the connection and were not consumed (for TLS, after
  decryption). They grow at the end at any time, the number of readable bytes never exceeds
  them, and a read takes them from the front.
\<close>

definition grows :: "('w \<Rightarrow> bytes) \<Rightarrow> 'w \<Rightarrow> 'w \<Rightarrow> bool" where
  "grows queued w w' \<longleftrightarrow> (\<exists>more. queued w' = queued w @ more)"

definition delivers :: "('w \<Rightarrow> bytes) \<Rightarrow> nat \<Rightarrow> bool \<Rightarrow> bytes \<Rightarrow> 'w \<Rightarrow> 'w \<Rightarrow> bool" where
  "delivers queued n peek bs w w' \<longleftrightarrow>
     (\<exists>more. bs = take n (queued w @ more)
        \<and> queued w' = (if peek then queued w @ more else drop n (queued w @ more)))"

definition stream_laws :: "'w net \<Rightarrow> connection_t \<Rightarrow> ('w \<Rightarrow> bytes) \<Rightarrow> bool" where
  "stream_laws net c queued \<longleftrightarrow>
     (\<forall>t w. grows queued w (snd (net_poll net (conn_socket c) t w)))
   \<and> (case conn_ssl c of
        None \<Rightarrow>
          (\<forall>w. case net_fionread net (conn_socket c) w of
             (Inl e, w') \<Rightarrow> grows queued w w'
           | (Inr n, w') \<Rightarrow> grows queued w w' \<and> n \<le> int (length (queued w')))
        \<and> (\<forall>n peek w. case net_recv net (conn_socket c) n peek w of
             (Inl e, w') \<Rightarrow> grows queued w w' | (Inr bs, w') \<Rightarrow> delivers queued n peek bs w w')
      | Some ssl \<Rightarrow>
          (\<forall>w. net_SSL_pending net ssl w \<le> int (length (queued w)))
        \<and> (\<forall>n w. case net_SSL_peek_ex net ssl n w of
             (None, w') \<Rightarrow> grows queued w w' | (Some bs, w') \<Rightarrow> delivers queued n True bs w w')
        \<and> (\<forall>n w. case net_SSL_read_ex net ssl n w of
             (None, w') \<Rightarrow> grows queued w w' | (Some bs, w') \<Rightarrow> delivers queued n False bs w w'))"

lemma grows_refl [simp]: "grows queued w w"
  by (simp add: grows_def)

lemma grows_trans [trans]: "grows queued w1 w2 \<Longrightarrow> grows queued w2 w3 \<Longrightarrow> grows queued w1 w3"
  by (auto simp: grows_def)

lemma delivers_peek: "delivers queued n True bs w w' \<Longrightarrow> grows queued w w' \<and> bs = take n (queued w')"
  by (auto simp: delivers_def grows_def)

lemma delivers_nothing: "delivers queued n peek [] w w' \<Longrightarrow> grows queued w w'"
  by (auto simp: delivers_def grows_def)

lemma delivers_prefix:
  "delivers queued n False bs w w' \<Longrightarrow> n \<le> length (queued w) \<Longrightarrow>
     bs = take n (queued w) \<and> (\<exists>more. queued w @ more = bs @ queued w')"
  by (auto simp: delivers_def) (metis append.assoc append_take_drop_id)

lemma fill_buffer_eq:
  "length bs \<le> n \<Longrightarrow> fill_buffer n bs w = Inr ((Some (bs @ malloc (n - length bs)), length bs), w)"
  by (simp add: fill_buffer_def memcpy_def malloc_def)

lemma fromBufferWithLength_prefix: "string_fromBufferWithLength (Some (bs @ rest)) (length bs) = Inr (str bs)"
  by (simp add: fromBufferWithLength_eq)

lemma log_source_ok: "conn_sourceAddress c \<noteq> None \<Longrightarrow> log_source net c = Inr ()"
  by (auto simp: log_source_def)

text \<open>Reading bytes never faults; it delivers a prefix of what has arrived, or nothing.\<close>

lemma readEither_delivers:
  assumes "stream_laws net c queued" and "conn_sourceAddress c \<noteq> None"
  shows "\<exists>b n' w'. connection_readEither net c n flags w = Inr ((b, n'), w')
    \<and> (case b of None \<Rightarrow> grows queued w w'
       | Some b \<Rightarrow> \<exists>bs rest. b = bs @ rest \<and> n' = length bs \<and> delivers queued n (flags = READ_FLAGS_PEEK) bs w w')"
proof (cases "conn_ssl c")
  case None
  let ?p = "flags = READ_FLAGS_PEEK"
  obtain r w' where r: "net_recv net (conn_socket c) n ?p w = (r, w')" by fastforce
  have law: "case r of Inl e \<Rightarrow> grows queued w w' | Inr bs \<Rightarrow> delivers queued n ?p bs w w'"
    using assms(1) None r unfolding stream_laws_def by (auto split: sum.splits prod.splits) metis+
  show ?thesis
  proof (cases r)
    case (Inr bs)
    have "length bs \<le> n" using law Inr by (auto simp: delivers_def)
    with law Inr r None delivers_nothing [of queued n ?p w w'] show ?thesis
      by (cases "bs = []") (auto simp: connection_readEither_def connection_readBytes_def fill_buffer_eq)
  qed (use law r None log_source_ok [OF assms(2), of net] in
      \<open>auto simp: connection_readEither_def connection_readBytes_def\<close>)
next
  case (Some ssl)
  define f where "f = (if flags = READ_FLAGS_PEEK then net_SSL_peek_ex net ssl n w else net_SSL_read_ex net ssl n w)"
  obtain r w' where r: "f = (r, w')" by fastforce
  have law: "case r of None \<Rightarrow> grows queued w w' | Some bs \<Rightarrow> delivers queued n (flags = READ_FLAGS_PEEK) bs w w'"
    using assms(1) Some r unfolding stream_laws_def f_def
    by (cases "flags = READ_FLAGS_PEEK"; cases r) (fastforce split: prod.splits option.splits)+
  show ?thesis
  proof (cases r)
    case (Some bs)
    have "length bs \<le> n" using law Some by (auto simp: delivers_def)
    with law Some r \<open>conn_ssl c = _\<close> show ?thesis
      by (auto simp: connection_readEither_def connection_readSSLBytes_def fill_buffer_eq f_def)
  qed (use law r Some log_source_ok [OF assms(2), of net] in
      \<open>auto simp: connection_readEither_def connection_readSSLBytes_def f_def\<close>)
qed

lemma poll_grows: "stream_laws net c queued \<Longrightarrow> grows queued w (snd (connection_pollForData net c t w))"
  by (auto simp: connection_pollForData_def stream_laws_def Let_def split: prod.splits) (metis snd_conv)+

lemma available_grows:
  assumes "stream_laws net c queued" and "conn_sourceAddress c \<noteq> None"
  shows "\<exists>n w'. connection_getAvailableBytes net c w = Inr (n, w') \<and> grows queued w w' \<and> n \<le> int (length (queued w'))"
proof (cases "conn_ssl c")
  case None
  obtain r w' where r: "net_fionread net (conn_socket c) w = (r, w')" by fastforce
  have "case r of Inl e \<Rightarrow> grows queued w w' | Inr n \<Rightarrow> grows queued w w' \<and> n \<le> int (length (queued w'))"
    using assms(1) None r unfolding stream_laws_def by (auto split: sum.splits prod.splits)
  then show ?thesis using r None
    by (auto simp: connection_getAvailableBytes_def split: sum.splits)
next
  case (Some ssl)
  obtain b n' w' where r: "connection_readEither net c 1 READ_FLAGS_PEEK w = Inr ((b, n'), w')"
    "case b of None \<Rightarrow> grows queued w w'
       | Some b \<Rightarrow> \<exists>bs rest. b = bs @ rest \<and> n' = length bs \<and> delivers queued 1 (READ_FLAGS_PEEK = READ_FLAGS_PEEK) bs w w'"
    using readEither_delivers [OF assms, of 1 READ_FLAGS_PEEK w] by blast
  then have "grows queued w w'" using delivers_peek by (fastforce split: option.splits)
  moreover have "net_SSL_pending net ssl w \<le> int (length (queued w))"
    using assms(1) Some by (simp add: stream_laws_def)
  ultimately show ?thesis using r(1) Some
    by (auto simp: connection_getAvailableBytes_def connection_readEither_def Let_def)
qed

section \<open>Polling with a bounded number of attempts\<close>

text \<open>
  The contract of both reading loops: poll, stop when the counter has passed 5, otherwise make an attempt.
  An invariant of polling and of the attempts carries over to the loop, which always returns.
\<close>

locale poll_loop =
  fixes poll :: "'w \<Rightarrow> bool \<times> 'w"
    and attempt :: "'s \<Rightarrow> 'w \<Rightarrow> (('r option + 's) \<times> 'w) exec"
    and loop :: "'s \<Rightarrow> nat \<Rightarrow> 'w \<Rightarrow> ('r option \<times> 'w) exec"
  assumes unfold_loop: "loop s t w =
    (case poll w of (ok, w1) \<Rightarrow>
       if t > 5 then Inr (None, w1) else if \<not> ok then loop s (t + 1) w1
       else bnd (attempt s w1) (\<lambda>(r, w2). case r of Inl x \<Rightarrow> Inr (x, w2) | Inr s' \<Rightarrow> loop s' (t + 1) w2))"
begin

lemma loop_returns:
  assumes poll: "\<And>s w. I s w \<Longrightarrow> I s (snd (poll w))"
    and attempt: "\<And>s w. I s w \<Longrightarrow> \<exists>r w'. attempt s w = Inr (r, w') \<and> (case r of Inl x \<Rightarrow> Q x w' | Inr s' \<Rightarrow> I s' w')"
    and giveup: "\<And>s w. I s w \<Longrightarrow> Q None w"
    and start: "I s w"
  shows "\<exists>r w'. loop s t w = Inr (r, w') \<and> Q r w'"
  using start
proof (induction "6 - t" arbitrary: s t w)
  case 0
  with poll [OF 0(2)] giveup show ?case by (subst unfold_loop) (auto split: prod.splits)
next
  case (Suc k)
  have t: "t \<le> 5" "k = 6 - (t + 1)" using Suc.hyps(2) by auto
  obtain ok w1 where p: "poll w = (ok, w1)" by fastforce
  have I1: "I s w1" using poll [OF Suc.prems] p by simp
  obtain r w2 where a: "attempt s w1 = Inr (r, w2)" "case r of Inl x \<Rightarrow> Q x w2 | Inr s' \<Rightarrow> I s' w2"
    using attempt [OF I1] by blast
  show ?case
    using Suc.hyps(1) [OF t(2)] t(1) p I1 a by (subst unfold_loop) (auto split: sum.splits)
qed

lemma loop_keeps:
  assumes poll: "\<And>w. f (snd (poll w)) = f w" and attempt: "\<And>s w r w'. attempt s w = Inr (r, w') \<Longrightarrow> f w' = f w"
    and run: "loop s t w = Inr (r, w')"
  shows "f w' = f w"
  using run
proof (induction "6 - t" arbitrary: s t w)
  case 0
  then show ?case using poll [of w] by (subst (asm) unfold_loop) (auto split: prod.splits)
next
  case (Suc k)
  have t: "t \<le> 5" "k = 6 - (t + 1)" using Suc.hyps(2) by auto
  obtain ok w1 where p: "poll w = (ok, w1)" by fastforce
  show ?case
  proof (cases ok)
    case False
    then show ?thesis using Suc.prems Suc.hyps(1) [OF t(2)] poll [of w] p t(1) by (subst (asm) unfold_loop) fastforce
  next
    case True
    then obtain x w2 where x: "attempt s w1 = Inr (x, w2)"
      "(case x of Inl y \<Rightarrow> Inr (y, w2) | Inr s' \<Rightarrow> loop s' (t + 1) w2) = Inr (r, w')"
      using Suc.prems t(1) p by (subst (asm) unfold_loop) (auto simp: bnd_eq_Inr)
    then show ?thesis using Suc.hyps(1) [OF t(2)] poll [of w] p attempt [OF x(1)] by (cases x) auto
  qed
qed

lemma loop_first:
  "t \<le> 5 \<Longrightarrow> poll w = (True, w1) \<Longrightarrow> attempt s w1 = Inr (Inl x, w2) \<Longrightarrow> loop s t w = Inr (x, w2)"
  by (subst unfold_loop) simp

end

interpretation body_loop: poll_loop
  "connection_pollForData net c timeout" "\<lambda>_ :: unit. connection_read_try net c n"
  "\<lambda>_ :: unit. connection_read_loop net c timeout n" for net c timeout n
  by unfold_locales (subst connection_read_loop.simps, auto split: sum.splits prod.splits intro!: bnd_cong)

interpretation line_loop: poll_loop
  "connection_pollForData net c timeout" "connection_readLine_try net c maxBytes"
  "connection_readLine_loop net c timeout maxBytes" for net c timeout maxBytes
  by unfold_locales (subst connection_readLine_loop.simps, rule refl)

section \<open>Reading a line\<close>

text \<open>The search for a byte in a string of any bytes: it stops at the byte, at a zero byte, or at the end.\<close>

definition found_or_passed :: "string \<Rightarrow> char \<Rightarrow> nat \<Rightarrow> int \<Rightarrow> nat \<Rightarrow> bool" where
  "found_or_passed xs needle off i j \<longleftrightarrow>
     (i = -1 \<and> needle \<notin> set (take j xs) \<and> off \<le> j \<and> (j \<le> length xs \<or> j = off))
   \<or> (\<exists>m. i = int m \<and> m < length xs \<and> xs ! m = needle \<and> needle \<notin> set (take m xs))"

lemma findNextChar_any:
  assumes "needle \<noteq> NUL" and "needle \<notin> set (take off xs)"
  shows "\<exists>i j. string_findNextChar (at (pad xs k) off) needle = Inr (i, at (pad xs k) j)
    \<and> found_or_passed xs needle off i j"
  using assms(2)
proof (induction "length xs - off" arbitrary: off)
  case 0
  then show ?case
    by (subst string_findNextChar.simps) (simp add: getNextChar_at found_or_passed_def)
next
  case (Suc n)
  then have off: "off < length xs" by simp
  let ?c = "xs ! off"
  have t: "take (Suc off) xs = take off xs @ [?c]" using off by (simp add: take_Suc_conv_app_nth)
  consider "?c = NUL" | "?c = needle" | "?c \<noteq> NUL" "?c \<noteq> needle" by blast
  then show ?case
  proof cases
    case 1
    with off t Suc.prems assms(1) show ?thesis
      by (subst string_findNextChar.simps) (auto simp: getNextChar_at found_or_passed_def)
  next
    case 2
    with off Suc.prems assms(1) show ?thesis
      by (subst string_findNextChar.simps) (auto simp: getNextChar_at found_or_passed_def string_getOffset_def)
  next
    case 3
    have "n = length xs - Suc off" using Suc.hyps(2) by simp
    with Suc.hyps(1) [of "Suc off"] Suc.prems t 3
    obtain i j where "string_findNextChar (at (pad xs k) (Suc off)) needle = Inr (i, at (pad xs k) j)"
      "found_or_passed xs needle (Suc off) i j" by auto
    with 3 off show ?thesis
      by (subst string_findNextChar.simps) (auto simp: getNextChar_at found_or_passed_def)
  qed
qed

lemma findLine_any:
  assumes "LF \<notin> set (take off bs)"
  shows "\<exists>i j. connection_findLine (Some (bs @ rest)) (length bs) off = Inr (i + 1, j)
    \<and> found_or_passed bs LF off i j"
  using findNextChar_any [of LF off bs "Suc 0"] assms
  by (auto simp: connection_findLine_def fromBufferWithLength_prefix string_setOffset_def string_getOffset_def)

definition line_taken :: "('w \<Rightarrow> bytes) \<Rightarrow> nat \<Rightarrow> 'w \<Rightarrow> string_t option \<Rightarrow> 'w \<Rightarrow> bool" where
  "line_taken queued maxBytes w r w' \<longleftrightarrow>
     (case r of
        None \<Rightarrow> grows queued w w'
      | Some line \<Rightarrow> \<exists>raw more k. queued w @ more = raw @ LF # queued w' \<and> LF \<notin> set raw
          \<and> length raw < maxBytes \<and> line = pad (rtrim raw) k \<and> 0 < k)"

lemma line_taken_grows: "grows queued w w1 \<Longrightarrow> line_taken queued m w1 r w2 \<Longrightarrow> line_taken queued m w r w2"
  by (auto simp: line_taken_def grows_def split: option.splits)

lemma is_trimmed_LF [simp]: "is_trimmed LF"
  by (simp add: is_trimmed_def)

lemma takeLine_ok:
  assumes laws: "stream_laws net c queued" "conn_sourceAddress c \<noteq> None"
    and line: "m < length (queued w)" "queued w ! m = LF" "LF \<notin> set (take m (queued w))" "m < maxBytes"
  shows "\<exists>r w'. connection_takeLine net c (Suc m) w = Inr (r, w') \<and> line_taken queued maxBytes w r w'"
proof -
  obtain b n' w' where r: "connection_readEither net c (Suc m) READ_FLAGS_NONE w = Inr ((b, n'), w')"
    "case b of None \<Rightarrow> grows queued w w'
       | Some b \<Rightarrow> \<exists>bs rest. b = bs @ rest \<and> n' = length bs
                    \<and> delivers queued (Suc m) (READ_FLAGS_NONE = READ_FLAGS_PEEK) bs w w'"
    using readEither_delivers [OF laws, of "Suc m" READ_FLAGS_NONE w] by blast
  show ?thesis
  proof (cases b)
    case (Some b')
    then obtain bs rest where bs: "b' = bs @ rest" "n' = length bs" "delivers queued (Suc m) False bs w w'"
      using r(2) by auto
    have q: "take (Suc m) (queued w) = take m (queued w) @ [LF]"
      using line by (simp add: take_Suc_conv_app_nth)
    obtain more where more: "bs = take m (queued w) @ [LF]" "queued w @ more = bs @ queued w'"
      using delivers_prefix [OF bs(3)] line(1) q by auto
    have "connection_takeLine net c (Suc m) w = Inr (Some (pad (rtrim bs) (length bs - length (rtrim bs) + 1)), w')"
      using r(1) Some bs(1,2) by (simp add: connection_takeLine_def fromBufferWithLength_prefix trimEnd_pad)
    moreover have "rtrim bs = rtrim (take m (queued w))" "length (take m (queued w)) < maxBytes"
      using more(1) line by simp_all
    ultimately show ?thesis using more line(3) unfolding line_taken_def by fastforce
  qed (use r in \<open>auto simp: connection_takeLine_def line_taken_def\<close>)
qed

lemma take_found:
  assumes "bs = take n q" and "needle \<notin> set (take off q)" and "off \<le> length q"
    and "found_or_passed bs needle off i j"
  shows "(i = -1 \<and> needle \<notin> set (take j q) \<and> j \<le> length q)
    \<or> (\<exists>m. i = int m \<and> m < n \<and> m < length q \<and> q ! m = needle \<and> needle \<notin> set (take m q))"
  using assms unfolding found_or_passed_def by (auto simp: min_def split: if_splits)

text \<open>One attempt either takes one line, or ends without one, or has searched what is there in vain.\<close>

lemma readLine_try_ok:
  assumes laws: "stream_laws net c queued" "conn_sourceAddress c \<noteq> None"
    and off: "LF \<notin> set (take off (queued w))" "off \<le> length (queued w)"
  shows "\<exists>r w'. connection_readLine_try net c maxBytes off w = Inr (r, w')
    \<and> (case r of Inl line \<Rightarrow> line_taken queued maxBytes w line w'
       | Inr off' \<Rightarrow> grows queued w w' \<and> LF \<notin> set (take off' (queued w')) \<and> off' \<le> length (queued w'))"
proof -
  have keep: "LF \<notin> set (take off (queued w')) \<and> off \<le> length (queued w')" if "grows queued w w'" for w'
    using that off by (auto simp: grows_def)
  obtain a w1 where a: "connection_getAvailableBytes net c w = Inr (a, w1)" "grows queued w w1"
    using available_grows [OF laws] by blast
  let ?n = "if nat a \<ge> maxBytes then maxBytes else nat a"
  obtain b n' w2 where b: "connection_readEither net c ?n READ_FLAGS_PEEK w1 = Inr ((b, n'), w2)"
    "case b of None \<Rightarrow> grows queued w1 w2
       | Some b \<Rightarrow> \<exists>bs rest. b = bs @ rest \<and> n' = length bs
                    \<and> delivers queued ?n (READ_FLAGS_PEEK = READ_FLAGS_PEEK) bs w1 w2"
    using readEither_delivers [OF laws, of ?n READ_FLAGS_PEEK w1] by blast
  consider "a \<le> 0" | "b = None" "0 < a" | b' where "b = Some b'" "0 < a" by fastforce
  then show ?thesis
  proof cases
    case 1
    then show ?thesis using a keep [OF a(2)]
      by (cases "a = 0") (auto simp: connection_readLine_try_def line_taken_def)
  next
    case 2
    then have "grows queued w w2" using a(2) b(2) grows_trans by auto
    then show ?thesis using a(1) b(1) 2 keep
      by (auto simp: connection_readLine_try_def Let_def split: if_splits)
  next
    case (3 b')
    then obtain bs rest where bs: "b' = bs @ rest" "n' = length bs" and d: "delivers queued ?n True bs w1 w2"
      using b(2) by auto
    have bs2: "grows queued w1 w2" "bs = take ?n (queued w2)" using delivers_peek [OF d] by blast+
    have g: "grows queued w w2" using grows_trans [OF a(2) bs2(1)] .
    have "take off bs = take ?n (take off (queued w2))" using bs2(2) by (simp add: min.commute)
    then have "LF \<notin> set (take off bs)" using keep [OF g] in_set_takeD by metis
    from findLine_any [OF this, of rest] obtain i j where
      f: "connection_findLine (Some b') n' off = Inr (i + 1, j)" "found_or_passed bs LF off i j"
      using bs(1,2) by auto
    have attempt: "connection_readLine_try net c maxBytes off w =
      (if i < 0 then if ?n \<ge> maxBytes then Inr (Inl None, w2) else Inr (Inr j, w2)
       else bnd (connection_takeLine net c (nat (i + 1)) w2) (\<lambda>(line, w3). Inr (Inl line, w3)))"
      using a(1) b(1) f(1) 3 by (simp add: connection_readLine_try_def Let_def)
    from take_found [OF bs2(2) _ _ f(2)] keep [OF g]
    consider "i = -1" "LF \<notin> set (take j (queued w2))" "j \<le> length (queued w2)"
      | m where "i = int m" "m < ?n" "m < length (queued w2)" "queued w2 ! m = LF" "LF \<notin> set (take m (queued w2))"
      by blast
    then show ?thesis
    proof cases
      case 1
      then show ?thesis using g unfolding attempt by (auto simp: line_taken_def)
    next
      case (2 m)
      have "m < maxBytes" using 2(2) by (auto split: if_splits)
      from takeLine_ok [OF laws 2(3-5) this] obtain r w' where
        "connection_takeLine net c (Suc m) w2 = Inr (r, w')" "line_taken queued maxBytes w2 r w'" by blast
      moreover have "nat (i + 1) = Suc m" using 2(1) by simp
      ultimately show ?thesis using 2(1) line_taken_grows [OF g] unfolding attempt by auto
    qed
  qed
qed

text \<open>C36. Reading a line from a socket or a TLS stream always returns, without a fault, after at most seven
  polls. Either it returns nothing and leaves every byte in place, or it returns the first line of what the
  peer has sent, without trailing white space, and consumes that line and its newline and nothing else.\<close>

theorem connection_readLine_takes_one_line:
  assumes "stream_laws net c queued" and "conn_sourceAddress c \<noteq> None"
  shows "\<exists>r w'. connection_readLine net c timeout maxBytes w = Inr (r, w')
    \<and> (case r of
         None \<Rightarrow> \<exists>more. queued w' = queued w @ more
       | Some line \<Rightarrow> \<exists>raw more k. queued w @ more = raw @ LF # queued w' \<and> LF \<notin> set raw
           \<and> length raw < maxBytes \<and> line = pad (rtrim raw) k \<and> 0 < k)"
proof -
  define I where "I off w' \<longleftrightarrow> grows queued w w' \<and> LF \<notin> set (take off (queued w')) \<and> off \<le> length (queued w')"
    for off w'
  have keep: "I off w2" if "I off w1" "grows queued w1 w2" for off w1 w2
    using that unfolding I_def grows_def by auto
  have "\<exists>r w'. connection_readLine_loop net c timeout maxBytes 0 0 w = Inr (r, w') \<and> line_taken queued maxBytes w r w'"
  proof (rule line_loop.loop_returns [where I = I])
    show "I off (snd (connection_pollForData net c timeout w1))" if "I off w1" for off w1
      using keep [OF that] poll_grows [OF assms(1)] by blast
    show "\<exists>r w'. connection_readLine_try net c maxBytes off w1 = Inr (r, w')
        \<and> (case r of Inl x \<Rightarrow> line_taken queued maxBytes w x w' | Inr off' \<Rightarrow> I off' w')" if "I off w1" for off w1
      using that readLine_try_ok [OF assms, of off w1 maxBytes] line_taken_grows [of queued w w1]
        grows_trans [of queued w w1] unfolding I_def by (fastforce split: sum.splits)
    show "line_taken queued maxBytes w None w1" if "I off w1" for off w1
      using that by (simp add: I_def line_taken_def)
  qed (simp add: I_def)
  then show ?thesis unfolding connection_readLine_def line_taken_def grows_def .
qed

section \<open>Reading a body\<close>

definition body_taken :: "('w \<Rightarrow> bytes) \<Rightarrow> nat \<Rightarrow> 'w \<Rightarrow> string_t option \<Rightarrow> 'w \<Rightarrow> bool" where
  "body_taken queued n w r w' \<longleftrightarrow>
     (case r of
        None \<Rightarrow> grows queued w w'
      | Some body \<Rightarrow> \<exists>bs more. body = str bs \<and> length bs = n \<and> queued w @ more = bs @ queued w')"

lemma body_taken_grows: "grows queued w w1 \<Longrightarrow> body_taken queued m w1 r w2 \<Longrightarrow> body_taken queued m w r w2"
  by (auto simp: body_taken_def grows_def split: option.splits)

lemma read_try_ok:
  assumes laws: "stream_laws net c queued" "conn_sourceAddress c \<noteq> None"
  shows "\<exists>r w'. connection_read_try net c n w = Inr (r, w')
    \<and> (case r of Inl body \<Rightarrow> body_taken queued n w body w' | Inr _ \<Rightarrow> grows queued w w')"
proof -
  obtain a w1 where a: "connection_getAvailableBytes net c w = Inr (a, w1)" "grows queued w w1" "a \<le> int (length (queued w1))"
    using available_grows [OF laws] by blast
  obtain b n' w2 where b: "connection_readEither net c n READ_FLAGS_NONE w1 = Inr ((b, n'), w2)"
    "case b of None \<Rightarrow> grows queued w1 w2
       | Some b \<Rightarrow> \<exists>bs rest. b = bs @ rest \<and> n' = length bs
                    \<and> delivers queued n (READ_FLAGS_NONE = READ_FLAGS_PEEK) bs w1 w2"
    using readEither_delivers [OF laws, of n READ_FLAGS_NONE w1] by blast
  have step: "body_taken queued n w1 None w2" if "b = None"
    using b(2) that by (simp add: body_taken_def)
  have step': "\<exists>s. string_fromBufferWithLength b n' = Inr s \<and> body_taken queued n w1 (Some s) w2"
    if b': "b = Some b'" "n \<le> length (queued w1)" for b'
  proof -
    obtain bs rest where bs: "b' = bs @ rest" "n' = length bs" "delivers queued n False bs w1 w2"
      using b(2) b'(1) by auto
    then show ?thesis
      using b' delivers_prefix [OF bs(3)] fromBufferWithLength_prefix [of bs rest] by (auto simp: body_taken_def)
  qed
  show ?thesis
  proof (cases "a \<le> 0 \<or> nat a < n")
    case True
    then show ?thesis using a by (auto simp: connection_read_try_def body_taken_def)
  next
    case False
    then have "connection_read_try net c n w = (if b = None then Inr (Inl None, w2)
         else bnd (string_fromBufferWithLength b n') (\<lambda>s. Inr (Inl (Some s), w2)))"
      using a(1) b(1) by (simp add: connection_read_try_def)
    moreover have "n \<le> length (queued w1)" using False a(3) by linarith
    ultimately show ?thesis using step step' body_taken_grows [OF a(2)] by (cases b) auto
  qed
qed

text \<open>Reading a body always returns, without a fault: either nothing, and every byte stays in place, or
  exactly as many of the next bytes the peer has sent as were asked for, in order; they are consumed, and the
  bytes behind them stay for the next read.\<close>

theorem connection_read_takes_body:
  assumes "stream_laws net c queued" and "conn_sourceAddress c \<noteq> None"
  shows "\<exists>r w'. connection_read net c timeout n w = Inr (r, w')
    \<and> (case r of
         None \<Rightarrow> \<exists>more. queued w' = queued w @ more
       | Some body \<Rightarrow> \<exists>bs more. body = str bs \<and> length bs = n \<and> queued w @ more = bs @ queued w')"
proof -
  have "\<exists>r w'. connection_read_loop net c timeout n 0 w = Inr (r, w') \<and> body_taken queued n w r w'"
  proof (rule body_loop.loop_returns [where I = "\<lambda>_ w1. grows queued w w1" and s = "()"])
    show "grows queued w (snd (connection_pollForData net c timeout w1))" if "grows queued w w1" for w1
      using grows_trans [OF that] poll_grows [OF assms(1)] by blast
    show "\<exists>r w'. connection_read_try net c n w1 = Inr (r, w')
        \<and> (case r of Inl x \<Rightarrow> body_taken queued n w x w' | Inr _ \<Rightarrow> grows queued w w')" if "grows queued w w1" for w1
      using read_try_ok [OF assms, of n w1] body_taken_grows [OF that] grows_trans [OF that]
      by (fastforce split: sum.splits)
  qed (simp_all add: body_taken_def)
  then show ?thesis unfolding connection_read_def body_taken_def grows_def .
qed

section \<open>A line that is there is returned\<close>

text \<open>
  A plain socket with data: polling reports it, the number of bytes reported is at least what was there
  before, and a read does not fail.
\<close>

definition socket_ready :: "'w net \<Rightarrow> connection_t \<Rightarrow> ('w \<Rightarrow> bytes) \<Rightarrow> bool" where
  "socket_ready net c queued \<longleftrightarrow>
     conn_ssl c = None
   \<and> (\<forall>t w. queued w \<noteq> [] \<longrightarrow> fst (net_poll net (conn_socket c) t w) = 1)
   \<and> (\<forall>w. \<exists>n. fst (net_fionread net (conn_socket c) w) = Inr (int n) \<and> length (queued w) \<le> n)
   \<and> (\<forall>n peek w. queued w \<noteq> [] \<longrightarrow> \<not> isl (fst (net_recv net (conn_socket c) n peek w)))"

lemma findNextChar_reach:
  assumes "NUL \<notin> set raw" and "needle \<notin> set raw" and "needle \<noteq> NUL"
  shows "string_findNextChar (at (pad (pre @ raw @ needle # ys) k) (length pre)) needle
    = Inr (int (length pre + length raw), at (pad (pre @ raw @ needle # ys) k) (Suc (length pre + length raw)))"
  using assms
proof (induction raw arbitrary: pre)
  case Nil
  then show ?case by (subst string_findNextChar.simps) (simp add: getNextChar_at)
next
  case (Cons x raw)
  then have "x \<noteq> NUL" "x \<noteq> needle" by auto
  with Cons.IH [of "pre @ [x]"] Cons.prems show ?case
    by (subst string_findNextChar.simps) (simp add: getNextChar_at nth_append)
qed

lemma findLine_reach:
  assumes "NUL \<notin> set raw" and "LF \<notin> set raw" and "bs = raw @ LF # ys"
  shows "\<exists>j. connection_findLine (Some (bs @ rest)) (length bs) 0 = Inr (int (Suc (length raw)), j)"
  using findNextChar_reach [OF assms(1,2), of "[]" ys "Suc 0"] fromBufferWithLength_prefix [of bs rest]
  by (simp add: connection_findLine_def assms(3) string_setOffset_def string_getOffset_def)

text \<open>A read on a socket with data delivers.\<close>

lemma readEither_ready:
  assumes "stream_laws net c queued" and "socket_ready net c queued" and "queued w \<noteq> []" and "0 < n"
  shows "\<exists>bs rest w'. connection_readEither net c n flags w = Inr ((Some (bs @ rest), length bs), w')
    \<and> delivers queued n (flags = READ_FLAGS_PEEK) bs w w'"
proof -
  let ?p = "flags = READ_FLAGS_PEEK"
  have ssl: "conn_ssl c = None" using assms(2) by (simp add: socket_ready_def)
  obtain bs w' where r: "net_recv net (conn_socket c) n ?p w = (Inr bs, w')"
    using assms(2,3) unfolding socket_ready_def by (metis isl_def obj_sumE prod.collapse)
  then have d: "delivers queued n ?p bs w w'"
    using assms(1) ssl unfolding stream_laws_def by (auto split: prod.splits sum.splits)
  then have "length bs \<le> n" "bs \<noteq> []" using assms(3,4) by (auto simp: delivers_def)
  then show ?thesis using r d ssl
    by (auto simp: connection_readEither_def connection_readBytes_def fill_buffer_eq)
qed

lemma poll_ready:
  assumes "stream_laws net c queued" and "socket_ready net c queued" and "queued w \<noteq> []"
  shows "\<exists>w'. connection_pollForData net c timeout w = (True, w') \<and> grows queued w w'"
proof -
  obtain w' where "net_poll net (conn_socket c) timeout w = (1, w')"
    using assms(2,3) unfolding socket_ready_def by (metis prod.collapse)
  then show ?thesis using assms poll_grows [OF assms(1), of w timeout]
    by (simp add: connection_pollForData_def socket_ready_def)
qed

lemma available_ready:
  assumes "stream_laws net c queued" and "conn_sourceAddress c \<noteq> None" and "socket_ready net c queued"
  shows "\<exists>n w'. connection_getAvailableBytes net c w = Inr (int n, w') \<and> length (queued w) \<le> n \<and> grows queued w w'"
proof -
  obtain n w' where "net_fionread net (conn_socket c) w = (Inr (int n), w')" "length (queued w) \<le> n"
    using assms(3) unfolding socket_ready_def by (metis prod.collapse)
  then show ?thesis using assms available_grows [OF assms(1,2), of w]
    by (auto simp: connection_getAvailableBytes_def socket_ready_def)
qed

lemma takeLine_ready:
  assumes "stream_laws net c queued" and "socket_ready net c queued" and "queued w = raw @ LF # rest"
  shows "\<exists>k w' more. connection_takeLine net c (Suc (length raw)) w = Inr (Some (pad (rtrim raw) k), w')
    \<and> 0 < k \<and> queued w' = rest @ more"
proof -
  obtain bs tl w' where t: "connection_readEither net c (Suc (length raw)) READ_FLAGS_NONE w = Inr ((Some (bs @ tl), length bs), w')"
    "delivers queued (Suc (length raw)) False bs w w'"
    using readEither_ready [OF assms(1,2), of w "Suc (length raw)" READ_FLAGS_NONE] assms(3) by auto
  then have "bs = raw @ [LF]" "\<exists>more. queued w' = rest @ more"
    using assms(3) by (auto simp: delivers_def)
  then show ?thesis
    using t(1) fromBufferWithLength_prefix [of bs tl] by (auto simp: connection_takeLine_def trimEnd_pad)
qed

lemma grows_line: "grows queued w w' \<Longrightarrow> queued w = raw @ LF # rest \<Longrightarrow> \<exists>more. queued w' = raw @ LF # rest @ more"
  by (auto simp: grows_def)

text \<open>When a whole line without zero bytes, shorter than the limit, has arrived on a plain socket, reading a
  line returns it (without trailing white space) at the first poll, and leaves what follows it.\<close>

lemma readLine_ready:
  assumes laws: "stream_laws net c queued" "conn_sourceAddress c \<noteq> None" "socket_ready net c queued"
    and line: "queued w = raw @ LF # rest" "NUL \<notin> set raw" "LF \<notin> set raw" "length raw < maxBytes"
  shows "\<exists>k w' more. connection_readLine net c timeout maxBytes w = Inr (Some (pad (rtrim raw) k), w')
    \<and> 0 < k \<and> queued w' = rest @ more"
proof -
  obtain w1 where p: "connection_pollForData net c timeout w = (True, w1)" "grows queued w w1"
    using poll_ready [OF laws(1,3), of w timeout] line(1) by auto
  obtain m1 where q1: "queued w1 = raw @ LF # rest @ m1" using grows_line [OF p(2) line(1)] by blast
  obtain a w2 where a: "connection_getAvailableBytes net c w1 = Inr (int a, w2)" "length (queued w1) \<le> a" "grows queued w1 w2"
    using available_ready [OF laws] by blast
  define n where "n = (if a \<ge> maxBytes then maxBytes else a)"
  have n: "length raw < n" "0 < n" "0 < a" using a(2) q1 line(4) by (auto simp: n_def)
  obtain m2 where q2: "queued w2 = raw @ LF # rest @ m2" using grows_line [OF a(3) q1] by auto
  obtain bs tl w3 where b: "connection_readEither net c n READ_FLAGS_PEEK w2 = Inr ((Some (bs @ tl), length bs), w3)"
    and d: "delivers queued n True bs w2 w3"
    using readEither_ready [OF laws(1,3) _ n(2), of w2 READ_FLAGS_PEEK] q2 by auto
  obtain m3 where q3: "queued w3 = raw @ LF # rest @ m3" "bs = take n (queued w3)"
    using grows_line [OF conjunct1 [OF delivers_peek [OF d]] q2] delivers_peek [OF d] by auto
  then have "bs = raw @ LF # take (n - Suc (length raw)) (rest @ m3)" using n(1) by (simp add: take_Cons')
  from findLine_reach [OF line(2,3) this] obtain j where
    f: "connection_findLine (Some (bs @ tl)) (length bs) 0 = Inr (int (Suc (length raw)), j)" by blast
  obtain k w4 m4 where t: "connection_takeLine net c (Suc (length raw)) w3 = Inr (Some (pad (rtrim raw) k), w4)"
    "0 < k" "queued w4 = rest @ m4"
    using takeLine_ready [OF laws(1,3) q3(1)] by auto
  have "connection_readLine_try net c maxBytes 0 w1 = Inr (Inl (Some (pad (rtrim raw) k)), w4)"
    using a(1) b f t(1) n(3)
    by (cases "maxBytes \<le> a") (simp_all add: connection_readLine_try_def Let_def n_def nat_add_distrib)
  from line_loop.loop_first [OF _ p(1) this, of 0] show ?thesis
    using t(2,3) by (simp add: connection_readLine_def)
qed

section \<open>What reading leaves alone\<close>

text \<open>A part \<open>f\<close> of the outside world that no call for reading changes, for example the bytes sent so far.\<close>

definition reads_keep :: "'w net \<Rightarrow> connection_t \<Rightarrow> ('w \<Rightarrow> 'a) \<Rightarrow> bool" where
  "reads_keep net c f \<longleftrightarrow>
     (\<forall>t w. f (snd (net_poll net (conn_socket c) t w)) = f w)
   \<and> (\<forall>w. f (snd (net_fionread net (conn_socket c) w)) = f w)
   \<and> (\<forall>n peek w. f (snd (net_recv net (conn_socket c) n peek w)) = f w)
   \<and> (\<forall>ssl n w. f (snd (net_SSL_peek_ex net ssl n w)) = f w \<and> f (snd (net_SSL_read_ex net ssl n w)) = f w)"

lemma poll_keeps: "reads_keep net c f \<Longrightarrow> f (snd (connection_pollForData net c t w)) = f w"
  by (auto simp: reads_keep_def connection_pollForData_def split: prod.split) (metis snd_conv)+

lemma readBytes_keeps:
  "reads_keep net c f \<Longrightarrow> connection_readBytes net c n flags w = Inr (x, w') \<Longrightarrow> f w' = f w"
  by (auto simp: reads_keep_def connection_readBytes_def fill_buffer_def exec_simps split: prod.split_asm sum.split_asm if_split_asm)
    (metis snd_conv)+

lemma readSSLBytes_keeps:
  "reads_keep net c f \<Longrightarrow> connection_readSSLBytes net c ssl n flags w = Inr (x, w') \<Longrightarrow> f w' = f w"
  by (auto simp: reads_keep_def connection_readSSLBytes_def fill_buffer_def exec_simps split: prod.split_asm option.split_asm if_split_asm)
    (metis snd_conv)+

lemma readEither_keeps:
  "reads_keep net c f \<Longrightarrow> connection_readEither net c n flags w = Inr (x, w') \<Longrightarrow> f w' = f w"
  by (cases "conn_ssl c") (simp_all add: connection_readEither_def, rule readBytes_keeps, assumption+, rule readSSLBytes_keeps)

lemma available_keeps:
  "reads_keep net c f \<Longrightarrow> connection_getAvailableBytes net c w = Inr (x, w') \<Longrightarrow> f w' = f w"
proof (cases "conn_ssl c")
  case None
  assume "reads_keep net c f" "connection_getAvailableBytes net c w = Inr (x, w')"
  then show ?thesis
    using None unfolding reads_keep_def connection_getAvailableBytes_def
    by (auto split: prod.split_asm sum.split_asm) (metis snd_conv)+
next
  case (Some ssl)
  assume "reads_keep net c f" "connection_getAvailableBytes net c w = Inr (x, w')"
  then show ?thesis
    using Some unfolding connection_getAvailableBytes_def Let_def
    by (simp add: bnd_eq_Inr split: if_split_asm) (elim exE conjE, rule readSSLBytes_keeps)
qed

lemma takeLine_keeps:
  "reads_keep net c f \<Longrightarrow> connection_takeLine net c n w = Inr (x, w') \<Longrightarrow> f w' = f w"
  by (auto simp: connection_takeLine_def exec_simps split: if_split_asm dest: readEither_keeps)

lemma readLine_keeps:
  assumes "reads_keep net c f" and "connection_readLine net c timeout maxBytes w = Inr (x, w')"
  shows "f w' = f w"
proof (rule line_loop.loop_keeps [where f = f, OF _ _ assms(2) [unfolded connection_readLine_def]])
  show "f (snd (connection_pollForData net c timeout w)) = f w" for w
    using assms(1) by (rule poll_keeps)
  show "f w2 = f w1" if "connection_readLine_try net c maxBytes s w1 = Inr (r, w2)" for s w1 r w2
    using that
    by (auto simp: connection_readLine_try_def exec_simps Let_def split: if_split_asm
        dest!: available_keeps [OF assms(1)] readEither_keeps [OF assms(1)] takeLine_keeps [OF assms(1)])
qed

lemma read_keeps:
  assumes "reads_keep net c f" and "connection_read net c timeout n w = Inr (x, w')"
  shows "f w' = f w"
proof (rule body_loop.loop_keeps [where f = f, OF _ _ assms(2) [unfolded connection_read_def]])
  show "f (snd (connection_pollForData net c timeout w)) = f w" for w
    using assms(1) by (rule poll_keeps)
  show "f w2 = f w1" if "connection_read_try net c n w1 = Inr (r, w2)" for s w1 r w2
    using that
    by (auto simp: connection_read_try_def exec_simps split: if_split_asm
        dest!: available_keeps [OF assms(1)] readEither_keeps [OF assms(1)])
qed

section \<open>Recognising TLS and writing\<close>

text \<open>When at least six bytes have arrived, a connection counts as TLS exactly when they start a TLS
  handshake record with a client hello, and no byte is consumed by looking.\<close>

theorem connection_isSSL_client_hello:
  assumes "stream_laws net c queued" and "socket_ready net c queued" and "6 \<le> length (queued w)"
  shows "\<exists>w' more. connection_isSSL net c w = Inr (queued w ! 0 = CHR 0x16 \<and> queued w ! 5 = CHR 0x01, w')
    \<and> queued w' = queued w @ more"
proof -
  obtain bs tl w' where r: "connection_readEither net c 6 READ_FLAGS_PEEK w = Inr ((Some (bs @ tl), length bs), w')"
    and d: "delivers queued 6 True bs w w'"
    using readEither_ready [OF assms(1,2), of w 6 READ_FLAGS_PEEK] assms(3) by fastforce
  have bs: "bs = take 6 (queued w)" "\<exists>more. queued w' = queued w @ more"
    using d assms(3) by (auto simp: delivers_def)
  have "conn_ssl c = None" using assms(2) by (simp add: socket_ready_def)
  then show ?thesis using r bs assms(3)
    by (auto simp: connection_isSSL_def connection_readEither_def load_def nth_append)
qed

text \<open>\<open>sent w\<close> are the bytes the peer was sent: a successful send transmits a prefix of the bytes it was given.\<close>

definition send_laws :: "'w net \<Rightarrow> connection_t \<Rightarrow> ('w \<Rightarrow> bytes) \<Rightarrow> bool" where
  "send_laws net c sent \<longleftrightarrow>
     (case conn_ssl c of
        None \<Rightarrow> \<forall>bs w. (case net_send net (conn_socket c) bs w of
            (Inl e, w') \<Rightarrow> sent w' = sent w
          | (Inr k, w') \<Rightarrow> k \<le> length bs \<and> sent w' = sent w @ take k bs)
      | Some ssl \<Rightarrow> \<forall>bs w. (case net_SSL_write_ex net ssl bs w of
            ((status, k), w') \<Rightarrow> 0 \<le> status \<and> k \<le> length bs \<and> sent w' = sent w @ take k bs))"

lemma connection_write_sends:
  assumes laws: "send_laws net c sent" "conn_sourceAddress c \<noteq> None" and "NUL \<in> set b"
  shows "\<exists>k w'. connection_write net c (Some b) n w = Inr (k, w') \<and> k \<le> length (cstr b) \<and> sent w' = sent w @ take k (cstr b)"
proof -
  have "take (length (cstr b)) b = cstr b" by (simp add: cstr_def takeWhile_eq_take [symmetric])
  then have w: "connection_write net c (Some b) n w = (case conn_ssl c of
         None \<Rightarrow>
           (case net_send net (conn_socket c) (cstr b) w of (Inl e, w') \<Rightarrow> Inr (0, w') | (Inr bytesSent, w') \<Rightarrow> Inr (bytesSent, w'))
       | Some ssl \<Rightarrow>
           (case net_SSL_write_ex net ssl (cstr b) w of
              ((status, bytesSent), w') \<Rightarrow> if status < 0 then Inr (0, w') else Inr (bytesSent, w')))"
    using assms(2,3) by (auto simp: connection_write_def strlen_def split: option.split)
  show ?thesis
  proof (cases "conn_ssl c")
    case None
    obtain r w' where r: "net_send net (conn_socket c) (cstr b) w = (r, w')" by fastforce
    have "case net_send net (conn_socket c) (cstr b) w of (Inl e, w') \<Rightarrow> sent w' = sent w
      | (Inr k, w') \<Rightarrow> k \<le> length (cstr b) \<and> sent w' = sent w @ take k (cstr b)"
      using laws(1) None by (simp add: send_laws_def)
    then show ?thesis using None r unfolding w by (cases r) auto
  next
    case (Some ssl)
    obtain st k w' where "net_SSL_write_ex net ssl (cstr b) w = ((st, k), w')" by (metis surj_pair)
    then show ?thesis using laws(1) Some unfolding w send_laws_def by (fastforce split: prod.splits)
  qed
qed

text \<open>Whatever size the caller passes, only a prefix of the bytes before the first zero byte of the buffer
  is sent, and the number returned is the length of that prefix.\<close>

theorem connection_write_cut_at_zero:
  assumes "send_laws net c sent" and "conn_sourceAddress c \<noteq> None" and "NUL \<notin> set xs"
  shows "\<exists>k w'. connection_write net c (Some (xs @ NUL # ys)) n w = Inr (k, w')
    \<and> k \<le> length xs \<and> sent w' = sent w @ take k xs"
  using connection_write_sends [OF assms(1,2), of "xs @ NUL # ys" n w] assms(3) by simp

section \<open>A scripted socket\<close>

text \<open>
  A socket on which every poll lets the next piece of a script arrive. It satisfies the laws, so that the
  theorems can be applied to concrete conversations.
\<close>

record script =
  sc_queue :: bytes
  sc_future :: "bytes list"
  sc_sent :: bytes

definition script_poll :: "int \<Rightarrow> int \<Rightarrow> script \<Rightarrow> int \<times> script" where
  "script_poll fd timeout w =
     (case sc_future w of
        [] \<Rightarrow> (if sc_queue w = [] then 0 else 1, w)
      | piece # rest \<Rightarrow> (1, w\<lparr>sc_queue := sc_queue w @ piece, sc_future := rest\<rparr>))"

definition script_net :: "script net" where
  "script_net =
     \<lparr>net_poll = script_poll,
      net_fionread = (\<lambda>fd w. (Inr (int (length (sc_queue w))), w)),
      net_recv = (\<lambda>fd n peek w. if sc_queue w = [] then (Inl EAGAIN, w)
        else (Inr (take n (sc_queue w)), if peek then w else w\<lparr>sc_queue := drop n (sc_queue w)\<rparr>)),
      net_send = (\<lambda>fd bs w. (Inr (length bs), w\<lparr>sc_sent := sc_sent w @ bs\<rparr>)),
      net_shutdown = (\<lambda>fd w. (None, w)), net_close = (\<lambda>fd w. (None, w)),
      net_SSL_pending = (\<lambda>ssl w. int (length (sc_queue w))),
      net_SSL_peek_ex = (\<lambda>ssl n w. if sc_queue w = [] then (None, w) else (Some (take n (sc_queue w)), w)),
      net_SSL_read_ex = (\<lambda>ssl n w. if sc_queue w = [] then (None, w)
        else (Some (take n (sc_queue w)), w\<lparr>sc_queue := drop n (sc_queue w)\<rparr>)),
      net_SSL_write_ex = (\<lambda>ssl bs w. ((1, length bs), w\<lparr>sc_sent := sc_sent w @ bs\<rparr>)),
      net_SSL_free = (\<lambda>ssl w. w), net_LOGGING_LEVEL = 5\<rparr>"

definition script_connection :: connection_t where
  "script_connection =
     connection_setSourceAddress (connection_setSocket connection_create 4) (Some (str ''10.0.0.1''))"

lemma script_laws:
  "stream_laws script_net script_connection sc_queue" "socket_ready script_net script_connection sc_queue"
  "send_laws script_net script_connection sc_sent" "conn_sourceAddress script_connection \<noteq> None"
  "reads_keep script_net script_connection sc_sent"
  by (auto simp: reads_keep_def stream_laws_def socket_ready_def send_laws_def script_net_def script_poll_def script_connection_def
      grows_def delivers_def connection_create_def connection_setSocket_def connection_setSourceAddress_def
      split: list.splits)

theorem connection_readLine_takes_one_line_witness:
  "\<exists>r w'. connection_readLine script_net script_connection 1000 100 \<lparr>sc_queue = ''GE'', sc_future = [], sc_sent = []\<rparr> = Inr (r, w')
    \<and> (case r of None \<Rightarrow> \<exists>more. sc_queue w' = ''GE'' @ more
       | Some line \<Rightarrow> \<exists>raw more k. ''GE'' @ more = raw @ LF # sc_queue w' \<and> line = pad (rtrim raw) k)"
  using connection_readLine_takes_one_line [OF script_laws(1,4), of 1000 100 "\<lparr>sc_queue = ''GE'', sc_future = [], sc_sent = []\<rparr>"]
  by (fastforce split: option.splits)

theorem connection_read_takes_body_witness:
  "\<exists>r w'. connection_read script_net script_connection 1000 3 \<lparr>sc_queue = ''abcde'', sc_future = [], sc_sent = []\<rparr> = Inr (r, w')
    \<and> (\<forall>body. r = Some body \<longrightarrow> (\<exists>bs more. body = str bs \<and> length bs = 3 \<and> ''abcde'' @ more = bs @ sc_queue w'))"
  using connection_read_takes_body [OF script_laws(1,4), of 1000 3 "\<lparr>sc_queue = ''abcde'', sc_future = [], sc_sent = []\<rparr>"]
  by (fastforce split: option.splits)

theorem connection_isSSL_client_hello_witness:
  "\<exists>w' more. connection_isSSL script_net script_connection
      \<lparr>sc_queue = [CHR 0x16, CHR 0x03, CHR 0x01, NUL, CHR 0x09, CHR 0x01], sc_future = [], sc_sent = []\<rparr> = Inr (True, w')
    \<and> sc_queue w' = [CHR 0x16, CHR 0x03, CHR 0x01, NUL, CHR 0x09, CHR 0x01] @ more"
  using connection_isSSL_client_hello [OF script_laws(1,2), of "\<lparr>sc_queue = [CHR 0x16, CHR 0x03, CHR 0x01, NUL, CHR 0x09, CHR 0x01], sc_future = [], sc_sent = []\<rparr>"]
  by simp

theorem connection_write_cut_at_zero_witness:
  "\<exists>k w'. connection_write script_net script_connection (Some (''ab'' @ NUL # ''cd'' @ [NUL])) 5
      \<lparr>sc_queue = [], sc_future = [], sc_sent = []\<rparr> = Inr (k, w') \<and> k \<le> 2 \<and> sc_sent w' = take k ''ab''"
  using connection_write_cut_at_zero [OF script_laws(3,4), of "''ab''" "''cd'' @ [NUL]" 5 "\<lparr>sc_queue = [], sc_future = [], sc_sent = []\<rparr>"]
  by (simp add: numeral_2_eq_2)

end
