(* ===== verification/Cgi.thy ===== *)
theory Cgi
  imports Connection Url
begin

text \<open>
  The CGI processes of \<^verbatim>\<open>src/cgi/cgi.c\<close>: three pipes, a fork, the strings of the environment that the child
  passes to \<^verbatim>\<open>execve\<close>, reading the answer until the pipe is empty, and releasing the process. The system
  calls are the fields of \<open>os\<close>, functions on the state \<open>'w\<close> of the world outside.
\<close>

section \<open>Processes\<close>

record 'w os =
  os_pipe :: "'w \<Rightarrow> (int \<times> int) option \<times> 'w"
  os_fork :: "'w \<Rightarrow> int \<times> 'w"
  os_dup2 :: "int \<Rightarrow> int \<Rightarrow> 'w \<Rightarrow> int option \<times> 'w"
  os_close :: "int \<Rightarrow> 'w \<Rightarrow> 'w"
  os_poll :: "int \<Rightarrow> nat \<Rightarrow> 'w \<Rightarrow> int \<times> 'w"
  os_fionread :: "int \<Rightarrow> 'w \<Rightarrow> nat option \<times> 'w"
  os_read :: "int \<Rightarrow> nat \<Rightarrow> 'w \<Rightarrow> bytes option \<times> 'w"
  os_write :: "int \<Rightarrow> bytes \<Rightarrow> 'w \<Rightarrow> nat option \<times> 'w"
  os_kill :: "int \<Rightarrow> 'w \<Rightarrow> 'w"
  os_waitpid :: "int \<Rightarrow> bool \<Rightarrow> 'w \<Rightarrow> (int \<times> int) \<times> 'w"

text \<open>A pipe is the pair of its reading and its writing end.\<close>

record cgi_process_t =
  cgi_pid :: int
  cgi_stdin :: "int \<times> int"
  cgi_stdout :: "int \<times> int"
  cgi_stderr :: "int \<times> int"

text \<open>The structure is allocated but not cleared.\<close>

definition cgi_malloc :: cgi_process_t where
  "cgi_malloc = undefined"

definition STDIN_FILENO :: int where "STDIN_FILENO = 0"
definition STDOUT_FILENO :: int where "STDOUT_FILENO = 1"
definition STDERR_FILENO :: int where "STDERR_FILENO = 2"

definition cgi_closeProcess :: "'w os \<Rightarrow> cgi_process_t \<Rightarrow> 'w \<Rightarrow> 'w" where
  "cgi_closeProcess os process w =
     fold (os_close os)
       [fst (cgi_stdin process), snd (cgi_stdin process), fst (cgi_stdout process), snd (cgi_stdout process),
        fst (cgi_stderr process), snd (cgi_stderr process)]
       (os_kill os (cgi_pid process) w)"

definition cgi_freeProcess :: "'w os \<Rightarrow> cgi_process_t \<Rightarrow> 'w \<Rightarrow> 'w" where
  "cgi_freeProcess os process w = cgi_closeProcess os process w"

section \<open>Starting a process\<close>

text \<open>
  \<^verbatim>\<open>fork\<close> returns in both processes: the parent gets a process (or nothing), the child ends by exiting or by
  executing the command with its arguments and environment.
\<close>

datatype spawned =
    Parent "cgi_process_t option"
  | ChildExits int
  | ChildExecs bytes "bytes list" "bytes list"

text \<open>The strings \<^verbatim>\<open>key=value\<close> of the environment, from entry \<open>i\<close> on.\<close>

fun cgi_environment :: "nat \<Rightarrow> nat \<Rightarrow> string_t hash_table_t \<Rightarrow> (bytes list \<times> string_t hash_table_t) exec" where
  "cgi_environment 0 i environment = Inr ([], environment)"
| "cgi_environment (Suc n) i environment =
     bnd (hash_table_getKeyByIndex environment i) (\<lambda>(key, t1).
     bnd (hash_table_getValueByIndex t1 i) (\<lambda>(value, t2).
     bnd (deref key) (\<lambda>k.
     bnd (string_fromBufferWithLength (string_getBuffer k) (string_getSize k)) (\<lambda>s0.
     bnd (string_appendChar s0 (CHR ''='')) (\<lambda>s1.
     bnd (deref value) (\<lambda>v.
     bnd (string_append s1 v) (\<lambda>keyValuePair.
     bnd (string_free (Some v)) (\<lambda>_.
     bnd (deref (string_getBuffer keyValuePair)) (\<lambda>b.
     bnd (cgi_environment n (Suc i) t2) (\<lambda>(bs, t).
       Inr (b # bs, t)))))))))))"

fun cgi_arguments :: "nat \<Rightarrow> nat \<Rightarrow> string_t list_t \<Rightarrow> (bytes list \<times> string_t list_t) exec" where
  "cgi_arguments 0 i arguments = Inr ([], arguments)"
| "cgi_arguments (Suc n) i arguments =
     bnd (list_getValue arguments i) (\<lambda>(argumentString, l1).
     bnd (deref argumentString) (\<lambda>s.
     bnd (deref (string_getBuffer s)) (\<lambda>b.
     bnd (cgi_arguments n (Suc i) l1) (\<lambda>(bs, l).
       Inr (b # bs, l)))))"

text \<open>The three redirections; the first one that fails makes the child exit with the error code.\<close>

fun cgi_redirect :: "'w os \<Rightarrow> ((int \<times> int) \<times> int \<times> int) list \<Rightarrow> 'w \<Rightarrow> int option \<times> 'w" where
  "cgi_redirect os [] w = (None, w)"
| "cgi_redirect os ((pipe, source, target) # rest) w =
     (case os_dup2 os source target w of
        (Some errno, w') \<Rightarrow> (Some errno, w')
      | (None, w') \<Rightarrow> cgi_redirect os rest (os_close os (snd pipe) (os_close os (fst pipe) w')))"

definition cgi_child ::
  "'w os \<Rightarrow> cgi_process_t \<Rightarrow> bytes \<Rightarrow> string_t list_t option \<Rightarrow> string_t hash_table_t option \<Rightarrow> 'w \<Rightarrow> (spawned \<times> 'w) exec" where
  "cgi_child os process command arguments environment w =
     (case cgi_redirect os
             [(cgi_stdin process, fst (cgi_stdin process), STDIN_FILENO),
              (cgi_stdout process, snd (cgi_stdout process), STDOUT_FILENO),
              (cgi_stderr process, snd (cgi_stderr process), STDERR_FILENO)] w of
        (Some errno, w1) \<Rightarrow> Inr (ChildExits errno, w1)
      | (None, w1) \<Rightarrow>
          bnd (case arguments of
                 None \<Rightarrow> Inr []
               | Some l \<Rightarrow> bnd (cgi_arguments (list_getLength l) 0 l) (\<lambda>(bs, l'). bnd (list_free l') (\<lambda>_. Inr bs))) (\<lambda>argv.
          bnd (case environment of
                 None \<Rightarrow> Inr []
               | Some t \<Rightarrow> bnd (cgi_environment (hash_table_getLength t) 0 t) (\<lambda>(bs, t').
                   bnd (hash_table_free t') (\<lambda>_. Inr bs))) (\<lambda>envp.
            Inr (ChildExecs command argv envp, w1))))"

definition cgi_spawn ::
  "'w os \<Rightarrow> bytes \<Rightarrow> string_t list_t option \<Rightarrow> string_t hash_table_t option \<Rightarrow> 'w \<Rightarrow> (spawned \<times> 'w) exec" where
  "cgi_spawn os command arguments environment w =
     (let process = cgi_malloc in
      case os_pipe os w of
        (None, w1) \<Rightarrow> Inr (Parent None, cgi_freeProcess os process w1)
      | (Some inp, w1) \<Rightarrow>
          (let process = process\<lparr>cgi_stdin := inp\<rparr> in
           case os_pipe os w1 of
             (None, w2) \<Rightarrow> Inr (Parent None, cgi_freeProcess os process w2)
           | (Some out, w2) \<Rightarrow>
               (let process = process\<lparr>cgi_stdout := out\<rparr> in
                case os_pipe os w2 of
                  (None, w3) \<Rightarrow> Inr (Parent None, cgi_freeProcess os process w3)
                | (Some err, w3) \<Rightarrow>
                    (case os_fork os w3 of (pid, w4) \<Rightarrow>
                       let process = process\<lparr>cgi_stderr := err, cgi_pid := pid\<rparr> in
                       if pid < 0 then Inr (Parent None, cgi_freeProcess os process w4)
                       else if pid = 0 then cgi_child os process command arguments environment w4
                       else Inr (Parent (Some process), os_close os (snd out) (os_close os (fst inp) w4))))))"

section \<open>Talking to a process\<close>

text \<open>
  Reading goes on as long as the process writes; a run that never ends is the fault \<open>Diverges\<close>. A poll that
  times out is tried again six times.
\<close>

partial_function (option) cgi_read_loop ::
  "'w os \<Rightarrow> int \<Rightarrow> nat \<Rightarrow> string_t \<Rightarrow> nat \<Rightarrow> 'w \<Rightarrow> (string_t option \<times> 'w) exec option" where
  "cgi_read_loop os fd timeout contents timeouts w =
     (case os_poll os fd timeout w of (status, w1) \<Rightarrow>
       if status \<le> -1 then Some (Inr (None, w1))
       else if status = 0 then
         if timeouts > 5 then Some (Inr (None, w1)) else cgi_read_loop os fd timeout contents (timeouts + 1) w1
       else
         (case os_fionread os fd w1 of
            (None, w2) \<Rightarrow> Some (Inr (None, w2))
          | (Some bytesAvailable, w2) \<Rightarrow>
              if bytesAvailable = 0 then Some (Inr (Some contents, w2))
              else
                (case os_read os fd bytesAvailable w2 of
                   (None, w3) \<Rightarrow> Some (Inr (None, w3))
                 | (Some bs, w3) \<Rightarrow>
                     (case bnd (memcpy (malloc bytesAvailable) 0 bs (length bs)) (\<lambda>buffer.
                             string_appendBufferWithLength contents buffer (length bs)) of
                        Inl e \<Rightarrow> Some (Inl e)
                      | Inr contents' \<Rightarrow> cgi_read_loop os fd timeout contents' timeouts w3))))"

definition cgi_read :: "'w os \<Rightarrow> cgi_process_t \<Rightarrow> nat \<Rightarrow> 'w \<Rightarrow> (string_t option \<times> 'w) exec" where
  "cgi_read os process timeout w =
     (case cgi_read_loop os (fst (cgi_stdout process)) timeout string_create 0 w of
        None \<Rightarrow> Inl Diverges
      | Some r \<Rightarrow> r)"

definition cgi_write :: "'w os \<Rightarrow> cgi_process_t \<Rightarrow> bytes option \<Rightarrow> nat \<Rightarrow> 'w \<Rightarrow> (nat \<times> 'w) exec" where
  "cgi_write os process buffer bufferSize w =
     bnd (deref buffer) (\<lambda>b.
       if length b < bufferSize then Inl OutOfBounds
       else
         (case os_write os (snd (cgi_stdin process)) (take bufferSize b) w of
            (None, w') \<Rightarrow> Inr (0, w')
          | (Some bytesSent, w') \<Rightarrow> Inr (bytesSent, w')))"

definition cgi_flushStdin :: "'w os \<Rightarrow> cgi_process_t \<Rightarrow> 'w \<Rightarrow> 'w" where
  "cgi_flushStdin os process w =
     os_close os (snd (cgi_stdin process)) (snd (os_write os (snd (cgi_stdin process)) [NUL] w))"

definition cgi_isAlive :: "'w os \<Rightarrow> cgi_process_t \<Rightarrow> 'w \<Rightarrow> bool \<times> 'w" where
  "cgi_isAlive os process w =
     (case os_waitpid os (cgi_pid process) True w of ((pid, status), w') \<Rightarrow> (pid = 0, w'))"

text \<open>\<^verbatim>\<open>WEXITSTATUS\<close> takes bits 8 to 15 of the status; the result is an \<^verbatim>\<open>int8_t\<close>.\<close>

definition WEXITSTATUS :: "int \<Rightarrow> int" where
  "WEXITSTATUS status = status div 256 mod 256"

definition to_int8 :: "int \<Rightarrow> int" where
  "to_int8 i = (i + 2 ^ 7) mod 2 ^ 8 - 2 ^ 7"

definition cgi_waitForExit :: "'w os \<Rightarrow> cgi_process_t \<Rightarrow> 'w \<Rightarrow> int \<times> 'w" where
  "cgi_waitForExit os process w =
     (case os_waitpid os (cgi_pid process) False w of ((pid, status), w') \<Rightarrow> (to_int8 (WEXITSTATUS status), w'))"

section \<open>The environment of the child\<close>

lemma environment_strings:
  assumes "ht_rep t es" and "list_all param_ok es" and "i + n = length es"
    and "i = 0 \<or> list_currentIndex t = i - 1"
  shows "\<exists>bs t'. cgi_environment n i t = Inr (bs, t') \<and> ht_rep t' es
    \<and> map cstr bs = map param_text (drop i es) \<and> list_all (\<lambda>b. NUL \<in> set b) bs"
  using assms
proof (induction n arbitrary: i t)
  case (Suc n)
  have i: "i < length es" using Suc.prems(3) by simp
  obtain t1 t2 where g: "hash_table_getKeyByIndex t i = Inr (Some (ent_key (es ! i)), t1)"
    "hash_table_getValueByIndex t1 i = Inr (ent_value (es ! i), t2)" "ht_rep t2 es" "list_currentIndex t2 = i"
    using param_at [OF Suc.prems(1) i Suc.prems(4)] by blast
  obtain bs t' where r: "cgi_environment n (Suc i) t2 = Inr (bs, t')" "ht_rep t' es"
    "map cstr bs = map param_text (drop (Suc i) es)" "list_all (\<lambda>b. NUL \<in> set b) bs"
    using Suc.IH [OF g(3) Suc.prems(2), of "Suc i"] g(4) Suc.prems(3) by auto
  have "param_ok (es ! i)" using Suc.prems(2) i by (simp add: list_all_length)
  then obtain kx kn v vx vn where k: "ent_key (es ! i) = pad kx kn" "0 < kn" "NUL \<notin> set kx"
    and v: "ent_value (es ! i) = Some v" "v = pad vx vn" "0 < vn" "NUL \<notin> set vx"
    by (auto simp: param_ok_def split: option.splits elim!: is_textE)
  have "cgi_environment (Suc n) i t = Inr ((kx @ ''='' @ vx @ [NUL]) # bs, t')"
    using g(1,2) r(1) k v
    by (simp add: string_getBuffer_def string_getSize_def fromBufferWithLength_eq appendChar_pad append_pad string_free_def)
  moreover have "param_text (es ! i) = kx @ ''='' @ vx" using k(1) v(1,2) by (simp add: param_text_def)
  moreover have "cstr (kx @ ''='' @ vx @ [NUL]) = kx @ ''='' @ vx"
    using cstr_append [of "kx @ ''='' @ vx" "[]"] k(3) v(4) by simp
  ultimately show ?case using r i by (auto simp: Cons_nth_drop_Suc [symmetric])
qed simp

text \<open>When the pipes and the fork succeed, the child replaces its standard streams and executes the command
  without arguments and with exactly one string \<^verbatim>\<open>key=value\<close> per entry of the environment, in the order in
  which the entries were set.\<close>

lemma child_environment:
  assumes "ht_rep t es" and "list_all param_ok es"
    and "os_pipe os w = (Some inp, w1)" and "os_pipe os w1 = (Some out, w2)" and "os_pipe os w2 = (Some err, w3)"
    and "os_fork os w3 = (0, w4)" and "\<forall>a b w. fst (os_dup2 os a b w) = None"
  shows "\<exists>envp w'. cgi_spawn os command None (Some t) w = Inr (ChildExecs command [] envp, w')
    \<and> map cstr envp = map param_text es"
proof -
  have dup: "\<exists>w'. cgi_redirect os ps w = (None, w')" for ps w
  proof (induction ps arbitrary: w)
    case (Cons p ps)
    obtain pipe a b where p: "p = (pipe, a, b)" by (cases p)
    obtain w' where "os_dup2 os a b w = (None, w')" using assms(7) by (metis prod.collapse)
    then show ?case using Cons.IH p by simp
  qed simp
  obtain bs t' where e: "cgi_environment (hash_table_getLength t) 0 t = Inr (bs, t')" "ht_rep t' es"
    "map cstr bs = map param_text es"
    using environment_strings [OF assms(1,2), of 0 "length es"] ht_rep_length [OF assms(1)] by auto
  have f: "hash_table_free t' = Inr Map.empty" using ht_rep_free [OF e(2)] .
  let ?p = "cgi_malloc\<lparr>cgi_stdin := inp, cgi_stdout := out, cgi_stderr := err, cgi_pid := 0\<rparr>"
  obtain w' where "cgi_redirect os [(cgi_stdin ?p, fst (cgi_stdin ?p), STDIN_FILENO),
      (cgi_stdout ?p, snd (cgi_stdout ?p), STDOUT_FILENO), (cgi_stderr ?p, snd (cgi_stderr ?p), STDERR_FILENO)] w4 = (None, w')"
    using dup by blast
  then have "cgi_child os ?p command None (Some t) w4 = Inr (ChildExecs command [] bs, w')"
    unfolding cgi_child_def by (simp only: option.case prod.case bnd_Inr e(1) f)
  then show ?thesis using assms(3-6) e(3) by (auto simp: cgi_spawn_def Let_def)
qed

section \<open>Reading the answer\<close>

text \<open>
  \<open>out w\<close> are the bytes in the pipe, \<open>left w\<close> bounds what the process can still produce. Reading takes bytes
  from the front of the pipe; a read of bytes that were reported delivers at least one. The process writes
  text, without zero bytes.
\<close>

definition pipe_laws :: "'w os \<Rightarrow> int \<Rightarrow> ('w \<Rightarrow> bytes) \<Rightarrow> ('w \<Rightarrow> nat) \<Rightarrow> bool" where
  "pipe_laws os fd out left \<longleftrightarrow>
     (\<forall>t w. case os_poll os fd t w of (status, w') \<Rightarrow> grows out w w' \<and> left w' \<le> left w)
   \<and> (\<forall>w. case os_fionread os fd w of (r, w') \<Rightarrow> grows out w w' \<and> left w' \<le> left w)
   \<and> (\<forall>n w. case os_read os fd n w of
        (None, w') \<Rightarrow> True
      | (Some bs, w') \<Rightarrow> delivers out n False bs w w' \<and> left w' + length bs \<le> left w \<and> (0 < n \<longrightarrow> bs \<noteq> []) \<and> NUL \<notin> set bs)"

lemma append_bytes_accum:
  assumes "NUL \<notin> set bs" and "length bs \<le> n"
  shows "bnd (memcpy (malloc n) 0 bs (length bs)) (\<lambda>b. string_appendBufferWithLength (accum a) b (length bs))
    = Inr (accum (accs a bs))"
proof -
  have "memcpy (malloc n) 0 bs (length bs) = Inr (bs @ malloc (n - length bs))"
    using assms(2) by (simp add: memcpy_def malloc_def)
  then show ?thesis
    using last_text [OF assms(1), of "malloc (n - length bs)"]
    by (cases a) (auto simp: accum_simps str_simps)
qed

lemma delivers_consumes:
  assumes "delivers queued n False bs w w'"
  shows "(\<exists>more. queued w @ more = bs @ queued w') \<and> length bs \<le> n"
proof -
  obtain more where "bs = take n (queued w @ more)" "queued w' = drop n (queued w @ more)"
    using assms by (auto simp: delivers_def)
  then have "queued w @ more = bs @ queued w'" "length bs \<le> n"
    by (simp_all only: append_take_drop_id length_take min.cobounded2)
  then show ?thesis by blast
qed

text \<open>What one round of the loop does, as an equation.\<close>

lemma read_loop_rounds:
  assumes "os_poll os fd timeout w = (status, w1)"
  shows "status \<le> -1 \<Longrightarrow> cgi_read_loop os fd timeout s t w = Some (Inr (None, w1))"
    and "status = 0 \<Longrightarrow> t > 5 \<Longrightarrow> cgi_read_loop os fd timeout s t w = Some (Inr (None, w1))"
    and "status = 0 \<Longrightarrow> t \<le> 5 \<Longrightarrow> cgi_read_loop os fd timeout s t w = cgi_read_loop os fd timeout s (t + 1) w1"
    and "0 < status \<Longrightarrow> os_fionread os fd w1 = (None, w2) \<Longrightarrow> cgi_read_loop os fd timeout s t w = Some (Inr (None, w2))"
    and "0 < status \<Longrightarrow> os_fionread os fd w1 = (Some 0, w2) \<Longrightarrow> cgi_read_loop os fd timeout s t w = Some (Inr (Some s, w2))"
    and "0 < status \<Longrightarrow> os_fionread os fd w1 = (Some n, w2) \<Longrightarrow> 0 < n \<Longrightarrow> os_read os fd n w2 = (None, w3) \<Longrightarrow>
      cgi_read_loop os fd timeout s t w = Some (Inr (None, w3))"
    and "0 < status \<Longrightarrow> os_fionread os fd w1 = (Some n, w2) \<Longrightarrow> 0 < n \<Longrightarrow> os_read os fd n w2 = (Some bs, w3) \<Longrightarrow>
      bnd (memcpy (malloc n) 0 bs (length bs)) (\<lambda>b. string_appendBufferWithLength s b (length bs)) = Inr s' \<Longrightarrow>
      cgi_read_loop os fd timeout s t w = cgi_read_loop os fd timeout s' t w3"
  using assms by (simp_all add: cgi_read_loop.simps [of os fd timeout s t w])

lemma read_loop_returns:
  assumes laws: "pipe_laws os fd out left"
  shows "\<exists>r w'. cgi_read_loop os fd timeout (accum a) t w = Some (Inr (r, w'))
    \<and> (\<forall>s. r = Some s \<longrightarrow> (\<exists>b taken more. s = accum b \<and> acc_text b = acc_text a @ taken \<and> out w @ more = taken @ out w'))"
proof (induction "8 * left w + (7 - t)" arbitrary: a t w rule: less_induct)
  case less
  obtain status w1 where p: "os_poll os fd timeout w = (status, w1)" by fastforce
  have "case os_poll os fd timeout w of (status, w') \<Rightarrow> grows out w w' \<and> left w' \<le> left w"
    using laws by (simp add: pipe_laws_def)
  then have g1: "grows out w w1" "left w1 \<le> left w" using p by auto
  obtain f w2 where f: "os_fionread os fd w1 = (f, w2)" by fastforce
  have "case os_fionread os fd w1 of (r, w') \<Rightarrow> grows out w1 w' \<and> left w' \<le> left w1"
    using laws by (simp add: pipe_laws_def)
  then have g2: "grows out w1 w2" "left w2 \<le> left w1" using f by auto
  have g: "grows out w w2" using grows_trans [OF g1(1) g2(1)] .
  note rounds = read_loop_rounds [OF p]
  consider "status \<le> -1 \<or> status = 0 \<and> t > 5 \<or> 0 < status \<and> f = None" | "status = 0" "t \<le> 5"
    | "0 < status" "f = Some 0" | n where "0 < status" "f = Some n" "0 < n" by fastforce
  then show ?case
  proof cases
    case 1
    then show ?thesis using rounds f by auto
  next
    case 2
    then show ?thesis using less [of w1 "t + 1" a] g1 rounds(3) by (fastforce simp: grows_def)
  next
    case 3
    then show ?thesis using rounds(5) f g by (auto simp: grows_def)
  next
    case (4 n)
    obtain r w3 where r: "os_read os fd n w2 = (r, w3)" by fastforce
    show ?thesis
    proof (cases r)
      case None
      then show ?thesis using rounds(6) 4 f r by auto
    next
      case (Some bs)
      have "case os_read os fd n w2 of (None, w') \<Rightarrow> True
        | (Some bs, w') \<Rightarrow> delivers out n False bs w2 w' \<and> left w' + length bs \<le> left w2 \<and> (0 < n \<longrightarrow> bs \<noteq> []) \<and> NUL \<notin> set bs"
        using laws by (simp add: pipe_laws_def)
      then have d: "delivers out n False bs w2 w3" "left w3 + length bs \<le> left w2" "bs \<noteq> []" "NUL \<notin> set bs"
        using r Some 4(3) by auto
      obtain more where m: "out w2 @ more = bs @ out w3" "length bs \<le> n"
        using delivers_consumes [OF d(1)] by blast
      from d(4)
      have step: "cgi_read_loop os fd timeout (accum a) t w = cgi_read_loop os fd timeout (accum (accs a bs)) t w3"
        using rounds(7) [OF 4(1) _ 4(3)] f 4(2) r Some append_bytes_accum [OF _ m(2)] by simp
      have "8 * left w3 + (7 - t) < 8 * left w + (7 - t)" using g1(2) g2(2) d(2,3) by (cases bs) auto
      from less [OF this, of "accs a bs"] obtain r' w' where
        ih: "cgi_read_loop os fd timeout (accum (accs a bs)) t w3 = Some (Inr (r', w'))"
        "\<forall>s. r' = Some s \<longrightarrow> (\<exists>b taken more. s = accum b \<and> acc_text b = acc_text a @ bs @ taken \<and> out w3 @ more = taken @ out w')"
        by auto
      obtain m' where "out w2 = out w @ m'" using g by (auto simp: grows_def)
      with m(1) have "out w @ m' @ more @ more2 = (bs @ taken) @ out w'" if "out w3 @ more2 = taken @ out w'" for more2 taken
        using that by (metis append.assoc)
      with ih(2) show ?thesis unfolding step ih(1) by (metis Inr_inject Pair_inject option.inject)
    qed
  qed
qed


section \<open>A scripted process\<close>

text \<open>A process whose output arrives in the pieces of a script, one per poll.\<close>

record pipe_script =
  ps_out :: bytes
  ps_future :: "bytes list"

definition pipe_os :: "int \<Rightarrow> pipe_script os" where
  "pipe_os pid =
     \<lparr>os_pipe = (\<lambda>w. (Some (3, 4), w)), os_fork = (\<lambda>w. (pid, w)), os_dup2 = (\<lambda>a b w. (None, w)),
      os_close = (\<lambda>fd w. w),
      os_poll = (\<lambda>fd t w. (case ps_future w of [] \<Rightarrow> (1, w)
        | piece # rest \<Rightarrow> (1, \<lparr>ps_out = ps_out w @ piece, ps_future = rest\<rparr>))),
      os_fionread = (\<lambda>fd w. (Some (length (ps_out w)), w)),
      os_read = (\<lambda>fd n w. let bs = take n (ps_out w) in
        if bs = [] \<or> NUL \<in> set bs then (None, w) else (Some bs, w\<lparr>ps_out := drop n (ps_out w)\<rparr>)),
      os_write = (\<lambda>fd bs w. (Some (length bs), w)), os_kill = (\<lambda>p w. w), os_waitpid = (\<lambda>p b w. ((p, 0), w))\<rparr>"

lemma pipe_os_laws: "pipe_laws (pipe_os pid) fd ps_out (\<lambda>w. length (ps_out w) + length (concat (ps_future w)))"
  by (auto simp: pipe_laws_def pipe_os_def grows_def delivers_def Let_def split: list.splits)


end
