(* ===== verification/Worker.thy ===== *)
theory Worker
  imports Http Config Path Resources Www Connection Cgi
begin

text \<open>
  The worker of \<^verbatim>\<open>src/worker/worker.c\<close>: it reads a request from a connection, finds the server and the file
  it is for, and answers with a file, the output of a CGI process, a redirection or an error page. The
  global configuration is passed in and returned, because looking a server up moves the cursor of its list.
  The line that \<^verbatim>\<open>logging_request\<close> writes for each answer is not modelled.
\<close>

section \<open>State\<close>

definition WORKER_STATUS_INITIALIZING :: nat where "WORKER_STATUS_INITIALIZING = 0"
definition WORKER_STATUS_IDLE :: nat where "WORKER_STATUS_IDLE = 1"
definition WORKER_STATUS_WORKING :: nat where "WORKER_STATUS_WORKING = 2"
definition REQUEST_MAX_HEADER_SIZE :: nat where "REQUEST_MAX_HEADER_SIZE = 1048576"
definition REQUEST_READ_TIMEOUT :: int where "REQUEST_READ_TIMEOUT = 1000"
definition REQUEST_MAX_BODY_SIZE :: int where "REQUEST_MAX_BODY_SIZE = 1048576"
definition CGI_READ_TIMEOUT :: nat where "CGI_READ_TIMEOUT = 1000"

text \<open>The outside world of a worker: sockets, processes, the file system, the generated web pages and the
  variable \<^verbatim>\<open>PATH\<close> of its own environment.\<close>

record 'w worker_env =
  we_net :: "'w net"
  we_os :: "'w os"
  we_realpath :: "string \<Rightarrow> string option"
  we_fopen :: "string \<Rightarrow> file_t option"
  we_stat :: "string \<Rightarrow> 32 word option"
  we_www :: www_resources
  we_PATH :: "bytes option"

section \<open>Answers\<close>

text \<open>The part that the functions for the error pages share, from the response on. For a \<^verbatim>\<open>HEAD\<close> request the
  body is dropped after its length has been announced.\<close>

definition worker_sendPage :: "'w worker_env \<Rightarrow> connection_t \<Rightarrow> http_t \<Rightarrow> nat \<Rightarrow> page_t \<Rightarrow> 'w \<Rightarrow> (nat \<times> 'w) exec" where
  "worker_sendPage env connection request code page w =
     bnd (http_setBody http_create (page_getSource page)) (\<lambda>r.
     let r1 = (if http_getMethod request = HTTP_METHOD_HEAD then r\<lparr>http_body := None\<rparr> else r) in
     bnd (http_setResponseCode r1 code) (\<lambda>r2.
     bnd (string_fromBuffer (lit ''1.1'')) (\<lambda>version.
     bnd (http_setVersion r2 (Some version)) (\<lambda>r3.
     bnd (string_fromBuffer (lit ''Content-Type'')) (\<lambda>key.
     bnd (string_fromBuffer (lit ''text/html'')) (\<lambda>value.
     bnd (http_setHeader r3 key (Some value)) (\<lambda>r4.
     bnd (http_toResponseString r4) (\<lambda>(responseString, r5).
     bnd (connection_write (we_net env) connection (string_getBuffer responseString) (string_getSize responseString) w) (\<lambda>(bytesWritten, w1).
     bnd (string_free (Some responseString)) (\<lambda>_.
     bnd (page_free page) (\<lambda>_.
     bnd (http_free (r5\<lparr>http_body := None\<rparr>)) (\<lambda>_.
       Inr (bytesWritten, w1)))))))))))))"

definition worker_return500 :: "'w worker_env \<Rightarrow> connection_t \<Rightarrow> http_t \<Rightarrow> string_t \<Rightarrow> 'w \<Rightarrow> (nat \<times> 'w) exec" where
  "worker_return500 env connection request description w =
     bnd (page_create500 (we_www env) description) (\<lambda>page.
     bnd (worker_sendPage env connection request 500 page w) (\<lambda>(bytesWritten, w1).
     bnd (deref (http_getUrl request)) (\<lambda>_.
       Inr (bytesWritten, w1))))"

definition worker_return404 :: "'w worker_env \<Rightarrow> connection_t \<Rightarrow> http_t \<Rightarrow> string_t option \<Rightarrow> 'w \<Rightarrow> (nat \<times> 'w) exec" where
  "worker_return404 env connection request path w =
     bnd (deref path) (\<lambda>p.
     bnd (string_copy p) (\<lambda>copy.
     bnd (page_create404 (we_www env) copy) (\<lambda>page.
       worker_sendPage env connection request 404 page w)))"

definition worker_return400 ::
  "'w worker_env \<Rightarrow> connection_t \<Rightarrow> http_t \<Rightarrow> string_t option \<Rightarrow> string_t \<Rightarrow> 'w \<Rightarrow> (nat \<times> 'w) exec" where
  "worker_return400 env connection request path description w =
     bnd (page_create400 (we_www env) description) (\<lambda>page.
       worker_sendPage env connection request 400 page w)"

definition worker_return417 :: "'w worker_env \<Rightarrow> connection_t \<Rightarrow> http_t \<Rightarrow> string_t option \<Rightarrow> 'w \<Rightarrow> (nat \<times> 'w) exec" where
  "worker_return417 env connection request path w =
     bnd (page_create417 (we_www env)) (\<lambda>page.
       worker_sendPage env connection request 417 page w)"

definition worker_return413 :: "'w worker_env \<Rightarrow> connection_t \<Rightarrow> http_t \<Rightarrow> string_t option \<Rightarrow> 'w \<Rightarrow> (nat \<times> 'w) exec" where
  "worker_return413 env connection request path w =
     bnd (page_create413 (we_www env)) (\<lambda>page.
       worker_sendPage env connection request 413 page w)"

text \<open>A file that could be read: body, type (plain text when the extension is unknown) and status 200.\<close>

definition worker_sendFile ::
  "'w worker_env \<Rightarrow> connection_t \<Rightarrow> http_t \<Rightarrow> string_t \<Rightarrow> http_t \<Rightarrow> string_t \<Rightarrow> 'w \<Rightarrow> (nat \<times> 'w) exec" where
  "worker_sendFile env connection request resolvedPath response fileContent w =
     bnd (http_setBody response (Some fileContent)) (\<lambda>r.
     bnd (resources_getMIMEType resolvedPath) (\<lambda>mimeType.
     bnd (case mimeType of None \<Rightarrow> string_fromBuffer (lit ''text/plain'') | Some m \<Rightarrow> Inr m) (\<lambda>m.
     bnd (string_fromBuffer (lit ''Content-Type'')) (\<lambda>key.
     bnd (http_setHeader r key (Some m)) (\<lambda>r1.
     bnd (if http_getMethod request = HTTP_METHOD_HEAD
          then bnd (string_free (http_body r1)) (\<lambda>_. Inr (r1\<lparr>http_body := None\<rparr>)) else Inr r1) (\<lambda>r2.
     bnd (http_toResponseString r2) (\<lambda>(responseString, r3).
     bnd (connection_write (we_net env) connection (string_getBuffer responseString) (string_getSize responseString) w) (\<lambda>(bytesWritten, w1).
     bnd (deref (http_getUrl request)) (\<lambda>_.
     bnd (string_free (Some responseString)) (\<lambda>_.
     bnd (http_free r3) (\<lambda>_.
       Inr (bytesWritten, w1))))))))))))"

definition worker_return200 :: "'w worker_env \<Rightarrow> connection_t \<Rightarrow> http_t \<Rightarrow> string_t \<Rightarrow> 'w \<Rightarrow> (nat \<times> 'w) exec" where
  "worker_return200 env connection request resolvedPath w =
     bnd (http_setResponseCode http_create 200) (\<lambda>r.
     bnd (string_fromBuffer (lit ''1.1'')) (\<lambda>version.
     bnd (http_setVersion r (Some version)) (\<lambda>response.
     bnd (resources_loadFile (we_fopen env) resolvedPath) (\<lambda>fileContent.
       case fileContent of
         None \<Rightarrow>
           bnd (http_free response) (\<lambda>_.
           bnd (string_fromBuffer (lit ''Unable to access requested file'')) (\<lambda>description.
           bnd (worker_return500 env connection request description w) (\<lambda>(_, w1).
             Inr (0, w1))))
       | Some contents \<Rightarrow> worker_sendFile env connection request resolvedPath response contents w))))"

section \<open>The environment of a CGI process\<close>

definition env_put :: "string_t hash_table_t \<Rightarrow> string \<Rightarrow> string_t exec \<Rightarrow> string_t hash_table_t exec" where
  "env_put t name v =
     bnd (string_fromBuffer (lit name)) (\<lambda>key.
     bnd v (\<lambda>value.
     bnd (hash_table_setValue t key (Some value)) (\<lambda>(_, t'). Inr t')))"

definition env_put_copy :: "string_t hash_table_t \<Rightarrow> string \<Rightarrow> string_t option \<Rightarrow> string_t hash_table_t exec" where
  "env_put_copy t name p = (case p of None \<Rightarrow> Inr t | Some s \<Rightarrow> env_put t name (string_copy s))"

text \<open>A header of the request that is passed on under another name.\<close>

definition env_put_header ::
  "string_t hash_table_t \<Rightarrow> string \<Rightarrow> http_t \<Rightarrow> string \<Rightarrow> (string_t hash_table_t \<times> http_t) exec" where
  "env_put_header t name request header =
     bnd (string_fromBuffer (lit header)) (\<lambda>key.
     bnd (http_getHeader request key) (\<lambda>(value, request').
     bnd (env_put_copy t name value) (\<lambda>t'. Inr (t', request'))))"

definition worker_createEnvironment ::
  "'w worker_env \<Rightarrow> connection_t \<Rightarrow> http_t \<Rightarrow> string_t \<Rightarrow> string_t \<Rightarrow> (string_t hash_table_t \<times> http_t) exec" where
  "worker_createEnvironment env connection request rootDirectory resolvedPath =
     bnd (env_put hash_table_create ''HTTPS'' (string_fromBuffer (lit ''off''))) (\<lambda>t.
     bnd (env_put t ''SERVER_SOFTWARE'' (string_fromBuffer (lit ''WSIC''))) (\<lambda>t.
     bnd (env_put_copy t ''REMOTE_ADDR'' (conn_sourceAddress connection)) (\<lambda>t.
     bnd (env_put t ''REMOTE_PORT'' (string_fromInt (int (conn_sourcePort connection)))) (\<lambda>t.
     bnd (if http_getMethod request = HTTP_METHOD_GET then env_put t ''REQUEST_METHOD'' (string_fromBuffer (lit ''GET''))
          else if http_getMethod request = HTTP_METHOD_POST then env_put t ''REQUEST_METHOD'' (string_fromBuffer (lit ''POST''))
          else Inr t) (\<lambda>t.
     bnd (env_put_header t ''HTTP_COOKIE'' request ''Cookie'') (\<lambda>(t, request).
     bnd (env_put_header t ''HTTP_REFERER'' request ''Referer'') (\<lambda>(t, request).
     bnd (env_put_header t ''HTTP_USER_AGENT'' request ''User-Agent'') (\<lambda>(t, request).
     bnd (deref (http_getUrl request)) (\<lambda>url.
     bnd (env_put_copy t ''HTTP_HOST'' (url_getDomainName url)) (\<lambda>t.
     bnd (env_put_copy t ''SERVER_NAME'' (url_getDomainName url)) (\<lambda>t.
     bnd (if url_getPort url \<noteq> 0 then env_put t ''SERVER_PORT'' (string_fromInt (int (url_getPort url))) else Inr t) (\<lambda>t.
     bnd (env_put_copy t ''REQUEST_URI'' (url_getPath url)) (\<lambda>t.
     bnd (env_put t ''DOCUMENT_ROOT'' (string_copy rootDirectory)) (\<lambda>t.
     bnd (env_put t ''SCRIPT_FILENAME'' (string_copy resolvedPath)) (\<lambda>t.
     bnd (path_relativeTo (we_realpath env) resolvedPath rootDirectory) (\<lambda>relativePath.
     bnd (case relativePath of None \<Rightarrow> Inr t | Some p \<Rightarrow> env_put t ''SCRIPT_NAME'' (Inr p)) (\<lambda>t.
     bnd (case we_PATH env of None \<Rightarrow> Inr t | Some b \<Rightarrow> env_put t ''PATH'' (string_fromBuffer b)) (\<lambda>t.
       Inr (t, request)))))))))))))))))))"

section \<open>CGI\<close>

text \<open>The conversation with a started process. The null pointer, when starting failed, is only noticed when it
  is used.\<close>

definition worker_talkCGI ::
  "'w worker_env \<Rightarrow> connection_t \<Rightarrow> http_t \<Rightarrow> string_t option \<Rightarrow> cgi_process_t \<Rightarrow> 'w \<Rightarrow> (nat \<times> 'w) exec" where
  "worker_talkCGI env connection request body process w =
     (let os = we_os env in
      bnd (case body of
             None \<Rightarrow> Inr w
           | Some b \<Rightarrow> bnd (cgi_write os process (string_getBuffer b) (string_getSize b) w) (\<lambda>(_, w1). Inr w1)) (\<lambda>w1.
      bnd (cgi_read os process CGI_READ_TIMEOUT (cgi_flushStdin os process w1)) (\<lambda>(response, w2).
        if (case response of None \<Rightarrow> True | Some r \<Rightarrow> str_buffer r = None) then
          bnd (string_fromBuffer (lit ''Unable to build response.'')) (\<lambda>description.
          bnd (worker_return500 env connection request description (cgi_freeProcess os process w2)) (\<lambda>(_, w3).
            Inr (0, w3)))
        else
          bnd (deref response) (\<lambda>r.
          bnd (connection_write (we_net env) connection (string_getBuffer r) (string_getSize r) w2) (\<lambda>(bytesWritten, w3).
          bnd (string_free response) (\<lambda>_.
          bnd (deref (http_getUrl request)) (\<lambda>_.
            Inr (bytesWritten, cgi_freeProcess os process (snd (cgi_waitForExit os process w3))))))))))"

definition worker_returnCGI ::
  "'w worker_env \<Rightarrow> connection_t \<Rightarrow> http_t \<Rightarrow> string_t \<Rightarrow> string_t \<Rightarrow> string_t option \<Rightarrow> 'w
    \<Rightarrow> ((spawned + nat) \<times> http_t \<times> 'w) exec" where
  "worker_returnCGI env connection request resolvedPath rootDirectory body w =
     bnd (worker_createEnvironment env connection request rootDirectory resolvedPath) (\<lambda>(environment, request1).
     bnd (deref (string_getBuffer resolvedPath)) (\<lambda>command.
     bnd (cgi_spawn (we_os env) command None (Some environment) w) (\<lambda>(spawned, w1).
       case spawned of
         Parent p \<Rightarrow>
           bnd (if 7 \<le> net_LOGGING_LEVEL (we_net env) then bnd (deref p) (\<lambda>_. Inr ()) else Inr ()) (\<lambda>_.
           bnd (url_free_parameters (hash_table_getLength environment) environment) (\<lambda>t.
           bnd (hash_table_free t) (\<lambda>_.
           bnd (deref p) (\<lambda>process.
           bnd (worker_talkCGI env connection request1 body process w1) (\<lambda>(bytesWritten, w2).
             Inr (Inr bytesWritten, request1, w2))))))
       | _ \<Rightarrow> Inr (Inl spawned, request1, w1))))"

section \<open>Reading the request\<close>

lemma findNextChar_bound:
  "string_findNextChar cu needle = Inr (i, cu') \<Longrightarrow> i < int (str_size (cur_string cu))"
proof (induction cu needle rule: string_findNextChar.induct)
  case (1 cu needle)
  obtain c cu1 where g: "string_getNextChar cu = Inr (c, cu1)"
    using "1.prems" by (auto simp: string_findNextChar.simps [of cu] split: sum.splits)
  have cu1: "c = NUL \<or> cur_string cu1 = cur_string cu \<and> cur_offset cu1 = Suc (cur_offset cu)
      \<and> cur_offset cu < str_size (cur_string cu)"
    using g by (auto simp: string_getNextChar_def exec_simps split: if_splits)
  show ?case
  proof (cases "c = NUL \<or> c = needle")
    case True
    with g cu1 "1.prems" show ?thesis by (auto simp: string_findNextChar.simps [of cu] split: if_splits)
  next
    case False
    then have "string_findNextChar cu1 needle = Inr (i, cu')"
      using g "1.prems" by (simp add: string_findNextChar.simps [of cu])
    with "1.IH" [OF g refl] False cu1 show ?thesis by auto
  qed
qed

lemma readEither_length:
  "connection_readEither net c n flags w = Inr ((b, n'), w') \<Longrightarrow> n' \<le> n"
  by (auto simp: connection_readEither_def connection_readBytes_def connection_readSSLBytes_def fill_buffer_def memcpy_def
      malloc_def exec_simps split: option.split_asm if_split_asm prod.split_asm sum.split_asm)

lemma fromBufferWithLength_size: "string_fromBufferWithLength b n = Inr s \<Longrightarrow> str_size s = n"
  by (auto simp: string_fromBufferWithLength_def exec_simps)

lemma trimEnd_loop_size: "string_trimEnd_loop n b sz = Inr (b', sz') \<Longrightarrow> n \<le> sz \<Longrightarrow> sz' \<le> sz"
proof (induction n arbitrary: b sz)
  case (Suc n)
  then show ?case by (fastforce simp: exec_simps split: if_split_asm)
qed simp

lemma trimEnd_size: "string_trimEnd s = Inr s' \<Longrightarrow> str_size s' \<le> str_size s"
  by (auto simp: string_trimEnd_def exec_simps dest!: trimEnd_loop_size split: if_split_asm)

lemma readLine_try_size:
  assumes "connection_readLine_try net c m off w = Inr (Inl (Some s), w')"
  shows "str_size s \<le> m"
proof -
  obtain n b n' w2 l off' w3 where p: "connection_readEither net c n READ_FLAGS_PEEK w2 = Inr ((b, n'), w3)" "n \<le> m"
    "connection_findLine b n' off = Inr (l, off')" "connection_takeLine net c (nat l) w3 = Inr (Some s, w')"
    using assms unfolding connection_readLine_try_def Let_def exec_simps
    by (fastforce simp: exec_simps split: if_split_asm)
  have "l \<le> int n'"
    using p(3) by (auto simp: connection_findLine_def exec_simps string_setOffset_def
        dest!: findNextChar_bound fromBufferWithLength_size)
  moreover have "str_size s \<le> nat l"
    using p(4) by (auto simp: connection_takeLine_def exec_simps split: if_split_asm
        dest!: readEither_length fromBufferWithLength_size trimEnd_size)
  ultimately show ?thesis using readEither_length [OF p(1)] p(2) by linarith
qed

lemma readLine_loop_size:
  "connection_readLine_loop net c timeout m off t w = Inr (Some s, w') \<Longrightarrow> str_size s \<le> m"
proof (induction net c timeout m off t w rule: connection_readLine_loop.induct)
  case (1 net c timeout m off t w)
  obtain ok w1 where p: "connection_pollForData net c timeout w = (ok, w1)" by fastforce
  have t: "\<not> t > 5" using "1.prems" p by (auto simp: connection_readLine_loop.simps [of net c timeout m off t])
  show ?case
  proof (cases ok)
    case False
    then show ?thesis using "1.IH"(1) [OF p [symmetric] t] "1.prems" p t
      by (simp add: connection_readLine_loop.simps [of net c timeout m off t])
  next
    case True
    then obtain r w2 where r: "connection_readLine_try net c m off w1 = Inr (r, w2)"
      "(case r of Inl result \<Rightarrow> Inr (result, w2) | Inr off' \<Rightarrow> connection_readLine_loop net c timeout m off' (t + 1) w2) = Inr (Some s, w')"
      using "1.prems" p t by (auto simp: connection_readLine_loop.simps [of net c timeout m off t] exec_simps)
    show ?thesis
    proof (cases r)
      case (Inl x)
      then show ?thesis using r readLine_try_size by simp
    next
      case (Inr off')
      then show ?thesis using r "1.IH"(2) [OF p [symmetric] t _ r(1) refl] True by simp
    qed
  qed
qed

lemma readLine_size: "connection_readLine net c timeout m w = Inr (Some s, w') \<Longrightarrow> str_size s \<le> m"
  unfolding connection_readLine_def by (rule readLine_loop_size)

text \<open>
  The loop over the lines of the header. \<open>remaining\<close> is \<^verbatim>\<open>REQUEST_MAX_HEADER_SIZE - headerSize\<close>, which does not
  wrap, because a line is never longer than what remains. The result tells whether the header was read to its
  end; otherwise the request has been answered and released. A line that could not be read ends the header
  like an empty one.
\<close>

function worker_readHeader ::
  "'w worker_env \<Rightarrow> connection_t \<Rightarrow> nat \<Rightarrow> nat \<Rightarrow> http_t \<Rightarrow> 'w \<Rightarrow> ((bool \<times> http_t) \<times> 'w) exec" where
  "worker_readHeader env connection line remaining request w =
     bnd (connection_readLine (we_net env) connection REQUEST_READ_TIMEOUT remaining w) (\<lambda>(currentLine, w1).
       case currentLine of
         None \<Rightarrow> Inr ((True, request), w1)
       | Some s \<Rightarrow>
           if string_getSize s = 0 then Inr ((True, request), w1)
           else
             bnd (if line = 0 then http_parseRequestLine request s else http_parseHeader request s) (\<lambda>(parsed, request1).
               if \<not> parsed then
                 bnd (string_fromBuffer (lit ''Bad header received'')) (\<lambda>description.
                 bnd (worker_return400 env connection request1 None description w1) (\<lambda>(_, w2).
                 bnd (http_free request1) (\<lambda>_. Inr ((False, request1), w2))))
               else worker_readHeader env connection (line + 1) (remaining - string_getSize s) request1 w1))"
  by pat_completeness auto
termination
  by (relation "measure (\<lambda>(_, _, _, remaining, _, _). remaining)")
    (auto simp: string_getSize_def dest!: readLine_size)

declare worker_readHeader.simps [simp del]

section \<open>Serving a request\<close>

text \<open>An answer followed by the release of the request; the exit code is 0.\<close>

definition worker_finish :: "(nat \<times> 'w) exec \<Rightarrow> http_t \<Rightarrow> ((spawned + int) \<times> 'w) exec" where
  "worker_finish answer request =
     bnd answer (\<lambda>(_, w). bnd (http_free request) (\<lambda>_. Inr (Inr 0, w)))"

definition worker_refuse ::
  "'w worker_env \<Rightarrow> connection_t \<Rightarrow> http_t \<Rightarrow> string_t option \<Rightarrow> string \<Rightarrow> 'w \<Rightarrow> ((spawned + int) \<times> 'w) exec" where
  "worker_refuse env connection request path reason w =
     worker_finish (bnd (string_fromBuffer (lit reason)) (\<lambda>description.
       worker_return400 env connection request path description w)) request"

text \<open>The redirection to the server for the same domain with TLS.\<close>

definition worker_redirect ::
  "'w worker_env \<Rightarrow> connection_t \<Rightarrow> http_t \<Rightarrow> server_config_t \<Rightarrow> 'w \<Rightarrow> ((spawned + int) \<times> 'w) exec" where
  "worker_redirect env connection request httpsConfig w =
     bnd (http_setResponseCode http_create 301) (\<lambda>r.
     bnd (string_fromBuffer (lit ''1.1'')) (\<lambda>version.
     bnd (http_setVersion r (Some version)) (\<lambda>r1.
     bnd (string_fromBuffer (lit ''Vary'')) (\<lambda>vary.
     bnd (string_fromBuffer (lit ''Upgrade-Insecure-Requests'')) (\<lambda>upgrade.
     bnd (http_setHeader r1 vary (Some upgrade)) (\<lambda>r2.
     bnd (deref (http_getUrl request)) (\<lambda>requestUrl.
     bnd (url_copy requestUrl) (\<lambda>(url, requestUrl').
     bnd (string_fromBuffer (lit ''https'')) (\<lambda>https.
     bnd (url_setProtocol url (Some https)) (\<lambda>url1.
     bnd (string_fromBuffer (lit ''Location'')) (\<lambda>key.
     bnd (url_toString (url_setPort url1 (config_getPort httpsConfig))) (\<lambda>(target, url2).
     bnd (http_setHeader r2 key (Some target)) (\<lambda>r3.
     bnd (url_free url2) (\<lambda>_.
     bnd (http_toResponseString r3) (\<lambda>(responseString, response).
     bnd (connection_write (we_net env) connection (string_getBuffer responseString) (string_getSize responseString) w) (\<lambda>(_, w1).
     bnd (http_free (request\<lparr>http_url := Some requestUrl'\<rparr>)) (\<lambda>_.
     bnd (http_free response) (\<lambda>_.
     bnd (string_free (Some responseString)) (\<lambda>_.
       Inr (Inr 0, w1))))))))))))))))))))"

text \<open>
  The index files of a directory, from the first to the first that resolves. The loop reads the list from index
  0 on, which its cursor reaches from any position, so the position it leaves behind is not kept.
\<close>

fun worker_findIndex ::
  "'w worker_env \<Rightarrow> nat \<Rightarrow> nat \<Rightarrow> array_value list_t \<Rightarrow> string_t \<Rightarrow> string_t option exec" where
  "worker_findIndex env 0 i directoryIndex resolvedPath = Inr None"
| "worker_findIndex env (Suc n) i directoryIndex resolvedPath =
     bnd (list_getValue directoryIndex i) (\<lambda>(filePath, l).
     bnd (case filePath of
            Some (IntValue v) \<Rightarrow> if v = 0 then Inr None else Inl DanglingPointer
          | Some (StringValue s) \<Rightarrow> Inr (Some s)
          | None \<Rightarrow> Inr None) (\<lambda>file.
     bnd (path_resolve (we_realpath env) file resolvedPath) (\<lambda>indexPath.
       case indexPath of
         None \<Rightarrow> worker_findIndex env n (Suc i) l resolvedPath
       | Some p \<Rightarrow> Inr (Some p))))"

text \<open>The body for a CGI process: nothing to read, an answer that refuses the request, or the body.\<close>

definition worker_readBody ::
  "'w worker_env \<Rightarrow> connection_t \<Rightarrow> http_t \<Rightarrow> string_t option \<Rightarrow> 'w \<Rightarrow> (((nat + string_t option) \<times> http_t) \<times> 'w) exec" where
  "worker_readBody env connection request path w =
     bnd (string_fromBuffer (lit ''Expect'')) (\<lambda>expectHeader.
     bnd (http_getHeader request expectHeader) (\<lambda>(expects, request1).
     bnd (string_fromBuffer (lit ''Content-Length'')) (\<lambda>contentLengthHeader.
     bnd (http_getHeader request1 contentLengthHeader) (\<lambda>(contentLengthString, request2).
       case contentLengthString of
         None \<Rightarrow> Inr ((Inr None, request2), w)
       | Some s \<Rightarrow>
           bnd (deref (string_getBuffer s)) (\<lambda>b.
           bnd (atoi b) (\<lambda>contentLength.
             if contentLength > REQUEST_MAX_BODY_SIZE then
               bnd (if expects \<noteq> None then worker_return417 env connection request2 path w
                    else worker_return413 env connection request2 path w) (\<lambda>(n, w1). Inr ((Inl n, request2), w1))
             else if contentLength = 0 then
               bnd (if expects \<noteq> None then worker_return417 env connection request2 path w
                    else bnd (string_fromBuffer (lit ''Empty body when headers specified content length'')) (\<lambda>d.
                           worker_return400 env connection request2 path d w)) (\<lambda>(n, w1). Inr ((Inl n, request2), w1))
             else
               bnd (connection_read (we_net env) connection REQUEST_READ_TIMEOUT (nat (contentLength mod 2 ^ 64)) w) (\<lambda>(body, w1).
                 case body of
                   None \<Rightarrow>
                     bnd (string_fromBuffer (lit ''Request timed out'')) (\<lambda>d.
                     bnd (worker_return400 env connection request2 path d w1) (\<lambda>(n, w2). Inr ((Inl n, request2), w2)))
                 | Some b \<Rightarrow> Inr ((Inr (Some b), request2), w1))))))))"

definition worker_serveFile ::
  "'w worker_env \<Rightarrow> connection_t \<Rightarrow> http_t \<Rightarrow> string_t option \<Rightarrow> string_t \<Rightarrow> string_t \<Rightarrow> bool \<Rightarrow> bool \<Rightarrow> 'w
    \<Rightarrow> ((spawned + int) \<times> 'w) exec" where
  "worker_serveFile env connection request path rootDirectory resolvedPath isFile isExecutable w =
     (if isFile \<and> isExecutable then
        bnd (worker_readBody env connection request path w) (\<lambda>((r, request1), w1).
          case r of
            Inl n \<Rightarrow> worker_finish (Inr (n, w1)) request1
          | Inr body \<Rightarrow>
              bnd (worker_returnCGI env connection request1 resolvedPath rootDirectory body w1) (\<lambda>(outcome, request2, w2).
                case outcome of
                  Inl child \<Rightarrow> Inr (Inl child, w2)
                | Inr n \<Rightarrow> bnd (free_opt body) (\<lambda>_. worker_finish (Inr (n, w2)) request2)))
      else if http_getMethod request = HTTP_METHOD_GET \<or> http_getMethod request = HTTP_METHOD_HEAD then
        if isFile then worker_finish (worker_return200 env connection request resolvedPath w) request
        else worker_finish (worker_return404 env connection request path w) request
      else worker_refuse env connection request path ''Method not supported'' w)"

definition worker_servePath ::
  "'w worker_env \<Rightarrow> connection_t \<Rightarrow> http_t \<Rightarrow> url_t \<Rightarrow> server_config_t \<Rightarrow> 'w \<Rightarrow> ((spawned + int) \<times> 'w) exec" where
  "worker_servePath env connection request url serverConfig w =
     (let path = url_getPath url in
      bnd (deref (config_getRootDirectory serverConfig)) (\<lambda>rootDirectory.
      bnd (path_resolve (we_realpath env) path rootDirectory) (\<lambda>resolved.
        case resolved of
          None \<Rightarrow> worker_finish (worker_return404 env connection request path w) request
        | Some resolvedPath \<Rightarrow>
            bnd (resources_isFile (we_stat env) resolvedPath) (\<lambda>isFile.
            bnd (if isFile then Inr None
                 else case config_getDirectoryIndex serverConfig of
                        None \<Rightarrow> Inr None
                      | Some l \<Rightarrow> worker_findIndex env (list_getLength l) 0 l resolvedPath) (\<lambda>indexPath.
            let file = (case indexPath of None \<Rightarrow> resolvedPath | Some p \<Rightarrow> p) in
            bnd (resources_isFile (we_stat env) file) (\<lambda>isFile.
            bnd (resources_isExecutable (we_stat env) file) (\<lambda>isExecutable.
              worker_serveFile env connection request path rootDirectory file isFile isExecutable w)))))))"

text \<open>A request for a known server: the transport must be the one the server uses, a browser that prefers TLS is
  redirected if it can be, and otherwise the path is served.\<close>

definition worker_serve ::
  "'w worker_env \<Rightarrow> config_t \<Rightarrow> connection_t \<Rightarrow> http_t \<Rightarrow> url_t \<Rightarrow> string_t \<Rightarrow> server_config_t \<Rightarrow> 'w
    \<Rightarrow> ((spawned + int) \<times> config_t \<times> 'w) exec" where
  "worker_serve env config connection request url domainName serverConfig w =
     (let keep = (\<lambda>config r. bnd r (\<lambda>(outcome, w'). Inr (outcome, config, w'))); path = url_getPath url in
      if conn_ssl connection = None \<and> sc_sslContext serverConfig \<noteq> None then
        keep config (worker_refuse env connection request path ''Got HTTP request on HTTPS port'' w)
      else if conn_ssl connection \<noteq> None \<and> sc_sslContext serverConfig = None then
        keep config (worker_refuse env connection request path ''Got HTTPS request on HTTP port'' w)
      else
        bnd (string_fromBuffer (lit ''Upgrade-Insecure-Requests'')) (\<lambda>key.
        bnd (http_getHeader request key) (\<lambda>(upgradeInsecureRequests, request1).
        bnd (case upgradeInsecureRequests of
               None \<Rightarrow> Inr False
             | Some u \<Rightarrow> bnd (string_equalsBuffer u (lit ''1'')) (\<lambda>one. Inr (one \<and> sc_sslContext serverConfig = None))) (\<lambda>upgrade.
          if upgrade then
            bnd (config_getServerConfigByHTTPSDomain config domainName) (\<lambda>(httpsConfig, config1).
              case httpsConfig of
                Some sc \<Rightarrow> keep config1 (worker_redirect env connection request1 sc w)
              | None \<Rightarrow> keep config1 (worker_servePath env connection request1 url serverConfig w))
          else keep config (worker_servePath env connection request1 url serverConfig w)))))"

text \<open>
  The whole handler. A host that was parsed always has a domain name, so that it can be looked up. The result is
  the exit code, or what the child of a fork does.
\<close>

definition worker_handleConnection ::
  "'w worker_env \<Rightarrow> config_t option \<Rightarrow> connection_t \<Rightarrow> 'w \<Rightarrow> ((spawned + int) \<times> config_t option \<times> 'w) exec" where
  "worker_handleConnection env globalConfig connection w =
     bnd (worker_readHeader env connection 0 REQUEST_MAX_HEADER_SIZE http_create w) (\<lambda>((complete, request), w1).
       if \<not> complete then Inr (Inr 0, globalConfig, w1)
       else
         bnd (http_parseHost request) (\<lambda>(parsedHost, request1).
           if \<not> parsedHost then
             bnd (worker_refuse env connection request1 None ''Bad header received'' w1) (\<lambda>(r, w2). Inr (r, globalConfig, w2))
           else
             case http_getUrl request1 of
               None \<Rightarrow>
                 bnd (worker_refuse env connection request1 None ''No header received'' w1) (\<lambda>(r, w2). Inr (r, globalConfig, w2))
             | Some url \<Rightarrow>
                 bnd (deref (config_getGlobalConfig globalConfig)) (\<lambda>config.
                 bnd (deref (url_getDomainName url)) (\<lambda>domainName.
                 bnd (config_getServerConfigByDomain config domainName (url_getPort url)) (\<lambda>(serverConfig, config1).
                   case serverConfig of
                     None \<Rightarrow>
                       bnd (worker_finish (bnd (string_fromBuffer (lit ''The requested domain is not served by this server'')) (\<lambda>d.
                              worker_return500 env connection request1 d w1)) request1) (\<lambda>(r, w2).
                         Inr (r, Some config1, w2))
                   | Some sc \<Rightarrow>
                       bnd (worker_serve env config1 connection request1 url domainName sc w1) (\<lambda>(r, config2, w2).
                         Inr (r, Some config2, w2)))))))"

section \<open>The life of a worker\<close>

record worker_t =
  wk_status :: nat
  wk_id :: int
  wk_connection :: "connection_t option"
  wk_cgi :: "cgi_process_t option"
  wk_shouldRun :: bool

text \<open>\<^verbatim>\<open>created\<close> tells whether \<^verbatim>\<open>pthread_create\<close> succeeds. The structure is returned in both modes.\<close>

definition worker_spawn :: "bool \<Rightarrow> int \<Rightarrow> connection_t option \<Rightarrow> worker_t option" where
  "worker_spawn created ident connection =
     (if created
      then Some \<lparr>wk_status = WORKER_STATUS_INITIALIZING, wk_id = ident, wk_connection = connection, wk_cgi = None, wk_shouldRun = True\<rparr>
      else None)"

definition worker_getStatus :: "worker_t \<Rightarrow> nat" where
  "worker_getStatus worker = wk_status worker"

definition worker_closeGracefully :: "worker_t \<Rightarrow> worker_t" where
  "worker_closeGracefully worker = worker\<lparr>wk_shouldRun := False\<rparr>"

text \<open>The cancellation of the thread is up to the thread library.\<close>

definition worker_kill :: "worker_t \<Rightarrow> worker_t" where
  "worker_kill worker = worker\<lparr>wk_shouldRun := False\<rparr>"

definition worker_free :: "'w worker_env \<Rightarrow> worker_t \<Rightarrow> 'w \<Rightarrow> 'w exec" where
  "worker_free env worker w =
     bnd (case wk_connection worker of None \<Rightarrow> Inr w | Some c \<Rightarrow> connection_free (we_net env) c w) (\<lambda>w1.
       case wk_cgi worker of None \<Rightarrow> Inr w1 | Some p \<Rightarrow> Inr (cgi_freeProcess (we_os env) p w1))"

text \<open>Immediate mode: the connection the worker was created with is handled and the worker released.\<close>

definition worker_immediate ::
  "'w worker_env \<Rightarrow> config_t option \<Rightarrow> worker_t \<Rightarrow> connection_t \<Rightarrow> 'w \<Rightarrow> ((spawned + unit) \<times> config_t option \<times> 'w) exec" where
  "worker_immediate env config worker connection w =
     bnd (worker_handleConnection env config connection w) (\<lambda>(outcome, config1, w1).
       case outcome of
         Inl child \<Rightarrow> Inr (Inl child, config1, w1)
       | Inr exitCode \<Rightarrow> bnd (worker_free env (worker\<lparr>wk_status := WORKER_STATUS_IDLE\<rparr>) w1) (\<lambda>w2. Inr (Inr (), config1, w2)))"

text \<open>
  Pool mode: what the loop does with one result of \<^verbatim>\<open>message_queue_pop\<close>, from waiting to waiting again. The
  worker exits (\<open>None\<close>) when it should no longer run, whatever it was given.
\<close>

definition worker_round ::
  "'w worker_env \<Rightarrow> config_t option \<Rightarrow> worker_t \<Rightarrow> connection_t option \<Rightarrow> 'w
    \<Rightarrow> ((spawned + worker_t option) \<times> config_t option \<times> 'w) exec" where
  "worker_round env config worker popped w =
     (let worker = worker\<lparr>wk_connection := popped\<rparr> in
      if \<not> wk_shouldRun worker then Inr (Inr None, config, w)
      else
        case wk_connection worker of
          None \<Rightarrow> Inr (Inr (Some (worker\<lparr>wk_status := WORKER_STATUS_IDLE\<rparr>)), config, w)
        | Some connection \<Rightarrow>
            bnd (worker_handleConnection env config connection w) (\<lambda>(outcome, config1, w1).
              case outcome of
                Inl child \<Rightarrow> Inr (Inl child, config1, w1)
              | Inr exitCode \<Rightarrow>
                  bnd (connection_free (we_net env) connection w1) (\<lambda>w2.
                    Inr (Inr (Some (worker\<lparr>wk_status := WORKER_STATUS_IDLE, wk_connection := None\<rparr>)), config1, w2))))"

fun worker_pool ::
  "'w worker_env \<Rightarrow> config_t option \<Rightarrow> worker_t \<Rightarrow> connection_t option list \<Rightarrow> 'w
    \<Rightarrow> ((spawned + worker_t option) \<times> config_t option \<times> 'w) exec" where
  "worker_pool env config worker [] w = Inr (Inr (Some (worker\<lparr>wk_status := WORKER_STATUS_IDLE\<rparr>)), config, w)"
| "worker_pool env config worker (popped # rest) w =
     bnd (worker_round env config worker popped w) (\<lambda>(r, config1, w1).
       case r of
         Inr (Some worker1) \<Rightarrow> worker_pool env config1 worker1 rest w1
       | _ \<Rightarrow> Inr (r, config1, w1))"

definition worker_entryPoint ::
  "'w worker_env \<Rightarrow> config_t option \<Rightarrow> worker_t \<Rightarrow> connection_t option list \<Rightarrow> 'w
    \<Rightarrow> ((spawned + worker_t option) \<times> config_t option \<times> 'w) exec" where
  "worker_entryPoint env config worker popped w =
     (case wk_connection worker of
        Some connection \<Rightarrow>
          bnd (worker_immediate env config worker connection w) (\<lambda>(r, config1, w1).
            Inr (case r of Inl child \<Rightarrow> Inl child | Inr _ \<Rightarrow> Inr None, config1, w1))
      | None \<Rightarrow> worker_pool env config worker popped w)"

end
