(* ===== verification/Serving.thy ===== *)
theory Serving
  imports Worker
begin

text \<open>
  What a client sees of a worker: from the bytes of a request on a socket to the bytes of the answer. The lemmas
  put together the parser, the configuration, the path resolution, the pages and the connection.
\<close>

section \<open>Reading the header\<close>

text \<open>Lines that survive reading unchanged, and the bytes of a header.\<close>

definition clean_line :: "string \<Rightarrow> bool" where
  "clean_line l \<longleftrightarrow> l \<noteq> [] \<and> NUL \<notin> set l \<and> LF \<notin> set l \<and> \<not> is_trimmed (last l)"

definition wire :: "string list \<Rightarrow> bytes" where
  "wire ls = concat (map (\<lambda>l. l @ CRLF) ls) @ CRLF"

text \<open>Parsing the lines one after the other: the first is the request line.\<close>

fun absorbs :: "nat \<Rightarrow> http_t \<Rightarrow> string list \<Rightarrow> http_t \<Rightarrow> bool" where
  "absorbs i h [] h' \<longleftrightarrow> h' = h"
| "absorbs i h (l # ls) h' \<longleftrightarrow>
     (\<exists>h1. (\<forall>k > 0. (if i = 0 then http_parseRequestLine h (pad l k) else http_parseHeader h (pad l k)) = Inr (True, h1))
        \<and> absorbs (Suc i) h1 ls h')"

lemma is_trimmed_CR [simp]: "is_trimmed CR"
  by (simp add: is_trimmed_def)

lemma rtrim_last: "l \<noteq> [] \<Longrightarrow> \<not> is_trimmed (last l) \<Longrightarrow> rtrim l = l"
  by (cases l rule: rev_cases) simp_all

lemma rtrim_clean: "clean_line l \<Longrightarrow> rtrim (l @ [CR]) = l"
  by (simp add: clean_line_def rtrim_last)

text \<open>The socket of a connection without TLS that has data, as far as the worker relies on it.\<close>

definition peer_laws :: "'w net \<Rightarrow> connection_t \<Rightarrow> ('w \<Rightarrow> bytes) \<Rightarrow> ('w \<Rightarrow> bytes) \<Rightarrow> bool" where
  "peer_laws net c queued sent \<longleftrightarrow>
     conn_sourceAddress c \<noteq> None \<and> stream_laws net c queued \<and> socket_ready net c queued
   \<and> send_laws net c sent \<and> reads_keep net c sent"

lemma peer_readLine:
  assumes "peer_laws net c queued sent" and "queued w = l @ CRLF @ rest" and "NUL \<notin> set l" and "LF \<notin> set l"
    and "Suc (length l) < maxBytes"
  shows "\<exists>k w' more. connection_readLine net c timeout maxBytes w = Inr (Some (pad (rtrim l) k), w')
    \<and> 0 < k \<and> queued w' = rest @ more \<and> sent w' = sent w"
proof -
  have "queued w = (l @ [CR]) @ LF # rest" using assms(2) by simp
  then obtain k w' more where
    r: "connection_readLine net c timeout maxBytes w = Inr (Some (pad (rtrim l) k), w')" "0 < k" "queued w' = rest @ more"
    using readLine_ready [of net c queued w "l @ [CR]" rest maxBytes timeout] assms by (auto simp: peer_laws_def)
  moreover have "sent w' = sent w" using assms(1) readLine_keeps [of net c sent, OF _ r(1)] by (simp add: peer_laws_def)
  ultimately show ?thesis by blast
qed

lemma readHeader_lines:
  assumes "peer_laws (we_net env) c queued sent" and "queued w = wire ls @ rest" and "list_all clean_line ls"
    and "sum_list (map length ls) + 2 \<le> remaining" and "absorbs i h ls h'"
  shows "\<exists>w' more. worker_readHeader env c i remaining h w = Inr ((True, h'), w') \<and> queued w' = rest @ more \<and> sent w' = sent w"
  using assms(2-5)
proof (induction ls arbitrary: i h w remaining rest)
  case Nil
  then obtain k w' more where
    "connection_readLine (we_net env) c REQUEST_READ_TIMEOUT remaining w = Inr (Some (pad [] k), w')"
    "queued w' = rest @ more" "sent w' = sent w"
    using peer_readLine [OF assms(1), of w "[]" rest remaining REQUEST_READ_TIMEOUT] by (auto simp: wire_def)
  with Nil.prems(4) show ?case by (simp add: worker_readHeader.simps [of env c i] string_getSize_def)
next
  case (Cons l ls)
  then have l: "clean_line l" by simp
  obtain h1 where h1: "\<And>k. k > 0 \<Longrightarrow> (if i = 0 then http_parseRequestLine h (pad l k) else http_parseHeader h (pad l k)) = Inr (True, h1)"
    "absorbs (Suc i) h1 ls h'" using Cons.prems(4) by auto
  have "queued w = l @ CRLF @ wire ls @ rest" using Cons.prems(1) by (simp add: wire_def)
  then obtain k w1 more where r: "connection_readLine (we_net env) c REQUEST_READ_TIMEOUT remaining w = Inr (Some (pad l k), w1)"
    "0 < k" "queued w1 = wire ls @ rest @ more" "sent w1 = sent w"
    using peer_readLine [OF assms(1), of w l "wire ls @ rest" remaining REQUEST_READ_TIMEOUT] l Cons.prems(3)
    by (auto simp: clean_line_def rtrim_last)
  have "worker_readHeader env c i remaining h w = worker_readHeader env c (Suc i) (remaining - length l) h1 w1"
    using r(1) h1(1) [OF r(2)] l by (simp add: worker_readHeader.simps [of env c i] string_getSize_def clean_line_def split: if_split_asm)
  moreover have "sum_list (map length ls) + 2 \<le> remaining - length l" using Cons.prems(3) by simp
  then obtain w' more' where "worker_readHeader env c (Suc i) (remaining - length l) h1 w1 = Inr ((True, h'), w')"
    "queued w' = (rest @ more) @ more'" "sent w' = sent w1"
    using Cons.IH [of w1 "rest @ more" "remaining - length l" "Suc i" h1] r(3) Cons.prems(2) h1(2) by auto
  ultimately show ?case using r(4) by auto
qed

section \<open>Headers of a request\<close>

definition good_header :: "string \<times> string \<Rightarrow> bool" where
  "good_header kv = (case kv of (k, v) \<Rightarrow> NUL \<notin> set k \<and> LF \<notin> set k \<and> CHR '':'' \<notin> set k \<and> clean_line v)"

definition header_line :: "string \<times> string \<Rightarrow> string" where
  "header_line kv = fst kv @ '': '' @ snd kv"

text \<open>The value a header has for the server: the last one whose name has the same hash.\<close>

definition header_value :: "(string \<times> string) list \<Rightarrow> string \<Rightarrow> string option" where
  "header_value hs name = map_of (rev (map (\<lambda>(k, v). (crc32 k, v)) hs)) (crc32 name)"

definition header_entries ::
  "string_t hash_table_entry_t list \<Rightarrow> (string \<times> string) list \<Rightarrow> string_t hash_table_entry_t list" where
  "header_entries es hs = foldl (\<lambda>es (k, v). entries_set es (str k) (Some (str v))) es hs"

lemma clean_header_line: "good_header kv \<Longrightarrow> clean_line (header_line kv)"
  by (cases kv) (auto simp: good_header_def header_line_def clean_line_def)

lemma param_ok_set: "list_all param_ok es \<Longrightarrow> is_text k \<Longrightarrow> is_text v \<Longrightarrow> list_all param_ok (entries_set es k (Some v))"
  by (auto simp: entries_set_def list_all_iff param_ok_def)

lemma header_entries_ok:
  "list_all param_ok es \<Longrightarrow> list_all good_header hs \<Longrightarrow> list_all param_ok (header_entries es hs)"
proof (induction hs arbitrary: es)
  case (Cons kv hs)
  then show ?case by (cases kv) (simp add: header_entries_def param_ok_set good_header_def clean_line_def)
qed (simp add: header_entries_def)

lemma header_entries_value:
  assumes "list_all good_header hs"
  shows "entries_map (header_entries [] hs) (crc32 name) = map_option (\<lambda>v. Some (str v)) (header_value hs name)"
  using assms
proof (induction hs rule: rev_induct)
  case Nil
  then show ?case by (simp add: header_entries_def header_value_def entries_map_def)
next
  case (snoc kv hs)
  then show ?case
    by (cases kv) (simp add: header_entries_def header_value_def entries_map_set key_hash_def good_header_def)
qed

lemma absorbs_headers:
  assumes "ht_rep (http_headers h) es" and "list_all good_header hs"
  shows "\<exists>t. absorbs (Suc i) h (map header_line hs) (h\<lparr>http_headers := t\<rparr>) \<and> ht_rep t (header_entries es hs)"
  using assms
proof (induction hs arbitrary: i h es)
  case Nil
  then show ?case by (intro exI [of _ "http_headers h"]) (simp add: header_entries_def)
next
  case (Cons kv hs)
  obtain k v where kv: "kv = (k, v)" by fastforce
  have g: "NUL \<notin> set (k @ v)" "CHR '':'' \<notin> set k" "v \<noteq> []" "key_ok (str k)"
    using Cons.prems(2) kv by (auto simp: good_header_def clean_line_def)
  obtain t1 where t1: "http_setHeader h (str k) (Some (str v)) = Inr (h\<lparr>http_headers := t1\<rparr>)"
    "ht_rep t1 (entries_set es (str k) (Some (str v)))"
    using setHeader_rep [OF Cons.prems(1) g(4)] by blast
  obtain t where "absorbs (Suc (Suc i)) (h\<lparr>http_headers := t1\<rparr>) (map header_line hs) (h\<lparr>http_headers := t\<rparr>)"
    "ht_rep t (header_entries (entries_set es (str k) (Some (str v))) hs)"
    using Cons.IH [of "h\<lparr>http_headers := t1\<rparr>" "entries_set es (str k) (Some (str v))" "Suc i"] t1(2) Cons.prems(2) by auto
  moreover have "http_parseHeader h (pad (header_line kv) n) = Inr (True, h\<lparr>http_headers := t1\<rparr>)" for n
    using parseHeader_text [OF g(1-3), of "header_line kv" h] t1(1) kv by (simp add: header_line_def)
  ultimately show ?case using kv by (intro exI [of _ t]) (auto simp: header_entries_def)
qed

text \<open>The request as it is stored after its header was read.\<close>

definition stored_request :: "string \<Rightarrow> string \<Rightarrow> string_t hash_table_t \<Rightarrow> http_t" where
  "stored_request m path t = http_create\<lparr>http_method := method_of m, http_version := Some (str ''1.1''),
     http_url := Some (url_create\<lparr>url_protocol := Some (str ''http''), url_path := Some (str path)\<rparr>), http_headers := t\<rparr>"

definition request_line :: "string \<Rightarrow> string \<Rightarrow> string" where
  "request_line m path = m @ SP # path @ '' HTTP/1.1''"

definition good_target :: "string \<Rightarrow> string \<Rightarrow> bool" where
  "good_target m path \<longleftrightarrow> NUL \<notin> set (m @ path) \<and> SP \<notin> set (m @ path) \<and> LF \<notin> set (m @ path)
     \<and> m \<noteq> [] \<and> path \<noteq> [] \<and> CHR ''?'' \<notin> set path"

lemma version_ok: "version_text_ok ''HTTP/1.1''"
  by code_simp

lemma absorbs_request:
  assumes "good_target m path" and "list_all good_header hs"
  shows "\<exists>t. absorbs 0 http_create (request_line m path # map header_line hs) (stored_request m path t)
    \<and> ht_rep t (header_entries [] hs)"
proof -
  let ?h = "stored_request m path hash_table_create"
  have "http_parseRequestLine http_create (pad (request_line m path) k) = Inr (True, ?h)" for k
    using requestLine_plain [of m path "''HTTP/1.1''" http_create k] assms(1) version_ok
    by (simp add: good_target_def request_line_def stored_request_def http_create_def)
  moreover obtain t where "absorbs (Suc 0) ?h (map header_line hs) (?h\<lparr>http_headers := t\<rparr>)" "ht_rep t (header_entries [] hs)"
    using absorbs_headers [of ?h "[]" hs 0] assms(2) ht_rep_create by (auto simp: stored_request_def)
  ultimately show ?thesis by (intro exI [of _ t]) (auto simp: stored_request_def)
qed

section \<open>Answers\<close>

definition answer_text :: "nat \<Rightarrow> string \<Rightarrow> nat \<Rightarrow> string \<Rightarrow> string" where
  "answer_text code mime n body =
     ''HTTP/1.1 '' @ dec code @ '' '' @ http_code_text code @ CRLF
     @ ''Content-Length: '' @ dec n @ CRLF @ ''Content-Type: '' @ mime @ CRLF @ CRLF @ body"

text \<open>A response with the two headers of every answer of the server.\<close>

definition answer_entries :: "nat \<Rightarrow> string_t \<Rightarrow> string_t hash_table_entry_t list" where
  "answer_entries n mime = entries_set (entries_set [] (str ''Content-Length'') (Some (str (dec n)))) (str ''Content-Type'') (Some mime)"

lemma answer_hashes: "crc32 ''Content-Length'' \<noteq> crc32 ''Content-Type''"
  by (simp add: crc32_def crc_byte_unfold crc_bit_alt)

lemma answer_entries_eq:
  "answer_entries n mime =
    [\<lparr>ent_keyHash = crc32 ''Content-Length'', ent_key = str ''Content-Length'', ent_value = Some (str (dec n))\<rparr>,
     \<lparr>ent_keyHash = crc32 ''Content-Type'', ent_key = str ''Content-Type'', ent_value = Some mime\<rparr>]"
  using answer_hashes by (auto simp: answer_entries_def entries_set_def entries_map_def key_hash_def)

lemma free_opt_ok [simp]: "free_opt p = Inr ()"
  by (cases p) (simp_all add: free_opt_def string_free_def)

lemma http_free_ok:
  assumes "ht_rep (http_headers h) es" and "list_all param_ok es"
    and "case http_url h of None \<Rightarrow> True | Some u \<Rightarrow> \<exists>ps. ht_rep (url_parameters u) ps \<and> list_all param_ok ps"
  shows "http_free h = Inr ()"
proof -
  obtain t where "url_free_parameters (length es) (http_headers h) = Inr t" "ht_rep t []"
    using free_parameters_wf [OF assms(1,2) order_refl] by blast
  moreover have "\<exists>f. url_free u = Inr f" if u: "http_url h = Some u" for u
  proof -
    obtain ps where ps: "ht_rep (url_parameters u) ps" "list_all param_ok ps" using assms(3) u by auto
    obtain t where "url_free_parameters (length ps) (url_parameters u) = Inr t" "ht_rep t []"
      using free_parameters_wf [OF ps order_refl] by blast
    then show ?thesis using ht_rep_free ht_rep_length [OF ps(1)] by (fastforce simp: url_free_def)
  qed
  ultimately show ?thesis using ht_rep_free ht_rep_length [OF assms(1)]
    by (fastforce simp: http_free_def split: option.split)
qed

text \<open>The peer received a prefix of \<open>T\<close>, of the length that was returned.\<close>

definition received :: "('w \<Rightarrow> bytes) \<Rightarrow> 'w \<Rightarrow> bytes \<Rightarrow> nat \<Rightarrow> 'w \<Rightarrow> bool" where
  "received sent w T k w' \<longleftrightarrow> k \<le> length T \<and> sent w' = sent w @ take k T"

lemma write_answer:
  assumes "send_laws net c sent" and "conn_sourceAddress c \<noteq> None" and "NUL \<notin> set xs"
  shows "\<exists>k w'. connection_write net c (string_getBuffer (grow K xs)) n w = Inr (k, w') \<and> received sent w xs k w'"
proof -
  have "NUL \<in> set (xs @ replicate (cap_after K (length xs)) NUL)" using cap_after_pos [of K "length xs"] by simp
  from connection_write_sends [OF assms(1,2) this, of n w] assms(3) show ?thesis
    by (simp add: grow_def string_getBuffer_def received_def)
qed

definition body_text :: "string_t option \<Rightarrow> string" where
  "body_text p = (case p of None \<Rightarrow> [] | Some s \<Rightarrow> key_text s)"

definition answer_ready :: "http_t \<Rightarrow> nat \<Rightarrow> string \<Rightarrow> nat \<Rightarrow> bool" where
  "answer_ready r code mime n \<longleftrightarrow> http_version r = Some (str ''1.1'') \<and> http_responseCode r = code \<and> code < 65536
     \<and> http_responseCodeText r = Some (str (http_code_text code)) \<and> ht_rep (http_headers r) (answer_entries n (str mime))
     \<and> NUL \<notin> set mime \<and> http_url r = None"

lemma NUL_key_text [simp]: "key_ok s \<Longrightarrow> NUL \<notin> set (key_text s)"
  by (auto simp: key_ok_def key_text_def split: option.splits)

lemma answer_response_text:
  assumes "answer_ready r code mime n"
  shows "response_text r (answer_entries n (str mime)) = answer_text code mime n (body_text (http_body r))"
  using assms by (simp add: answer_ready_def response_text_def answer_entries_eq header_text_def answer_text_def body_text_def)

lemma respond_ok:
  assumes laws: "send_laws net c sent" "conn_sourceAddress c \<noteq> None"
    and ready: "answer_ready r code mime n" "bytes_opt_ok (http_body r)"
  shows "\<exists>R t k w'. http_toResponseString r = Inr (R, r\<lparr>http_headers := t\<rparr>) \<and> ht_rep t (answer_entries n (str mime))
    \<and> connection_write net c (string_getBuffer R) (string_getSize R) w = Inr (k, w')
    \<and> received sent w (answer_text code mime n (body_text (http_body r))) k w'"
proof -
  let ?T = "answer_text code mime n (body_text (http_body r))"
  have "http_wf r (answer_entries n (str mime))"
    using ready by (auto simp: http_wf_def answer_ready_def answer_entries_eq header_ok_def bytes_opt_ok_def)
  then obtain K t where "http_toResponseString r = Inr (grow K ?T, r\<lparr>http_headers := t\<rparr>)" "ht_rep t (answer_entries n (str mime))"
    using toResponseString_wf answer_response_text [OF ready(1)] by metis
  moreover have "NUL \<notin> set ?T"
    using ready by (cases "http_body r") (auto simp: answer_text_def body_text_def answer_ready_def bytes_opt_ok_def)
  ultimately show ?thesis using write_answer [OF laws, of ?T] by blast
qed

lemma answer_free:
  assumes "answer_ready r code mime n" and "ht_rep t (answer_entries n (str mime))"
  shows "http_free (r\<lparr>http_headers := t\<rparr>) = Inr ()" and "http_free (r\<lparr>http_headers := t, http_body := b\<rparr>) = Inr ()"
  using assms by (auto intro!: http_free_ok [of _ "answer_entries n (str mime)"]
      simp: answer_ready_def answer_entries_eq param_ok_def)

text \<open>Building the response of an answer.\<close>

lemma setHeader_mime:
  assumes "ht_rep (http_headers r) (entries_set [] (str ''Content-Length'') (Some (str (dec n))))"
  shows "\<exists>t. http_setHeader r (str ''Content-Type'') (Some (str mime)) = Inr (r\<lparr>http_headers := t\<rparr>) \<and> ht_rep t (answer_entries n (str mime))"
  using setHeader_rep [OF assms, of "str ''Content-Type''" "Some (str mime)"] by (simp add: answer_entries_def)

lemma sendPage_ok:
  assumes laws: "send_laws (we_net env) c sent" "conn_sourceAddress c \<noteq> None"
    and page: "page = \<lparr>page_source = Some (str html), page_templates = None\<rparr>" "NUL \<notin> set html" "length html < 2 ^ 31"
    and code: "code < 65536"
  shows "\<exists>k w'. worker_sendPage env c request code page w = Inr (k, w')
    \<and> received sent w (answer_text code ''text/html'' (length html)
         (if http_method request = HTTP_METHOD_HEAD then [] else html)) k w'"
proof -
  obtain t where t: "http_setBody http_create (Some (str html)) = Inr (http_create\<lparr>http_body := Some (str html), http_headers := t\<rparr>)"
    "ht_rep t (entries_set [] (str ''Content-Length'') (Some (str (dec (length html)))))"
    using setBody_rep [OF http_create_rep page(3)] by blast
  define b where "b = (if http_method request = HTTP_METHOD_HEAD then None else Some (str html))"
  define r where "r = http_create\<lparr>http_version := Some (str ''1.1''), http_responseCode := code,
    http_responseCodeText := Some (str (http_code_text code)), http_headers := t, http_body := b\<rparr>"
  obtain t1 where t1: "http_setHeader r (str ''Content-Type'') (Some (str ''text/html'')) = Inr (r\<lparr>http_headers := t1\<rparr>)"
    "ht_rep t1 (answer_entries (length html) (str ''text/html''))"
    using setHeader_mime [of r "length html" "''text/html''"] t(2) by (auto simp: r_def)
  have ready: "answer_ready (r\<lparr>http_headers := t1\<rparr>) code ''text/html'' (length html)" "bytes_opt_ok (http_body (r\<lparr>http_headers := t1\<rparr>))"
    "body_text (http_body (r\<lparr>http_headers := t1\<rparr>)) = (if http_method request = HTTP_METHOD_HEAD then [] else html)"
    using t1(2) code page(2) by (auto simp: answer_ready_def r_def b_def http_create_def bytes_opt_ok_def body_text_def)
  obtain R t2 k w' where R: "http_toResponseString (r\<lparr>http_headers := t1\<rparr>) = Inr (R, r\<lparr>http_headers := t2\<rparr>)"
    "ht_rep t2 (answer_entries (length html) (str ''text/html''))"
    "connection_write (we_net env) c (string_getBuffer R) (string_getSize R) w = Inr (k, w')"
    "received sent w (answer_text code ''text/html'' (length html) (if http_method request = HTTP_METHOD_HEAD then [] else html)) k w'"
    using respond_ok [OF laws ready(1,2), of w] unfolding ready(3) by auto
  have free: "http_free (r\<lparr>http_headers := t2, http_body := None\<rparr>) = Inr ()"
    using answer_free(2) [OF ready(1) R(2)] by simp
  have "worker_sendPage env c request code page w = Inr (k, w')"
    using t(1) t1(1) R(1,3) free page(1)
    by (cases "http_method request = HTTP_METHOD_HEAD") (simp_all add: b_def worker_sendPage_def page_getSource_def http_getMethod_def http_setResponseCode_def codeToString_eq fromBuffer_lit
        http_setVersion_def r_def http_create_def string_free_def page_free_def page_clearTemplates_def Let_def)
  then show ?thesis using R(4) by blast
qed

section \<open>Serving a file\<close>

definition mime_of :: "string \<Rightarrow> string" where
  "mime_of p = (case mime_map (dropWhile (\<lambda>c. c \<noteq> CHR ''.'') p) of None \<Rightarrow> ''text/plain'' | Some m \<Rightarrow> m)"

lemma NUL_mime_of [simp]: "NUL \<notin> set (mime_of p)"
proof (cases "mime_map (dropWhile (\<lambda>c. c \<noteq> CHR ''.'') p)")
  case (Some m)
  then have "m \<in> set mime_types" by (auto simp: mime_map_def dest!: map_of_SomeD set_zip_rightD)
  then show ?thesis using Some mime_tables(5) by (auto simp: mime_of_def list_all_iff)
qed (simp add: mime_of_def)

lemma getMIMEType_of:
  assumes "NUL \<notin> set p"
  shows "bnd (resources_getMIMEType (str p)) (\<lambda>mimeType.
      bnd (case mimeType of None \<Rightarrow> string_fromBuffer (lit ''text/plain'') | Some m \<Rightarrow> Inr m) f) = f (str (mime_of p))"
  using getMIMEType_eq [OF assms, of 1] by (simp add: mime_of_def fromBuffer_lit split: option.split)

text \<open>A readable file: what the server reads of it, and what it sends of that.\<close>

definition file_ok :: "file_t \<Rightarrow> bool" where
  "file_ok f \<longleftrightarrow> file_seek f \<and> file_tell f = int (length (file_bytes f)) \<and> length (file_bytes f) < 2 ^ 31"

definition read_part :: "file_t \<Rightarrow> bytes" where
  "read_part f = takeWhile (\<lambda>c. c \<noteq> FF) (file_bytes f)"

definition sent_part :: "file_t \<Rightarrow> bytes" where
  "sent_part f = takeWhile (\<lambda>c. c \<noteq> NUL) (read_part f)"

lemma key_text_pad: "0 < k \<Longrightarrow> key_text (pad xs k) = takeWhile (\<lambda>c. c \<noteq> NUL) xs"
proof -
  assume "0 < k"
  then obtain j where "k = Suc j" by (cases k) auto
  then show ?thesis by (simp add: key_text_def cstr_def) (induction xs; simp)
qed

lemma key_ok_pad: "0 < k \<Longrightarrow> key_ok (pad xs k)"
  by (simp add: key_ok_def)

lemma loadFile_read:
  assumes "fopen p = Some f" and "file_ok f" and "NUL \<notin> set p" and "file_bytes f \<noteq> []"
  shows "\<exists>k. resources_loadFile fopen (str p) = Inr (Some (pad (read_part f) k)) \<and> 0 < k"
proof -
  have "length (read_part f) \<le> length (file_bytes f)" by (simp add: read_part_def length_takeWhile_le)
  then show ?thesis using loadFile_found [of "str p" fopen f] assms
    by (auto simp: file_ok_def read_part_def Let_def)
qed

lemma return200_ok:
  assumes laws: "send_laws (we_net env) c sent" "conn_sourceAddress c \<noteq> None"
    and fil: "we_fopen env p = Some f" "file_ok f" "file_bytes f \<noteq> []" "NUL \<notin> set p" and url: "http_url request \<noteq> None"
  shows "\<exists>k w'. worker_return200 env c request (str p) w = Inr (k, w')
    \<and> received sent w (answer_text 200 (mime_of p) (length (read_part f))
         (if http_method request = HTTP_METHOD_HEAD then [] else sent_part f)) k w'"
proof -
  let ?n = "length (read_part f)"
  obtain j where load: "resources_loadFile (we_fopen env) (str p) = Inr (Some (pad (read_part f) j))" "0 < j"
    using loadFile_read [of "we_fopen env", OF fil(1,2,4,3)] by blast
  define b where "b = Some (pad (read_part f) j)"
  define r where "r = http_create\<lparr>http_version := Some (str ''1.1''), http_responseCode := 200,
    http_responseCodeText := Some (str (http_code_text 200))\<rparr>"
  have "?n < 2 ^ 31" using fil(2) length_takeWhile_le [of "\<lambda>c. c \<noteq> FF" "file_bytes f"] by (simp add: file_ok_def read_part_def)
  then obtain t where t: "http_setBody r b = Inr (r\<lparr>http_body := b, http_headers := t\<rparr>)"
    "ht_rep t (entries_set [] (str ''Content-Length'') (Some (str (dec ?n))))"
    using setBody_rep [of r "[]" "read_part f" j] http_create_rep by (auto simp: r_def b_def)
  obtain t1 where t1: "http_setHeader (r\<lparr>http_body := b, http_headers := t\<rparr>) (str ''Content-Type'') (Some (str (mime_of p)))
      = Inr (r\<lparr>http_body := b, http_headers := t1\<rparr>)" "ht_rep t1 (answer_entries ?n (str (mime_of p)))"
    using setHeader_mime [of "r\<lparr>http_body := b, http_headers := t\<rparr>" ?n "mime_of p"] t(2) by auto
  define r1 where "r1 = r\<lparr>http_headers := t1, http_body := if http_method request = HTTP_METHOD_HEAD then None else b\<rparr>"
  have ready: "answer_ready r1 200 (mime_of p) ?n" "bytes_opt_ok (http_body r1)"
    "body_text (http_body r1) = (if http_method request = HTTP_METHOD_HEAD then [] else sent_part f)"
    using t1(2) load(2)
    by (auto simp: answer_ready_def r1_def r_def b_def http_create_def bytes_opt_ok_def body_text_def key_text_pad key_ok_pad sent_part_def)
  obtain R t2 k w' where R: "http_toResponseString r1 = Inr (R, r1\<lparr>http_headers := t2\<rparr>)"
    "ht_rep t2 (answer_entries ?n (str (mime_of p)))"
    "connection_write (we_net env) c (string_getBuffer R) (string_getSize R) w = Inr (k, w')"
    "received sent w (answer_text 200 (mime_of p) ?n (if http_method request = HTTP_METHOD_HEAD then [] else sent_part f)) k w'"
    using respond_ok [OF laws ready(1,2), of w] unfolding ready(3) by auto
  have body: "http_method request = HTTP_METHOD_HEAD \<Longrightarrow> r\<lparr>http_headers := t1, http_body := None\<rparr> = r1"
    "http_method request \<noteq> HTTP_METHOD_HEAD \<Longrightarrow> r\<lparr>http_body := Some (pad (read_part f) j), http_headers := t1\<rparr> = r1"
    by (simp_all add: r1_def b_def)
  have "worker_sendFile env c request (str p) r (the b) w = Inr (k, w')"
    unfolding worker_sendFile_def
    using t(1) t1(1) R(1,3) body url answer_free(1) [OF ready(1) R(2)]
    by (cases "http_method request = HTTP_METHOD_HEAD") (auto simp: getMIMEType_of [OF fil(4)] fromBuffer_lit b_def http_getMethod_def http_getUrl_def string_free_def exec_simps)
  then have "worker_return200 env c request (str p) w = Inr (k, w')"
    using load(1)
    by (simp add: worker_return200_def http_setResponseCode_def codeToString_eq fromBuffer_lit http_setVersion_def r_def
        http_create_def b_def)
  then show ?thesis using R(4) by blast
qed

text \<open>An empty file has no buffer, and a response cannot carry a body without one.\<close>

lemma toResponseString_null_body:
  assumes "http_wf (h\<lparr>http_body := None\<rparr>) es"
  shows "http_toResponseString (h\<lparr>http_body := Some string_create\<rparr>) = Inl NullPointer"
proof -
  obtain R h' where "http_toResponseString (h\<lparr>http_body := None\<rparr>) = Inr (R, h')" using toResponseString_wf [OF assms] by blast
  then show ?thesis
    unfolding http_toResponseString_def Let_def
    by (clarsimp simp: bnd_eq_Inr string_getSize_def string_create_def string_append_def)
qed

lemma return200_empty:
  assumes "we_fopen env p = Some f" and "file_ok f" and "file_bytes f = []" and "NUL \<notin> set p"
    and "http_method request \<noteq> HTTP_METHOD_HEAD"
  shows "worker_return200 env c request (str p) w = Inl NullPointer"
proof -
  define r where "r = http_create\<lparr>http_version := Some (str ''1.1''), http_responseCode := 200,
    http_responseCodeText := Some (str (http_code_text 200))\<rparr>"
  have load: "resources_loadFile (we_fopen env) (str p) = Inr (Some string_create)"
    using loadFile_found [of "str p" "we_fopen env" f] assms(1-4) by (simp add: file_ok_def)
  have zero: "string_fromInt (to_int32 (int (string_getSize string_create))) = Inr (str (dec 0))"
    using url_fromInt [of 0] by (simp add: string_getSize_def string_create_def to_int32_def)
  obtain t where t: "http_setHeader (r\<lparr>http_body := Some string_create\<rparr>) (str ''Content-Length'') (Some (str (dec 0)))
      = Inr (r\<lparr>http_body := Some string_create, http_headers := t\<rparr>)"
    "ht_rep t (entries_set [] (str ''Content-Length'') (Some (str (dec 0))))"
    using setHeader_rep [of "r\<lparr>http_body := Some string_create\<rparr>" "[]" "str ''Content-Length''"] http_create_rep
    by (auto simp: r_def)
  obtain t1 where t1: "http_setHeader (r\<lparr>http_body := Some string_create, http_headers := t\<rparr>) (str ''Content-Type'') (Some (str (mime_of p)))
      = Inr (r\<lparr>http_body := Some string_create, http_headers := t1\<rparr>)" "ht_rep t1 (answer_entries 0 (str (mime_of p)))"
    using setHeader_mime [of "r\<lparr>http_body := Some string_create, http_headers := t\<rparr>" 0 "mime_of p"] t(2) by auto
  have "http_wf (r\<lparr>http_headers := t1, http_body := None\<rparr>) (answer_entries 0 (str (mime_of p)))"
    using t1(2) by (auto simp: http_wf_def r_def http_create_def answer_entries_eq header_ok_def bytes_opt_ok_def)
  moreover have "r\<lparr>http_headers := t1, http_body := Some string_create\<rparr> = r\<lparr>http_body := Some string_create, http_headers := t1\<rparr>" by simp
  ultimately have "http_toResponseString (r\<lparr>http_body := Some string_create, http_headers := t1\<rparr>) = Inl NullPointer"
    using toResponseString_null_body [of "r\<lparr>http_headers := t1\<rparr>"] by metis
  then have "worker_sendFile env c request (str p) r string_create w = Inl NullPointer"
    unfolding worker_sendFile_def
    using t(1) t1(1) assms(5) zero
    by (simp add: getMIMEType_of [OF assms(4)] fromBuffer_lit http_getMethod_def http_setBody_def Let_def)
  then show ?thesis
    using load by (simp add: worker_return200_def http_setResponseCode_def codeToString_eq fromBuffer_lit http_setVersion_def r_def
        http_create_def)
qed

section \<open>From the header to the server\<close>

text \<open>The value of the header \<^verbatim>\<open>Host\<close> names a domain and a port, 80 when it is left out.\<close>

definition names_host :: "string \<Rightarrow> string \<Rightarrow> nat \<Rightarrow> bool" where
  "names_host host d port \<longleftrightarrow> CHR '':'' \<notin> set d \<and> NUL \<notin> set d
     \<and> (host = d \<and> port = 80 \<or> host = d @ '':'' @ dec port \<and> port < 65536)"

definition target_url :: "string \<Rightarrow> string \<Rightarrow> nat \<Rightarrow> url_t" where
  "target_url path d port = url_create\<lparr>url_protocol := Some (str ''http''), url_path := Some (str path),
     url_port := port, url_domainName := Some (str d)\<rparr>"

definition hosted_request :: "string \<Rightarrow> string \<Rightarrow> string \<Rightarrow> nat \<Rightarrow> string_t hash_table_t \<Rightarrow> http_t" where
  "hosted_request m path d port t = (stored_request m path t)\<lparr>http_url := Some (target_url path d port)\<rparr>"

lemma hosted_fields [simp]:
  "http_url (hosted_request m path d port t) = Some (target_url path d port)"
  "http_method (hosted_request m path d port t) = method_of m"
  "http_headers (hosted_request m path d port t) = t"
  "(hosted_request m path d port t)\<lparr>http_headers := t'\<rparr> = hosted_request m path d port t'"
  "url_path (target_url path d port) = Some (str path)" "url_port (target_url path d port) = port"
  "url_domainName (target_url path d port) = Some (str d)"
  by (simp_all add: hosted_request_def stored_request_def target_url_def)

lemma parseHost_names:
  assumes "ht_rep t es" and "entries_map es (crc32 ''Host'') = Some (Some (str host))" and "names_host host d port"
  shows "\<exists>t'. http_parseHost (stored_request m path t) = Inr (True, hosted_request m path d port t') \<and> ht_rep t' es"
proof -
  let ?h = "stored_request m path t" and ?u = "url_create\<lparr>url_protocol := Some (str ''http''), url_path := Some (str path)\<rparr>"
  have host: "NUL \<notin> set host" using assms(3) by (auto simp: names_host_def)
  have u: "?u = (case http_url ?h of None \<Rightarrow> url_create | Some u \<Rightarrow> u)" by (simp add: stored_request_def)
  obtain t' where t': "ht_rep t' es"
    "CHR '':'' \<notin> set host \<longrightarrow> http_parseHost ?h = Inr (True, ?h\<lparr>http_headers := t',
        http_url := Some (?u\<lparr>url_port := 80, url_domainName := Some (str host)\<rparr>)\<rparr>)"
    "\<forall>d p. host = d @ '':'' @ p \<and> CHR '':'' \<notin> set d \<longrightarrow> http_parseHost ?h =
         (if p = [] then Inl NullPointer
          else bnd (atoi (lit p)) (\<lambda>port.
            if port < 0 \<or> port > 2 ^ 16 then Inr (False, ?h\<lparr>http_headers := t', http_url := Some ?u\<rparr>)
            else Inr (True, ?h\<lparr>http_headers := t',
                   http_url := Some (?u\<lparr>url_port := to_u16 port, url_domainName := Some (str d)\<rparr>)\<rparr>)))"
    using parseHost_found [OF _ assms(2) host _ u] assms(1) by (auto simp: stored_request_def)
  have "port < 65536 \<Longrightarrow> atoi (lit (dec port)) = Inr (int port)" using atoi_dec [of port "[]"] by (simp add: lit_def)
  with t'(2,3) assms(3) have "http_parseHost ?h = Inr (True, hosted_request m path d port t')"
    by (auto simp: names_host_def hosted_request_def target_url_def stored_request_def to_u16_def)
  with t'(1) show ?thesis by blast
qed

lemma hosted_free:
  "ht_rep t es \<Longrightarrow> list_all param_ok es \<Longrightarrow> http_free (hosted_request m path d port t) = Inr ()"
  by (rule http_free_ok [of _ es]) (auto simp: target_url_def url_create_def intro: ht_rep_create exI [of _ "[]"])

text \<open>A request on a socket, up to the lookup of its server.\<close>

definition request_arrived ::
  "('w \<Rightarrow> bytes) \<Rightarrow> string \<Rightarrow> string \<Rightarrow> (string \<times> string) list \<Rightarrow> bytes \<Rightarrow> 'w \<Rightarrow> bool" where
  "request_arrived queued m path hs rest w \<longleftrightarrow>
     queued w = wire (request_line m path # map header_line hs) @ rest \<and> good_target m path \<and> list_all good_header hs
   \<and> length (wire (request_line m path # map header_line hs)) \<le> REQUEST_MAX_HEADER_SIZE"

lemma length_wire: "sum_list (map length ls) + 2 \<le> length (wire ls)"
  by (induction ls) (simp_all add: wire_def)

lemma handle_request:
  assumes laws: "peer_laws (we_net env) c queued sent" and req: "request_arrived queued m path hs rest w"
    and host: "header_value hs ''Host'' = Some host" "names_host host d port"
    and conf: "list_inv (cfg_serverConfigs config) scs" "\<forall>sc \<in> set scs. has_domain sc"
  shows "\<exists>w1 more t config1. queued w1 = rest @ more \<and> sent w1 = sent w \<and> ht_rep t (header_entries [] hs)
    \<and> list_inv (cfg_serverConfigs config1) scs
    \<and> worker_handleConnection env (Some config) c w =
       (case find (\<lambda>sc. port = to_u16 (sc_port sc) \<and> domain_text sc = d) scs of
          None \<Rightarrow>
            bnd (worker_finish (bnd (string_fromBuffer (lit ''The requested domain is not served by this server'')) (\<lambda>x.
                   worker_return500 env c (hosted_request m path d port t) x w1)) (hosted_request m path d port t)) (\<lambda>(r, w2).
              Inr (r, Some config1, w2))
        | Some sc \<Rightarrow>
            bnd (worker_serve env config1 c (hosted_request m path d port t) (target_url path d port) (str d) sc w1) (\<lambda>(r, config2, w2).
              Inr (r, Some config2, w2)))"
proof -
  let ?ls = "request_line m path # map header_line hs"
  have good: "good_target m path" "list_all good_header hs" "queued w = wire ?ls @ rest" "length (wire ?ls) \<le> REQUEST_MAX_HEADER_SIZE"
    using req by (simp_all add: request_arrived_def)
  obtain t where t: "absorbs 0 http_create ?ls (stored_request m path t)" "ht_rep t (header_entries [] hs)"
    using absorbs_request [OF good(1,2)] by blast
  have "list_all clean_line ?ls"
    using good(1,2) by (auto simp: list_all_iff clean_header_line)
      (auto simp: clean_line_def request_line_def good_target_def is_trimmed_def)
  moreover have "sum_list (map length ?ls) + 2 \<le> REQUEST_MAX_HEADER_SIZE" using length_wire [of ?ls] good(4) by linarith
  ultimately obtain w1 more where w1: "worker_readHeader env c 0 REQUEST_MAX_HEADER_SIZE http_create w = Inr ((True, stored_request m path t), w1)"
    "queued w1 = rest @ more" "sent w1 = sent w"
    using readHeader_lines [OF laws good(3) _ _ t(1)] by blast
  have "entries_map (header_entries [] hs) (crc32 ''Host'') = Some (Some (str host))"
    using header_entries_value [OF good(2)] host(1) by simp
  then obtain t' where t': "http_parseHost (stored_request m path t) = Inr (True, hosted_request m path d port t')"
    "ht_rep t' (header_entries [] hs)"
    using parseHost_names [OF t(2) _ host(2)] by blast
  have d: "NUL \<notin> set d" using host(2) by (simp add: names_host_def)
  then obtain config1 where c1: "config_getServerConfigByDomain config (str d) port
      = Inr (find (\<lambda>sc. port = to_u16 (sc_port sc) \<and> domain_text sc = d) scs, config1)" "list_inv (cfg_serverConfigs config1) scs"
    using config_lookups(1) [OF conf, of "str d" port] by auto
  have "worker_handleConnection env (Some config) c w =
       (case find (\<lambda>sc. port = to_u16 (sc_port sc) \<and> domain_text sc = d) scs of
          None \<Rightarrow>
            bnd (worker_finish (bnd (string_fromBuffer (lit ''The requested domain is not served by this server'')) (\<lambda>x.
                   worker_return500 env c (hosted_request m path d port t') x w1)) (hosted_request m path d port t')) (\<lambda>(r, w2).
              Inr (r, Some config1, w2))
        | Some sc \<Rightarrow>
            bnd (worker_serve env config1 c (hosted_request m path d port t') (target_url path d port) (str d) sc w1) (\<lambda>(r, config2, w2).
              Inr (r, Some config2, w2)))"
    using w1(1) t'(1) c1(1)
    by (simp add: worker_handleConnection_def http_getUrl_def config_getGlobalConfig_def url_getDomainName_def url_getPort_def)
  then show ?thesis using w1(2,3) t'(2) c1(2) by blast
qed

section \<open>From the path to the file\<close>

text \<open>The file a path stands for: its canonical path inside the root, or for anything but a regular file the first
  of the index files that resolves inside it.\<close>

definition resolves :: "'w worker_env \<Rightarrow> string \<Rightarrow> string \<Rightarrow> string option" where
  "resolves env root rel =
     (case we_realpath env (root @ ''/'' @ rel) of
        None \<Rightarrow> None
      | Some p \<Rightarrow> if prefix root p then Some p else None)"

definition regular :: "'w worker_env \<Rightarrow> string \<Rightarrow> bool" where
  "regular env p = (case we_stat env p of None \<Rightarrow> False | Some mode \<Rightarrow> mode AND S_IFMT = S_IFREG)"

definition executable :: "'w worker_env \<Rightarrow> string \<Rightarrow> bool" where
  "executable env p = (case we_stat env p of None \<Rightarrow> False | Some mode \<Rightarrow> mode AND S_IXUSR \<noteq> 0)"

fun first_index :: "'w worker_env \<Rightarrow> string \<Rightarrow> string list \<Rightarrow> string option" where
  "first_index env p [] = None"
| "first_index env p (n # ns) = (case resolves env p n of None \<Rightarrow> first_index env p ns | Some q \<Rightarrow> Some q)"

definition chosen_file :: "'w worker_env \<Rightarrow> string \<Rightarrow> string list \<Rightarrow> string \<Rightarrow> string option" where
  "chosen_file env root index path =
     (case resolves env root path of
        None \<Rightarrow> None
      | Some p \<Rightarrow> Some (if regular env p then p else case first_index env p index of None \<Rightarrow> p | Some q \<Rightarrow> q))"

text \<open>A server with a root directory and the names of its index files.\<close>

definition site :: "server_config_t \<Rightarrow> string \<Rightarrow> string list \<Rightarrow> bool" where
  "site sc root index \<longleftrightarrow> sc_rootDirectory sc = Some (str root) \<and> NUL \<notin> set root
     \<and> (\<forall>n \<in> set index. NUL \<notin> set n)
     \<and> (case sc_directoryIndex sc of None \<Rightarrow> index = [] | Some l \<Rightarrow> list_inv l (map (\<lambda>n. StringValue (str n)) index))"

lemma path_resolve_resolves:
  assumes "realpath_text (we_realpath env)" and "NUL \<notin> set root" and "NUL \<notin> set rel"
  shows "path_resolve (we_realpath env) (Some (str rel)) (str root) = Inr (map_option str (resolves env root rel))"
  using path_resolve_eq [OF assms(1) _ _ assms(2,3), of 1 1] by (simp add: resolves_def split: option.split)

lemma NUL_resolves: "realpath_text (we_realpath env) \<Longrightarrow> resolves env root rel = Some p \<Longrightarrow> NUL \<notin> set p"
  by (auto simp: realpath_text_def resolves_def split: option.split_asm if_split_asm)

lemma NUL_first_index: "realpath_text (we_realpath env) \<Longrightarrow> first_index env p ns = Some q \<Longrightarrow> NUL \<notin> set q"
  by (induction ns) (auto split: option.split_asm dest: NUL_resolves)

lemma stat_text:
  assumes "NUL \<notin> set p"
  shows "resources_isFile (we_stat env) (str p) = Inr (regular env p)"
    and "resources_isExecutable (we_stat env) (str p) = Inr (executable env p)"
  using assms by (simp_all add: resources_isFile_def resources_isExecutable_def regular_def executable_def
      string_getBuffer_def strlen_def)

lemma findIndex_first:
  assumes "realpath_text (we_realpath env)" and "NUL \<notin> set p" and "\<forall>n \<in> set index. NUL \<notin> set n"
    and "list_inv l (map (\<lambda>n. StringValue (str n)) index)" and "i + n = length index" and "i = 0 \<or> list_currentIndex l = i - 1"
  shows "worker_findIndex env n i l (str p) = Inr (map_option str (first_index env p (drop i index)))"
  using assms(4-6)
proof (induction n arbitrary: i l)
  case 0
  then show ?case by simp
next
  case (Suc n)
  then have i: "i < length index" by simp
  have "move_safe (length index) (list_currentIndex l) i" using Suc.prems(3) i by (cases i) auto
  then obtain l' where l': "list_getValue l i = Inr (Some (StringValue (str (index ! i))), l')"
    "list_inv l' (map (\<lambda>n. StringValue (str n)) index)" "list_currentIndex l' = i"
    using inv_get [OF Suc.prems(1), of i] i by auto
  have "NUL \<notin> set (index ! i)" using assms(3) i by simp
  then have r: "path_resolve (we_realpath env) (Some (str (index ! i))) (str p) = Inr (map_option str (resolves env p (index ! i)))"
    using path_resolve_resolves [OF assms(1,2)] by blast
  have d: "drop i index = index ! i # drop (Suc i) index" using i by (simp add: Cons_nth_drop_Suc)
  show ?case
    using l' r Suc.IH [OF l'(2), of "Suc i"] Suc.prems(2) by (auto simp: d split: option.split)
qed

lemma NUL_chosen: "realpath_text (we_realpath env) \<Longrightarrow> chosen_file env root index path = Some p \<Longrightarrow> NUL \<notin> set p"
  by (auto simp: chosen_file_def split: option.split_asm if_split_asm dest: NUL_resolves NUL_first_index)

lemma servePath_chosen:
  assumes real: "realpath_text (we_realpath env)" and site: "site sc root index"
    and url: "url = target_url path d port" and path: "NUL \<notin> set path"
  shows "worker_servePath env c request url sc w =
    (case chosen_file env root index path of
       None \<Rightarrow> worker_finish (worker_return404 env c request (Some (str path)) w) request
     | Some p \<Rightarrow> worker_serveFile env c request (Some (str path)) (str root) (str p) (regular env p) (executable env p) w)"
proof -
  have root: "sc_rootDirectory sc = Some (str root)" "NUL \<notin> set root" "\<forall>n \<in> set index. NUL \<notin> set n"
    "case sc_directoryIndex sc of None \<Rightarrow> index = [] | Some l \<Rightarrow> list_inv l (map (\<lambda>n. StringValue (str n)) index)"
    using site by (simp_all add: site_def)
  show ?thesis
  proof (cases "resolves env root path")
    case None
    then show ?thesis using path_resolve_resolves [OF real root(2) path]
      by (simp add: worker_servePath_def url url_getPath_def config_getRootDirectory_def root(1) chosen_file_def Let_def)
  next
    case (Some p)
    then have p: "NUL \<notin> set p" using NUL_resolves [OF real] by blast
    have ix: "(case config_getDirectoryIndex sc of None \<Rightarrow> Inr None
        | Some l \<Rightarrow> worker_findIndex env (list_getLength l) 0 l (str p)) = Inr (map_option str (first_index env p index))"
      using findIndex_first [OF real p root(3), of _ 0 "length index"] root(4) list_inv_length
      by (fastforce simp: config_getDirectoryIndex_def list_getLength_def split: option.split)
    define q where "q = (if regular env p then p else case first_index env p index of None \<Rightarrow> p | Some q \<Rightarrow> q)"
    have "NUL \<notin> set q" using p NUL_first_index [OF real] by (auto simp: q_def split: option.split)
    note stat = stat_text [OF p, of env] stat_text [OF this, of env]
    have "worker_servePath env c request url sc w =
        worker_serveFile env c request (Some (str path)) (str root) (str q) (regular env q) (executable env q) w"
      using Some path_resolve_resolves [OF real root(2) path] ix stat
      by (cases "regular env p"; cases "first_index env p index")
        (simp_all add: worker_servePath_def url url_getPath_def config_getRootDirectory_def root(1) Let_def q_def)
    then show ?thesis using Some by (simp add: chosen_file_def q_def)
  qed
qed

section \<open>A request to a server without TLS\<close>

text \<open>The server that the configuration has for a domain and port.\<close>

definition serving :: "server_config_t list \<Rightarrow> string \<Rightarrow> nat \<Rightarrow> server_config_t option" where
  "serving scs d port = find (\<lambda>sc. port = to_u16 (sc_port sc) \<and> domain_text sc = d) scs"

lemma getHeader_hosted:
  assumes "ht_rep t (header_entries [] hs)" and "list_all good_header hs" and "NUL \<notin> set name"
  shows "\<exists>t'. http_getHeader (hosted_request m path d port t) (str name)
      = Inr (map_option str (header_value hs name), hosted_request m path d port t') \<and> ht_rep t' (header_entries [] hs)"
proof -
  have "ht_rep (http_headers (hosted_request m path d port t)) (header_entries [] hs)" "key_ok (str name)"
    using assms(1,3) by simp_all
  from getHeader_rep [OF this] obtain t' where t': "http_getHeader (hosted_request m path d port t) (str name)
      = Inr (Option.bind (entries_map (header_entries [] hs) (crc32 name)) id, hosted_request m path d port t')"
    "ht_rep t' (header_entries [] hs)" using assms(3) by (auto simp: key_hash_def)
  moreover have "Option.bind (entries_map (header_entries [] hs) (crc32 name)) id = map_option str (header_value hs name)"
    using header_entries_value [OF assms(2)] by (cases "header_value hs name") simp_all
  ultimately show ?thesis by auto
qed

definition secure :: "server_config_t list \<Rightarrow> string \<Rightarrow> server_config_t option" where
  "secure scs d = find (\<lambda>sc. domain_text sc = d \<and> sc_sslContext sc \<noteq> None) scs"

text \<open>A client that prefers TLS is sent to the server with TLS for the domain if there is one; otherwise its path is served.\<close>

lemma handle_known:
  assumes laws: "peer_laws (we_net env) c queued sent" and req: "request_arrived queued m path hs rest w"
    and host: "header_value hs ''Host'' = Some host" "names_host host d port"
    and conf: "list_inv (cfg_serverConfigs config) scs" "\<forall>sc \<in> set scs. has_domain sc"
    and sc: "serving scs d port = Some sc" "sc_sslContext sc = None"
  shows "\<exists>w1 t config1. sent w1 = sent w \<and> ht_rep t (header_entries [] hs)
    \<and> worker_handleConnection env (Some config) c w =
       bnd (case if header_value hs ''Upgrade-Insecure-Requests'' = Some ''1'' then secure scs d else None of
              Some hsc \<Rightarrow> worker_redirect env c (hosted_request m path d port t) hsc w1
            | None \<Rightarrow> worker_servePath env c (hosted_request m path d port t) (target_url path d port) sc w1)
         (\<lambda>(r, w2). Inr (r, Some config1, w2))"
proof -
  let ?up = "header_value hs ''Upgrade-Insecure-Requests''"
  have good: "list_all good_header hs" using req by (simp add: request_arrived_def)
  obtain w1 t config1 where h: "sent w1 = sent w" "ht_rep t (header_entries [] hs)" "list_inv (cfg_serverConfigs config1) scs"
    "worker_handleConnection env (Some config) c w =
       bnd (worker_serve env config1 c (hosted_request m path d port t) (target_url path d port) (str d) sc w1) (\<lambda>(r, config2, w2).
              Inr (r, Some config2, w2))"
    using handle_request [OF laws req host conf] sc(1) unfolding serving_def by auto
  obtain t' where t': "http_getHeader (hosted_request m path d port t) (str ''Upgrade-Insecure-Requests'')
      = Inr (map_option str ?up, hosted_request m path d port t')" "ht_rep t' (header_entries [] hs)"
    using getHeader_hosted [OF h(2) good, of "''Upgrade-Insecure-Requests''" m path d port] by auto
  have v: "NUL \<notin> set v" if "?up = Some v" for v
    using that good by (fastforce simp: header_value_def list_all_iff good_header_def clean_line_def dest!: map_of_SomeD)
  have up: "(case map_option str ?up of None \<Rightarrow> Inr False
      | Some u \<Rightarrow> bnd (string_equalsBuffer u (lit ''1'')) (\<lambda>one. Inr (one \<and> sc_sslContext sc = None))) = Inr (?up = Some ''1'')"
    using v sc(2) by (cases ?up) (auto simp: equalsBuffer_pad)
  have "NUL \<notin> set d" using host(2) by (simp add: names_host_def)
  then obtain config2 where c2: "config_getServerConfigByHTTPSDomain config1 (str d) = Inr (secure scs d, config2)"
    using config_lookups(2) [OF h(3) conf(2), of "str d"] by (auto simp: secure_def)
  define config' where "config' = (if ?up = Some ''1'' then config2 else config1)"
  have "conn_ssl c = None" using laws by (simp add: peer_laws_def socket_ready_def)
  then have "worker_serve env config1 c (hosted_request m path d port t) (target_url path d port) (str d) sc w1 =
      bnd (case if ?up = Some ''1'' then secure scs d else None of
              Some hsc \<Rightarrow> worker_redirect env c (hosted_request m path d port t') hsc w1
            | None \<Rightarrow> worker_servePath env c (hosted_request m path d port t') (target_url path d port) sc w1)
        (\<lambda>(r, w2). Inr (r, config', w2))"
    using sc(2) t'(1) up c2 by (simp add: worker_serve_def fromBuffer_lit config'_def split: option.split)
  then have "worker_handleConnection env (Some config) c w =
      bnd (case if ?up = Some ''1'' then secure scs d else None of
              Some hsc \<Rightarrow> worker_redirect env c (hosted_request m path d port t') hsc w1
            | None \<Rightarrow> worker_servePath env c (hosted_request m path d port t') (target_url path d port) sc w1)
        (\<lambda>(r, w2). Inr (r, Some config', w2))"
    unfolding h(4) by (simp add: bnd_assoc split_def)
  then show ?thesis using h(1) t'(2) by blast
qed

lemma handle_plain:
  assumes laws: "peer_laws (we_net env) c queued sent" and req: "request_arrived queued m path hs rest w"
    and host: "header_value hs ''Host'' = Some host" "names_host host d port"
    and conf: "list_inv (cfg_serverConfigs config) scs" "\<forall>sc \<in> set scs. has_domain sc"
    and sc: "serving scs d port = Some sc" "sc_sslContext sc = None"
    and up: "header_value hs ''Upgrade-Insecure-Requests'' = Some ''1'' \<longrightarrow> secure scs d = None"
  shows "\<exists>w1 t config1. sent w1 = sent w \<and> ht_rep t (header_entries [] hs)
    \<and> worker_handleConnection env (Some config) c w =
       bnd (worker_servePath env c (hosted_request m path d port t) (target_url path d port) sc w1) (\<lambda>(r, w2). Inr (r, Some config1, w2))"
  using handle_known [OF laws req host conf sc] up by (cases "header_value hs ''Upgrade-Insecure-Requests'' = Some ''1''") auto

lemma finish_ok:
  assumes "answer = Inr (k, w')" and "ht_rep t (header_entries [] hs)" and "list_all good_header hs"
  shows "worker_finish answer (hosted_request m path d port t) = Inr (Inr 0, w')"
  using assms hosted_free [OF assms(2) header_entries_ok [of "[]" hs]] by (simp add: worker_finish_def)

section \<open>Error pages\<close>

text \<open>A page that shows a value: the resource it is made from and the resulting text.\<close>

record page_shape =
  ps_t0 :: string
  ps_t1 :: string
  ps_t2 :: string
  ps_version :: string
  ps_before :: string
  ps_after :: string

definition shows_value :: "www_resources \<Rightarrow> bytes \<Rightarrow> string \<Rightarrow> page_shape \<Rightarrow> bool" where
  "shows_value res html key s \<longleftrightarrow> template_ok res (ps_t0 s) (ps_t1 s) (ps_t2 s) (ps_version s)
     \<and> html = lit (ps_before s @ tpl key @ ps_after s) \<and> plain (ps_before s) \<and> plain (ps_after s)"

definition page_html :: "page_shape \<Rightarrow> string \<Rightarrow> string" where
  "page_html s v = ps_t0 s @ ps_before s @ v @ ps_after s @ ps_t1 s @ ps_version s @ ps_t2 s"

lemma NUL_page_html: "shows_value res html key s \<Longrightarrow> NUL \<notin> set v \<Longrightarrow> NUL \<notin> set (page_html s v)"
  by (auto simp: shows_value_def page_html_def template_ok_def dest: plain_NUL)

lemma return404_ok:
  assumes laws: "send_laws (we_net env) c sent" "conn_sourceAddress c \<noteq> None"
    and page: "shows_value (we_www env) (RESOURCES_WWW_404_HTML (we_www env)) ''path'' s" "plain path" "length (page_html s path) < 2 ^ 31"
  shows "\<exists>k w'. worker_return404 env c request (Some (str path)) w = Inr (k, w')
    \<and> received sent w (answer_text 404 ''text/html'' (length (page_html s path))
         (if http_method request = HTTP_METHOD_HEAD then [] else page_html s path)) k w'"
proof -
  have "page_create404 (we_www env) (str path) = Inr \<lparr>page_source = Some (str (page_html s path)), page_templates = None\<rparr>"
    using page(1,2) value_page_built [of "we_www env" _ _ _ _ "ps_before s" "ps_after s" "str path" "''path''"] plain_NUL [OF page(2)]
    by (simp add: page_create_forms shows_value_def page_html_def)
  with sendPage_ok [OF laws refl _ page(3), of 404 request w] NUL_page_html [OF page(1) plain_NUL [OF page(2)]]
  show ?thesis by (simp add: worker_return404_def copy_pad)
qed

lemma return500_ok:
  assumes laws: "send_laws (we_net env) c sent" "conn_sourceAddress c \<noteq> None" and url: "http_url request \<noteq> None"
    and page: "shows_value (we_www env) (RESOURCES_WWW_500_HTML (we_www env)) ''description'' s" "plain v" "length (page_html s v) < 2 ^ 31"
  shows "\<exists>k w'. worker_return500 env c request (str v) w = Inr (k, w')
    \<and> received sent w (answer_text 500 ''text/html'' (length (page_html s v))
         (if http_method request = HTTP_METHOD_HEAD then [] else page_html s v)) k w'"
proof -
  have "page_create500 (we_www env) (str v) = Inr \<lparr>page_source = Some (str (page_html s v)), page_templates = None\<rparr>"
    using page(1,2) value_page_built [of "we_www env" _ _ _ _ "ps_before s" "ps_after s" "str v" "''description''"] plain_NUL [OF page(2)]
    by (simp add: page_create_forms shows_value_def page_html_def)
  with sendPage_ok [OF laws refl _ page(3), of 500 request w] NUL_page_html [OF page(1) plain_NUL [OF page(2)]] url
  show ?thesis by (auto simp: worker_return500_def http_getUrl_def)
qed

lemma method_of_HEAD: "method_of m = HTTP_METHOD_HEAD \<longleftrightarrow> m = ''HEAD''"
  by (simp add: method_of_def)

section \<open>Redirection to TLS\<close>

definition https_location :: "string \<Rightarrow> string \<Rightarrow> nat \<Rightarrow> string" where
  "https_location path d port = ''https://'' @ d @ (if port \<noteq> 0 \<and> port \<noteq> 80 then '':'' @ dec port else []) @ path"

definition redirect_text :: "string \<Rightarrow> string" where
  "redirect_text location = ''HTTP/1.1 301 Moved Permanently'' @ CRLF @ ''Vary: Upgrade-Insecure-Requests'' @ CRLF
     @ ''Location: '' @ location @ CRLF @ CRLF"

definition redirect_entries :: "string \<Rightarrow> string_t hash_table_entry_t list" where
  "redirect_entries location =
     entries_set (entries_set [] (str ''Vary'') (Some (str ''Upgrade-Insecure-Requests''))) (str ''Location'') (Some (str location))"

lemma redirect_hashes: "crc32 ''Vary'' \<noteq> crc32 ''Location''"
  by (simp add: crc32_def crc_byte_unfold crc_bit_alt)

lemma redirect_entries_eq:
  "redirect_entries location =
    [\<lparr>ent_keyHash = crc32 ''Vary'', ent_key = str ''Vary'', ent_value = Some (str ''Upgrade-Insecure-Requests'')\<rparr>,
     \<lparr>ent_keyHash = crc32 ''Location'', ent_key = str ''Location'', ent_value = Some (str location)\<rparr>]"
  using redirect_hashes by (auto simp: redirect_entries_def entries_set_def entries_map_def key_hash_def)

lemma copy_target: "url_copy (target_url path d port) = Inr (target_url path d port, target_url path d port)"
  by (simp add: url_copy_def target_url_def url_create_def copy_opt_def copy_pad ht_rep_length [OF ht_rep_create] Let_def)

lemma target_location:
  assumes "NUL \<notin> set path" and "NUL \<notin> set d"
  shows "\<exists>u. url_toString ((target_url path d port)\<lparr>url_protocol := Some (str ''https''), url_port := to_u16 p\<rparr>)
      = Inr (str (https_location path d (to_u16 p)), u) \<and> url_wf u []"
proof -
  let ?u = "(target_url path d port)\<lparr>url_protocol := Some (str ''https''), url_port := to_u16 p\<rparr>"
  have "to_u16 p < 65536" by (simp add: to_u16_def nat_less_iff)
  then have "url_wf ?u []"
    using assms ht_rep_create by (auto simp: url_wf_def target_url_def url_create_def opt_ok_def)
  from toString_wf [OF this] obtain u a where u: "url_toString ?u = Inr (accum a, u)" "acc_text a = url_text ?u []" "url_wf u []" by blast
  have t: "url_text ?u [] = https_location path d (to_u16 p)"
    by (simp add: url_text_def target_url_def opt_text_def https_location_def)
  then have "a \<noteq> None" using u(2) by (cases a) (auto simp: acc_text_def https_location_def)
  then have "accum a = str (https_location path d (to_u16 p))" using u(2) t by (auto simp: accum_def acc_text_def)
  then show ?thesis using u by auto
qed

lemma url_wf_free: "url_wf u es \<Longrightarrow> \<exists>x. url_free u = Inr x"
proof -
  assume "url_wf u es"
  then have r: "ht_rep (url_parameters u) es" "list_all param_ok es" by (simp_all add: url_wf_def)
  then obtain t where "url_free_parameters (length es) (url_parameters u) = Inr t" "ht_rep t []"
    using free_parameters_wf [OF _ _ order_refl] by blast
  then show ?thesis using ht_rep_free ht_rep_length [OF r(1)] by (fastforce simp: url_free_def)
qed

lemma redirect_ok:
  assumes laws: "send_laws (we_net env) c sent" "conn_sourceAddress c \<noteq> None"
    and req: "ht_rep t (header_entries [] hs)" "list_all good_header hs" and nul: "NUL \<notin> set path" "NUL \<notin> set d"
  shows "\<exists>k w'. worker_redirect env c (hosted_request m path d port t) hsc w = Inr (Inr 0, w')
    \<and> received sent w (redirect_text (https_location path d (to_u16 (sc_port hsc)))) k w'"
proof -
  let ?l = "https_location path d (to_u16 (sc_port hsc))" and ?h = "hosted_request m path d port t"
  define r where "r = http_create\<lparr>http_version := Some (str ''1.1''), http_responseCode := 301,
    http_responseCodeText := Some (str (http_code_text 301))\<rparr>"
  obtain t1 where t1: "http_setHeader r (str ''Vary'') (Some (str ''Upgrade-Insecure-Requests'')) = Inr (r\<lparr>http_headers := t1\<rparr>)"
    "ht_rep t1 (entries_set [] (str ''Vary'') (Some (str ''Upgrade-Insecure-Requests'')))"
    using setHeader_rep [of r "[]" "str ''Vary''"] http_create_rep by (auto simp: r_def)
  obtain t2 where t2: "http_setHeader (r\<lparr>http_headers := t1\<rparr>) (str ''Location'') (Some (str ?l)) = Inr (r\<lparr>http_headers := t2\<rparr>)"
    "ht_rep t2 (redirect_entries ?l)"
    using setHeader_rep [of "r\<lparr>http_headers := t1\<rparr>", OF _ key_ok_pad, of _ 1] t1(2) by (fastforce simp: redirect_entries_def)
  obtain u x where u: "url_toString ((target_url path d port)\<lparr>url_protocol := Some (str ''https''), url_port := to_u16 (sc_port hsc)\<rparr>)
      = Inr (str ?l, u)" "url_free u = Inr x"
    using target_location [OF nul] url_wf_free by blast
  have l: "NUL \<notin> set ?l" using nul by (auto simp: https_location_def)
  have "http_wf (r\<lparr>http_headers := t2\<rparr>) (redirect_entries ?l)"
    using t2(2) l by (auto simp: http_wf_def r_def http_create_def redirect_entries_eq header_ok_def bytes_opt_ok_def)
  moreover have "response_text (r\<lparr>http_headers := t2\<rparr>) (redirect_entries ?l) = redirect_text ?l"
    using l by (simp add: response_text_def r_def http_create_def redirect_entries_eq header_text_def redirect_text_def dec.simps
        http_code_text_def http_code_texts_def)
  ultimately obtain K t3 where R: "http_toResponseString (r\<lparr>http_headers := t2\<rparr>) = Inr (grow K (redirect_text ?l), r\<lparr>http_headers := t3\<rparr>)"
    "ht_rep t3 (redirect_entries ?l)"
    using toResponseString_wf [of "r\<lparr>http_headers := t2\<rparr>"] by force
  have "NUL \<notin> set (redirect_text ?l)" using l by (simp add: redirect_text_def)
  then obtain k w' where k: "connection_write (we_net env) c (string_getBuffer (grow K (redirect_text ?l))) (string_getSize (grow K (redirect_text ?l))) w = Inr (k, w')"
    "received sent w (redirect_text ?l) k w'"
    using write_answer [OF laws] by blast
  have free: "http_free (r\<lparr>http_headers := t3\<rparr>) = Inr ()" "http_free ?h = Inr ()"
    using R(2) l hosted_free [OF req(1) header_entries_ok [of "[]" hs]] req(2)
    by (auto intro!: http_free_ok [of _ "redirect_entries ?l"] simp: r_def http_create_def redirect_entries_eq param_ok_def)
  have same: "?h\<lparr>http_url := Some (target_url path d port)\<rparr> = ?h" by (simp add: hosted_request_def)
  have start: "bnd (http_setResponseCode http_create 301) (\<lambda>r0. bnd (string_fromBuffer (lit ''1.1'')) (\<lambda>v.
      bnd (http_setVersion r0 (Some v)) f)) = f r" for f :: "http_t \<Rightarrow> ((spawned + int) \<times> _) exec"
    by (simp add: http_setResponseCode_def codeToString_eq fromBuffer_lit http_setVersion_def r_def http_create_def)
  have prot: "url_setProtocol (target_url path d port) p = Inr ((target_url path d port)\<lparr>url_protocol := p\<rparr>)" for p
    by (simp add: url_setProtocol_def target_url_def string_free_def)
  have "worker_redirect env c ?h hsc w = Inr (Inr 0, w')"
    unfolding worker_redirect_def start using t1(1) t2(1) u R(1) k(1) free
    by (simp add: fromBuffer_lit http_getUrl_def copy_target same prot url_setPort_def config_getPort_def string_free_def)
  then show ?thesis using k(2) by blast
qed

section \<open>Properties\<close>

text \<open>C19. Whatever bytes a header line has, zero bytes included, parsing it does not fault and yields a well-formed request again:
  every header has a terminated key and value, and no two headers have the same hash. A line that is refused leaves the
  request as it was.\<close>

theorem http_parseHeader_typed:
  assumes "http_wf h es"
  shows "\<exists>ok h' es'. http_parseHeader h (pad xs k) = Inr (ok, h') \<and> http_wf h' es' \<and> distinct (map ent_keyHash es')
    \<and> (if ok then \<exists>key value. es' = entries_set es key (Some value) else h' = h)"
proof -
  have rep: "ht_rep (http_headers h) es" and d: "distinct (map ent_keyHash es)" using assms by (simp_all add: http_wf_def ht_rep_def)
  have keep: "\<exists>ok h' es'. (Inr (False, h) :: (bool \<times> http_t) exec) = Inr (ok, h') \<and> http_wf h' es' \<and> distinct (map ent_keyHash es')
      \<and> (if ok then \<exists>key value. es' = entries_set es key (Some value) else h' = h)"
    using assms d by auto
  obtain i j where f: "string_findNextChar (at (pad xs k) 0) (CHR '':'') = Inr (i, at (pad xs k) j)"
    "found_or_passed xs (CHR '':'') 0 i j"
    using findNextChar_any [of "CHR '':''" 0 xs k] by auto
  show ?thesis
  proof (cases "i = -1")
    case True
    then show ?thesis using f(1) keep by (simp add: http_parseHeader_def)
  next
    case False
    then obtain m where m: "i = int m" "m < length xs" using f(2) by (auto simp: found_or_passed_def)
    let ?key = "str (take m xs)" and ?v = "str (drop (m + 2) xs)"
    obtain t where t: "http_setHeader h ?key (Some ?v) = Inr (h\<lparr>http_headers := t\<rparr>)" "ht_rep t (entries_set es ?key (Some ?v))"
      using setHeader_rep [OF rep key_ok_pad, of 1] by fastforce
    have "http_wf (h\<lparr>http_headers := t\<rparr>) (entries_set es ?key (Some ?v))" "distinct (map ent_keyHash (entries_set es ?key (Some ?v)))"
      using assms t(2) by (auto simp: http_wf_def entries_set_def list_all_iff header_ok_def key_ok_pad ht_rep_def)
    moreover have "http_parseHeader h (pad xs k) = (if m + 2 < length xs \<and> xs ! (m + 1) = SP
        then Inr (True, h\<lparr>http_headers := t\<rparr>) else Inr (False, h))"
      using f(1) m t(1) by (simp add: http_parseHeader_def nat_add_distrib getCharAt_pad substring_pad string_getSize_def)
    ultimately show ?thesis using keep by auto
  qed
qed




text \<open>C6. A \<^verbatim>\<open>GET\<close> request for an empty file brings the server down: the string for its contents never gets a buffer,
  and the response appends that null pointer.\<close>

theorem worker_empty_file_faults:
  assumes "peer_laws (we_net env) c queued sent" and "request_arrived queued ''GET'' path hs rest w"
    and "header_value hs ''Host'' = Some host" and "names_host host d port"
    and "list_inv (cfg_serverConfigs config) scs" and "\<forall>sc \<in> set scs. has_domain sc"
    and "serving scs d port = Some sc" and "sc_sslContext sc = None" and "site sc root index"
    and "header_value hs ''Upgrade-Insecure-Requests'' = Some ''1'' \<longrightarrow> secure scs d = None" and "realpath_text (we_realpath env)"
    and "chosen_file env root index path = Some p" and "regular env p" and "\<not> executable env p"
    and "we_fopen env p = Some f" and "file_ok f" and "file_bytes f = []"
  shows "worker_handleConnection env (Some config) c w = Inl NullPointer"
proof -
  have good: "list_all good_header hs" "NUL \<notin> set path" "NUL \<notin> set p"
    using assms(2) NUL_chosen [OF assms(11,12)] by (auto simp: request_arrived_def good_target_def)
  obtain w1 t config1 where h: "worker_handleConnection env (Some config) c w =
       bnd (worker_servePath env c (hosted_request ''GET'' path d port t) (target_url path d port) sc w1) (\<lambda>(r, w2). Inr (r, Some config1, w2))"
    using handle_plain [OF assms(1-8,10)] by blast
  have "worker_return200 env c (hosted_request ''GET'' path d port t) (str p) w1 = Inl NullPointer"
    using return200_empty [of env p f "hosted_request ''GET'' path d port t"] assms(15-17) good(3) by (simp add: method_of_def)
  then show ?thesis
    using servePath_chosen [OF assms(11,9) refl good(2), of c "hosted_request ''GET'' path d port t" d port w1] assms(12-14) h
    by (simp add: worker_serveFile_def http_getMethod_def method_of_def worker_finish_def)
qed


section \<open>A small site\<close>

text \<open>A server for the domain \<^verbatim>\<open>x\<close> on port 8080 with two files, and a client on the scripted socket.\<close>

definition idle_os :: "'w os" where
  "idle_os = \<lparr>os_pipe = (\<lambda>w. (None, w)), os_fork = (\<lambda>w. (-1, w)), os_dup2 = (\<lambda>a b w. (None, w)), os_close = (\<lambda>fd w. w),
     os_poll = (\<lambda>fd t w. (0, w)), os_fionread = (\<lambda>fd w. (None, w)), os_read = (\<lambda>fd n w. (None, w)),
     os_write = (\<lambda>fd bs w. (None, w)), os_kill = (\<lambda>p w. w), os_waitpid = (\<lambda>p b w. ((p, 0), w))\<rparr>"

definition demo_env :: "script worker_env" where
  "demo_env =
     \<lparr>we_net = script_net, we_os = idle_os,
      we_realpath = [''/srv//a.txt'' \<mapsto> ''/srv/a.txt'', ''/srv//e'' \<mapsto> ''/srv/e''],
      we_fopen = [''/srv/a.txt'' \<mapsto> \<lparr>file_seek = True, file_tell = 2, file_bytes = ''hi''\<rparr>,
                  ''/srv/e'' \<mapsto> \<lparr>file_seek = True, file_tell = 0, file_bytes = []\<rparr>],
      we_stat = [''/srv/a.txt'' \<mapsto> 0x8180, ''/srv/e'' \<mapsto> 0x8180], we_www = tiny_resources, we_PATH = None\<rparr>"

definition demo_server :: server_config_t where
  "demo_server = tiny_server\<lparr>sc_rootDirectory := Some (str ''/srv'')\<rparr>"

definition demo_request :: "string \<Rightarrow> string \<Rightarrow> string \<Rightarrow> script" where
  "demo_request m path host =
     \<lparr>sc_queue = wire [request_line m path, header_line (''Host'', host)], sc_future = [], sc_sent = []\<rparr>"

lemma demo_peer: "peer_laws (we_net demo_env) script_connection sc_queue sc_sent"
  using script_laws by (simp add: peer_laws_def demo_env_def)

lemma demo_arrived:
  assumes "good_target m path" and "good_header (''Host'', host)"
    and "length (wire [request_line m path, header_line (''Host'', host)]) \<le> REQUEST_MAX_HEADER_SIZE"
  shows "request_arrived sc_queue m path [(''Host'', host)] [] (demo_request m path host)"
  using assms by (simp add: request_arrived_def demo_request_def)

lemma demo_headers:
  "header_value [(''Host'', host)] ''Host'' = Some host"
  "header_value [(''Host'', host)] ''Upgrade-Insecure-Requests'' = Some ''1'' \<longrightarrow> secure [demo_server] d = None"
  by (simp_all add: header_value_def secure_def demo_server_def tiny_server_def)

lemma demo_host: "names_host ''x:8080'' ''x'' 8080" "good_header (''Host'', ''x:8080'')"
  by (simp_all add: names_host_def dec.simps good_header_def clean_line_def is_trimmed_def)

lemma demo_server_facts:
  "has_domain demo_server" "serving [demo_server] ''x'' 8080 = Some demo_server" "sc_sslContext demo_server = None"
  "site demo_server ''/srv'' []" "realpath_text (we_realpath demo_env)" "serving [demo_server] ''x'' 80 = None"
  by (simp_all add: demo_server_def tiny_server_def has_domain_def serving_def domain_text_def to_u16_def site_def
      realpath_text_def demo_env_def)

definition demo_config :: "server_config_t list_t \<Rightarrow> config_t" where
  "demo_config l = \<lparr>cfg_daemon = 0, cfg_serverConfigs = l, cfg_logfile = None, cfg_loggingLevel = 0, cfg_threads = 2, cfg_backlog = 2\<rparr>"

lemma demo_list: "\<exists>l. list_addValue list_create demo_server = Inr l \<and> list_inv (cfg_serverConfigs (demo_config l)) [demo_server]"
  using inv_add [OF inv_create, of demo_server] by (auto simp: demo_config_def)

lemma demo_files:
  "chosen_file demo_env ''/srv'' [] ''/a.txt'' = Some ''/srv/a.txt''" "chosen_file demo_env ''/srv'' [] ''/e'' = Some ''/srv/e''"
  "chosen_file demo_env ''/srv'' [] ''/n'' = None"
  "regular demo_env ''/srv/a.txt''" "\<not> executable demo_env ''/srv/a.txt''" "regular demo_env ''/srv/e''" "\<not> executable demo_env ''/srv/e''"
  by (simp_all add: chosen_file_def resolves_def regular_def executable_def demo_env_def S_IFMT_def S_IFREG_def S_IXUSR_def)

lemma demo_targets: "good_target ''GET'' ''/a.txt''" "good_target ''GET'' ''/e''" "good_target ''GET'' ''/n''"
  by (simp_all add: good_target_def)

lemma demo_size: "length path < 100 \<Longrightarrow> length host < 100 \<Longrightarrow> length (wire [request_line ''GET'' path, header_line (''Host'', host)]) \<le> REQUEST_MAX_HEADER_SIZE"
  by (simp add: wire_def request_line_def header_line_def REQUEST_MAX_HEADER_SIZE_def)


definition demo_page :: "string \<Rightarrow> page_shape" where
  "demo_page before = \<lparr>ps_t0 = ''<'', ps_t1 = ''-'', ps_t2 = ''>'', ps_version = ''1'', ps_before = before, ps_after = []\<rparr>"

lemma demo_pages:
  "shows_value (we_www demo_env) (RESOURCES_WWW_404_HTML (we_www demo_env)) ''path'' (demo_page ''No '')"
  "shows_value (we_www demo_env) (RESOURCES_WWW_500_HTML (we_www demo_env)) ''description'' (demo_page [])"
  using tiny_template by (simp_all add: shows_value_def demo_env_def demo_page_def tiny_resources_def tpl_def plain_def)



theorem worker_empty_file_faults_witness:
  "\<exists>l. list_addValue list_create demo_server = Inr l
    \<and> worker_handleConnection demo_env (Some (demo_config l)) script_connection (demo_request ''GET'' ''/e'' ''x:8080'') = Inl NullPointer"
proof -
  obtain l where l: "list_addValue list_create demo_server = Inr l" "list_inv (cfg_serverConfigs (demo_config l)) [demo_server]"
    using demo_list by blast
  let ?f = "\<lparr>file_seek = True, file_tell = 0, file_bytes = []\<rparr>"
  have f: "we_fopen demo_env ''/srv/e'' = Some ?f" "file_ok ?f" "file_bytes ?f = []"
    by (simp_all add: demo_env_def file_ok_def)
  have "request_arrived sc_queue ''GET'' ''/e'' [(''Host'', ''x:8080'')] [] (demo_request ''GET'' ''/e'' ''x:8080'')"
    using demo_targets(2) demo_host(2) demo_size [of "''/e''" "''x:8080''"] by (intro demo_arrived) simp_all
  from worker_empty_file_faults [OF demo_peer this demo_headers(1) demo_host(1) l(2) _ demo_server_facts(2-4) demo_headers(2)
      demo_server_facts(5) demo_files(2,6,7) f]
  show ?thesis using l(1) demo_server_facts(1) by simp
qed

text \<open>The same site with a second server that has TLS.\<close>

definition demo_secure :: server_config_t where
  "demo_secure = demo_server\<lparr>sc_port := 443, sc_sslContext := Some
     \<lparr>ctx_address = 1, ctx_privateKey = ''k'', ctx_certificate = ''c'', ctx_min_proto_version = ''TLS1_2'', ctx_curves_list = [],
      ctx_verify_none = True, ctx_cipher_list = [], ctx_ciphersuites = None\<rparr>\<rparr>"

lemma upgrade_hash: "crc32 ''Upgrade-Insecure-Requests'' \<noteq> crc32 ''Host''"
  by (simp add: crc32_def crc_byte_unfold crc_bit_alt)


theorem http_parseHeader_typed_witness:
  "\<exists>ok h' es'. http_parseHeader http_create (str (''a'' @ NUL # '': b'')) = Inr (ok, h') \<and> http_wf h' es'"
proof -
  have "http_wf http_create []" using http_create_rep by (simp add: http_wf_def bytes_opt_ok_def http_create_def)
  from http_parseHeader_typed [OF this, of "''a'' @ NUL # '': b''" 1] show ?thesis by auto
qed

end
