(* ===== verification/Gateway.thy ===== *)
theory Gateway
  imports Serving
begin

text \<open>
  What a CGI process gets to know about a request: the environment that \<^verbatim>\<open>worker_createEnvironment\<close> builds, and
  the strings with which the child of the fork executes the script.
\<close>

section \<open>The variables\<close>

text \<open>Every variable with its value, or \<open>None\<close> when it is left out. A header is passed on as the client sent it.\<close>

definition relative_path :: "'w worker_env \<Rightarrow> string \<Rightarrow> string \<Rightarrow> string option" where
  "relative_path env root p =
     (case we_realpath env p of None \<Rightarrow> None | Some q \<Rightarrow> if prefix root q \<and> q \<noteq> root then Some (drop (length root) q) else None)"

definition connection_variables :: "string option \<Rightarrow> nat \<Rightarrow> string \<Rightarrow> (string \<times> string option) list" where
  "connection_variables address srcport m =
     [(''HTTPS'', Some ''off''), (''SERVER_SOFTWARE'', Some ''WSIC''), (''REMOTE_ADDR'', address), (''REMOTE_PORT'', Some (dec srcport)),
      (''REQUEST_METHOD'', if m = ''GET'' \<or> m = ''POST'' then Some m else None)]"

definition header_variables :: "(string \<times> string) list \<Rightarrow> (string \<times> string option) list" where
  "header_variables hs =
     [(''HTTP_COOKIE'', header_value hs ''Cookie''), (''HTTP_REFERER'', header_value hs ''Referer''),
      (''HTTP_USER_AGENT'', header_value hs ''User-Agent'')]"

definition url_variables :: "string \<Rightarrow> string \<Rightarrow> nat \<Rightarrow> (string \<times> string option) list" where
  "url_variables path d port =
     [(''HTTP_HOST'', Some d), (''SERVER_NAME'', Some d), (''SERVER_PORT'', if port \<noteq> 0 then Some (dec port) else None),
      (''REQUEST_URI'', Some path)]"

definition file_variables :: "'w worker_env \<Rightarrow> string option \<Rightarrow> string \<Rightarrow> string \<Rightarrow> (string \<times> string option) list" where
  "file_variables env systemPath root p =
     [(''DOCUMENT_ROOT'', Some root), (''SCRIPT_FILENAME'', Some p), (''SCRIPT_NAME'', relative_path env root p), (''PATH'', systemPath)]"

definition present :: "(string \<times> string option) list \<Rightarrow> (string \<times> string) list" where
  "present vs = concat (map (\<lambda>(n, v). case v of None \<Rightarrow> [] | Some x \<Rightarrow> [(n, x)]) vs)"

section \<open>Filling the table\<close>

fun put_all :: "string_t hash_table_t \<Rightarrow> (string \<times> string option) list \<Rightarrow> string_t hash_table_t exec" where
  "put_all t [] = Inr t"
| "put_all t ((n, v) # vs) =
     bnd (case v of None \<Rightarrow> Inr t | Some x \<Rightarrow> env_put t n (Inr (str x))) (\<lambda>t'. put_all t' vs)"

definition env_entries :: "(string \<times> string) list \<Rightarrow> string_t hash_table_entry_t list" where
  "env_entries vs = map (\<lambda>(n, x). \<lparr>ent_keyHash = crc32 n, ent_key = str n, ent_value = Some (str x)\<rparr>) vs"

definition clean_variables :: "(string \<times> string option) list \<Rightarrow> bool" where
  "clean_variables vs \<longleftrightarrow> list_all (\<lambda>(n, v). NUL \<notin> set n \<and> (case v of None \<Rightarrow> True | Some x \<Rightarrow> NUL \<notin> set x)) vs
     \<and> distinct (map (crc32 \<circ> fst) vs)"

lemma entries_set_new: "key_hash k \<notin> ent_keyHash ` set es \<Longrightarrow>
    entries_set es k v = es @ [\<lparr>ent_keyHash = key_hash k, ent_key = k, ent_value = v\<rparr>]"
  by (auto simp: entries_set_def)

lemma put_all_ok:
  assumes "ht_rep t (env_entries us)" and "clean_variables vs" and "(crc32 \<circ> fst) ` set us \<inter> (crc32 \<circ> fst) ` set vs = {}"
  shows "\<exists>t'. put_all t vs = Inr t' \<and> ht_rep t' (env_entries (us @ present vs))"
  using assms
proof (induction vs arbitrary: t us)
  case Nil
  then show ?case by (simp add: present_def)
next
  case (Cons nv vs)
  obtain n v where nv: "nv = (n, v)" by fastforce
  have vs: "clean_variables vs" using Cons.prems(2) by (simp add: clean_variables_def)
  show ?case
  proof (cases v)
    case None
    then show ?thesis using Cons.IH [OF Cons.prems(1) vs] Cons.prems(3) nv by (auto simp: present_def)
  next
    case (Some x)
    have n: "NUL \<notin> set n" "NUL \<notin> set x" using Cons.prems(2) nv Some by (auto simp: clean_variables_def)
    have "key_hash (str n) \<notin> ent_keyHash ` set (env_entries us)"
      using Cons.prems(3) nv n(1) by (force simp: env_entries_def key_hash_def)
    from entries_set_new [OF this, of "Some (str x)"] n(1)
    have "entries_set (env_entries us) (str n) (Some (str x)) = env_entries (us @ [(n, x)])"
      by (simp add: env_entries_def key_hash_def)
    with ht_rep_set [OF Cons.prems(1), of "str n" "Some (str x)"] n(1) obtain t1 where
      t1: "env_put t n (Inr (str x)) = Inr t1" "ht_rep t1 (env_entries (us @ [(n, x)]))"
      by (auto simp: env_put_def fromBuffer_lit)
    have "(crc32 \<circ> fst) ` set (us @ [(n, x)]) \<inter> (crc32 \<circ> fst) ` set vs = {}"
      using Cons.prems(2,3) nv by (auto simp: clean_variables_def)
    from Cons.IH [OF t1(2) vs this] t1(1) nv Some show ?thesis by (auto simp: present_def)
  qed
qed

lemma put_all_append: "put_all t (us @ vs) = bnd (put_all t us) (\<lambda>t'. put_all t' vs)"
  by (induction us arbitrary: t) (auto simp: bnd_assoc)

definition all_variables ::
  "'w worker_env \<Rightarrow> string option \<Rightarrow> nat \<Rightarrow> string option \<Rightarrow> string \<Rightarrow> string \<Rightarrow> (string \<times> string) list \<Rightarrow> string \<Rightarrow> nat \<Rightarrow> string \<Rightarrow> string
    \<Rightarrow> (string \<times> string option) list" where
  "all_variables env address srcport systemPath m path hs d port root p =
     connection_variables address srcport m @ header_variables hs @ url_variables path d port @ file_variables env systemPath root p"

lemma variable_crcs:
  "crc32 ''HTTPS'' = 0xC9A2A716"
  "crc32 ''SERVER_SOFTWARE'' = 0x54692F73"
  "crc32 ''REMOTE_ADDR'' = 0x9BA18300"
  "crc32 ''REMOTE_PORT'' = 0x8AAA4CF9"
  "crc32 ''REQUEST_METHOD'' = 0x3195BA3A"
  "crc32 ''HTTP_COOKIE'' = 0xD32CC9D5"
  "crc32 ''HTTP_REFERER'' = 0x3C833808"
  "crc32 ''HTTP_USER_AGENT'' = 0xD9F8C928"
  "crc32 ''HTTP_HOST'' = 0xEB8EF491"
  "crc32 ''SERVER_NAME'' = 0x9961B20A"
  "crc32 ''SERVER_PORT'' = 0x84D391C0"
  "crc32 ''REQUEST_URI'' = 0x6407CDBB"
  "crc32 ''DOCUMENT_ROOT'' = 0x56CD5829"
  "crc32 ''SCRIPT_FILENAME'' = 0x4B438F2C"
  "crc32 ''SCRIPT_NAME'' = 0xD25BB1BE"
  "crc32 ''PATH'' = 0x3DC166BB"
  by (simp_all add: crc32_def crc_byte_unfold crc_bit_alt)

definition variable_names :: "string list" where
  "variable_names = [''HTTPS'', ''SERVER_SOFTWARE'', ''REMOTE_ADDR'', ''REMOTE_PORT'', ''REQUEST_METHOD'', ''HTTP_COOKIE'',
     ''HTTP_REFERER'', ''HTTP_USER_AGENT'', ''HTTP_HOST'', ''SERVER_NAME'', ''SERVER_PORT'', ''REQUEST_URI'', ''DOCUMENT_ROOT'',
     ''SCRIPT_FILENAME'', ''SCRIPT_NAME'', ''PATH'']"

lemma variable_names_facts: "distinct (map crc32 variable_names)" "list_all (\<lambda>n. NUL \<notin> set n) variable_names"
  by (simp_all add: variable_names_def variable_crcs)

lemma names_of_variables: "map fst (all_variables env address srcport systemPath m path hs d port root p) = variable_names"
  by (simp add: all_variables_def connection_variables_def header_variables_def url_variables_def file_variables_def variable_names_def)

lemma header_value_text: "list_all good_header hs \<Longrightarrow> header_value hs n = Some v \<Longrightarrow> NUL \<notin> set v"
  by (fastforce simp: header_value_def list_all_iff good_header_def clean_line_def dest!: map_of_SomeD)

lemma all_variables_clean:
  assumes "list_all good_header hs" and "NUL \<notin> set path" and "NUL \<notin> set d" and "NUL \<notin> set root" and "NUL \<notin> set p"
    and "realpath_text (we_realpath env)" and "\<forall>x. address = Some x \<or> systemPath = Some x \<longrightarrow> NUL \<notin> set x"
  shows "clean_variables (all_variables env address srcport systemPath m path hs d port root p)"
proof -
  have "NUL \<notin> set x" if "relative_path env root p = Some x" for x
    using that assms(6) by (auto simp: relative_path_def realpath_text_def split: option.split_asm if_split_asm dest!: in_set_dropD)
  then have "list_all (\<lambda>v. case v of None \<Rightarrow> True | Some x \<Rightarrow> NUL \<notin> set x) (map snd (all_variables env address srcport systemPath m path hs d port root p))"
    using assms(2-5,7) header_value_text [OF assms(1)]
    by (simp add: all_variables_def connection_variables_def header_variables_def url_variables_def file_variables_def split: option.split)
  moreover have "list_all (\<lambda>n. NUL \<notin> set n) (map fst (all_variables env address srcport systemPath m path hs d port root p))"
    "distinct (map crc32 (map fst (all_variables env address srcport systemPath m path hs d port root p)))"
    unfolding names_of_variables by (rule variable_names_facts)+
  ultimately show ?thesis by (simp add: clean_variables_def list_all_iff split_def)
qed

section \<open>The environment of a request\<close>

lemma env_put_copy_text: "env_put_copy t n (map_option str v) = (case v of None \<Rightarrow> Inr t | Some x \<Rightarrow> env_put t n (Inr (str x)))"
  by (cases v) (simp_all add: env_put_copy_def copy_pad)

lemma env_put_header_text:
  assumes "http_getHeader r (str h) = Inr (map_option str v, r')" and "NUL \<notin> set h"
  shows "env_put_header t n r h = bnd (case v of None \<Rightarrow> Inr t | Some x \<Rightarrow> env_put t n (Inr (str x))) (\<lambda>t'. Inr (t', r'))"
  using assms by (simp add: env_put_header_def fromBuffer_lit env_put_copy_text)

lemma method_variable:
  "(if method_of m = HTTP_METHOD_GET then env_put t ''REQUEST_METHOD'' (string_fromBuffer (lit ''GET''))
    else if method_of m = HTTP_METHOD_POST then env_put t ''REQUEST_METHOD'' (string_fromBuffer (lit ''POST'')) else Inr t)
   = (case if m = ''GET'' \<or> m = ''POST'' then Some m else None of None \<Rightarrow> Inr t | Some x \<Rightarrow> env_put t ''REQUEST_METHOD'' (Inr (str x)))"
  by (simp add: method_of_def fromBuffer_lit)

lemma createEnvironment_puts:
  assumes req: "ht_rep t (header_entries [] hs)" "list_all good_header hs"
    and conn: "conn_sourceAddress c = map_option str address" "conn_sourcePort c < 65536" and port: "port < 65536"
    and files: "realpath_text (we_realpath env)" "NUL \<notin> set root" "NUL \<notin> set p"
    and syspath: "we_PATH env = map_option lit systemPath" "\<forall>x. systemPath = Some x \<longrightarrow> NUL \<notin> set x"
  shows "\<exists>t'. worker_createEnvironment env c (hosted_request m path d port t) (str root) (str p) =
      bnd (put_all hash_table_create (all_variables env address (conn_sourcePort c) systemPath m path hs d port root p))
        (\<lambda>e. Inr (e, hosted_request m path d port t'))
    \<and> ht_rep t' (header_entries [] hs)"
proof -
  let ?r = "hosted_request m path d port"
  obtain t1 where t1: "http_getHeader (?r t) (str ''Cookie'') = Inr (map_option str (header_value hs ''Cookie''), ?r t1)" "ht_rep t1 (header_entries [] hs)"
    using getHeader_hosted [OF req, of "''Cookie''" m path d port] by auto
  obtain t2 where t2: "http_getHeader (?r t1) (str ''Referer'') = Inr (map_option str (header_value hs ''Referer''), ?r t2)" "ht_rep t2 (header_entries [] hs)"
    using getHeader_hosted [OF t1(2) req(2), of "''Referer''" m path d port] by auto
  obtain t3 where t3: "http_getHeader (?r t2) (str ''User-Agent'') = Inr (map_option str (header_value hs ''User-Agent''), ?r t3)" "ht_rep t3 (header_entries [] hs)"
    using getHeader_hosted [OF t2(2) req(2), of "''User-Agent''" m path d port] by auto
  note headers = env_put_header_text [OF t1(1)] env_put_header_text [OF t2(1)] env_put_header_text [OF t3(1)]
  have rel: "path_relativeTo (we_realpath env) (str p) (str root) = Inr (map_option str (relative_path env root p))"
    using path_relativeTo_eq [OF files] by (simp add: relative_path_def split: option.split)
  have name_var: "(case map_option str v of None \<Rightarrow> Inr e | Some q \<Rightarrow> env_put e ''SCRIPT_NAME'' (Inr q))
      = (case v of None \<Rightarrow> Inr e | Some x \<Rightarrow> env_put e ''SCRIPT_NAME'' (Inr (str x)))" for e v
    by (cases v) simp_all
  have path_var: "(case map_option lit systemPath of None \<Rightarrow> Inr e | Some b \<Rightarrow> env_put e ''PATH'' (string_fromBuffer b))
      = (case systemPath of None \<Rightarrow> Inr e | Some x \<Rightarrow> env_put e ''PATH'' (Inr (str x)))" for e
    using syspath(2) by (cases systemPath) (simp_all add: fromBuffer_lit)
  have url_var: "env_put_copy e n (Some (str x)) = env_put e n (Inr (str x))" for e n x
    by (simp add: env_put_copy_def copy_pad)
  have "worker_createEnvironment env c (?r t) (str root) (str p) =
      bnd (put_all hash_table_create (all_variables env address (conn_sourcePort c) systemPath m path hs d port root p))
        (\<lambda>e. Inr (e, ?r t3))"
    unfolding worker_createEnvironment_def http_getMethod_def hosted_fields method_variable conn(1) env_put_copy_text
      url_getPort_def url_getDomainName_def url_getPath_def all_variables_def connection_variables_def header_variables_def
      url_variables_def file_variables_def syspath(1)
    by (simp add: headers fromBuffer_lit url_fromInt [OF conn(2)] url_fromInt [OF port] rel name_var path_var url_var copy_pad
        http_getUrl_def bnd_assoc del: case_map_option)
  then show ?thesis using t3(2) by blast
qed

section \<open>Properties\<close>

text \<open>C4. The script of a request is executed with exactly these environment strings, in this order: the constant
  ones, the address and port of the client, the method when it is \<^verbatim>\<open>GET\<close> or \<^verbatim>\<open>POST\<close>, the headers \<^verbatim>\<open>Cookie\<close>,
  \<^verbatim>\<open>Referer\<close> and \<^verbatim>\<open>User-Agent\<close> when the client sent them, the domain, port and path of the request, the root, the script
  and its path below the root, and the search path of the server. The child of the fork
  replaces its streams and calls \<^verbatim>\<open>exec\<close> with them and without arguments.\<close>

theorem worker_cgi_environment:
  assumes "ht_rep t (header_entries [] hs)" and "list_all good_header hs"
    and "conn_sourceAddress c = map_option str address" and "conn_sourcePort c < 65536" and "port < 65536"
    and "realpath_text (we_realpath env)" and "NUL \<notin> set root" and "NUL \<notin> set p" and "NUL \<notin> set path" and "NUL \<notin> set d"
    and "we_PATH env = map_option lit systemPath" and "\<forall>x. address = Some x \<or> systemPath = Some x \<longrightarrow> NUL \<notin> set x"
    and "os_pipe (we_os env) w = (Some inp, w1)" and "os_pipe (we_os env) w1 = (Some out, w2)" and "os_pipe (we_os env) w2 = (Some err, w3)"
    and "os_fork (we_os env) w3 = (0, w4)" and "\<forall>a b w. fst (os_dup2 (we_os env) a b w) = None"
  shows "\<exists>envp request' w'.
      worker_returnCGI env c (hosted_request m path d port t) (str p) (str root) body w
        = Inr (Inl (ChildExecs (lit p) [] envp), request', w')
    \<and> map cstr envp = map (\<lambda>(n, v). n @ ''='' @ v)
        (present (all_variables env address (conn_sourcePort c) systemPath m path hs d port root p))"
proof -
  let ?vs = "all_variables env address (conn_sourcePort c) systemPath m path hs d port root p"
  have clean: "clean_variables ?vs"
    using all_variables_clean [OF assms(2,9,10,7,8,6,12)] .
  obtain t' where t': "worker_createEnvironment env c (hosted_request m path d port t) (str root) (str p) =
      bnd (put_all hash_table_create ?vs) (\<lambda>e. Inr (e, hosted_request m path d port t'))"
    using createEnvironment_puts [OF assms(1-8,11)] assms(12) by blast
  obtain e where e: "put_all hash_table_create ?vs = Inr e" "ht_rep e (env_entries (present ?vs))"
    using put_all_ok [OF _ clean, of hash_table_create "[]"] ht_rep_create by (auto simp: env_entries_def)
  have ok: "NUL \<notin> set n \<and> NUL \<notin> set x" if "(n, x) \<in> set (present ?vs)" for n x
    using that clean by (force simp: clean_variables_def present_def list_all_iff split: option.split_asm)
  have "list_all param_ok (env_entries (present ?vs))"
    using ok by (auto simp: list_all_iff env_entries_def param_ok_def)
  from child_environment [OF e(2) this assms(13-17), of "lit p"] obtain envp w' where
    s: "cgi_spawn (we_os env) (lit p) None (Some e) w = Inr (ChildExecs (lit p) [] envp, w')"
    "map cstr envp = map param_text (env_entries (present ?vs))" by blast
  have "map param_text (env_entries (present ?vs)) = map (\<lambda>(n, v). n @ ''='' @ v) (present ?vs)"
    using ok by (auto simp: env_entries_def param_text_def)
  then show ?thesis
    using t' e(1) s by (auto simp: worker_returnCGI_def string_getBuffer_def lit_def)
qed

text \<open>The site of the other examples, seen by the child of the fork.\<close>

definition child_env :: "script worker_env" where
  "child_env = demo_env\<lparr>we_os := idle_os\<lparr>os_pipe := (\<lambda>w. (Some (3, 4), w)), os_fork := (\<lambda>w. (0, w))\<rparr>,
     we_realpath := [''/srv/a.cgi'' \<mapsto> ''/srv/a.cgi'']\<rparr>"

theorem worker_cgi_environment_witness:
  "\<exists>envp request' w'.
      worker_returnCGI child_env script_connection (hosted_request ''GET'' ''/a.cgi'' ''x'' 80 hash_table_create) (str ''/srv/a.cgi'') (str ''/srv'') None
        \<lparr>sc_queue = [], sc_future = [], sc_sent = []\<rparr> = Inr (Inl (ChildExecs (lit ''/srv/a.cgi'') [] envp), request', w')
    \<and> map cstr envp = [''HTTPS=off'', ''SERVER_SOFTWARE=WSIC'', ''REMOTE_ADDR=10.0.0.1'', ''REMOTE_PORT=0'', ''REQUEST_METHOD=GET'',
        ''HTTP_HOST=x'', ''SERVER_NAME=x'', ''SERVER_PORT=80'', ''REQUEST_URI=/a.cgi'', ''DOCUMENT_ROOT=/srv'',
        ''SCRIPT_FILENAME=/srv/a.cgi'', ''SCRIPT_NAME=/a.cgi'']"
proof -
  let ?w = "\<lparr>sc_queue = [], sc_future = [], sc_sent = []\<rparr>"
  have e: "ht_rep hash_table_create (header_entries [] [])" using ht_rep_create by (simp add: header_entries_def)
  have c: "conn_sourceAddress script_connection = map_option str (Some ''10.0.0.1'')" "conn_sourcePort script_connection = 0"
    by (simp_all add: script_connection_def connection_setSourceAddress_def connection_setSocket_def connection_create_def)
  have o: "os_pipe (we_os child_env) ?w = (Some (3, 4), ?w)" "os_fork (we_os child_env) ?w = (0, ?w)"
    "\<forall>a b w. fst (os_dup2 (we_os child_env) a b w) = None" "realpath_text (we_realpath child_env)" "we_PATH child_env = map_option lit None"
    by (simp_all add: child_env_def demo_env_def idle_os_def realpath_text_def)
  have "present (all_variables child_env (Some ''10.0.0.1'') 0 None ''GET'' ''/a.cgi'' [] ''x'' 80 ''/srv'' ''/srv/a.cgi'')
      = [(''HTTPS'', ''off''), (''SERVER_SOFTWARE'', ''WSIC''), (''REMOTE_ADDR'', ''10.0.0.1''), (''REMOTE_PORT'', ''0''), (''REQUEST_METHOD'', ''GET''),
        (''HTTP_HOST'', ''x''), (''SERVER_NAME'', ''x''), (''SERVER_PORT'', ''80''), (''REQUEST_URI'', ''/a.cgi''), (''DOCUMENT_ROOT'', ''/srv''),
        (''SCRIPT_FILENAME'', ''/srv/a.cgi''), (''SCRIPT_NAME'', ''/a.cgi'')]"
    by (simp add: all_variables_def connection_variables_def header_variables_def url_variables_def file_variables_def present_def
        header_value_def dec.simps relative_path_def child_env_def)
  with worker_cgi_environment [OF e, of script_connection "Some ''10.0.0.1''" 80 child_env "''/srv''" "''/srv/a.cgi''" "''/a.cgi''" "''x''" None
      ?w "(3, 4)" ?w "(3, 4)" ?w "(3, 4)" ?w ?w "''GET''" None] c o
  show ?thesis by simp
qed

end
