(* ===== verification/Queue_Set.thy ===== *)
theory Queue_Set
  imports CList
begin

text \<open>
  The two thin clients of the list: the queue of \<^verbatim>\<open>src/datastructures/queue/queue.c\<close> and the set
  of \<^verbatim>\<open>src/datastructures/set/set.c\<close>. The locale \<open>fifo\<close> is the contract of a queue, stated over
  the operations alone; the first-in first-out order is proved once inside it.
\<close>

section \<open>Queue\<close>

type_synonym 'a queue_t = "'a list_t"

definition queue_create :: "'a queue_t" where
  "queue_create = list_create"

definition queue_push :: "'a queue_t \<Rightarrow> 'a \<Rightarrow> 'a queue_t exec" where
  "queue_push q v = list_addValue q v"

definition queue_pop :: "'a queue_t \<Rightarrow> ('a option \<times> 'a queue_t) exec" where
  "queue_pop q = list_removeValue q 0"

definition queue_peek :: "'a queue_t \<Rightarrow> ('a option \<times> 'a queue_t) exec" where
  "queue_peek q = list_getValue q 0"

definition queue_getLength :: "'a queue_t \<Rightarrow> nat" where
  "queue_getLength q = list_getLength q"

definition queue_clear :: "'a queue_t \<Rightarrow> 'a queue_t exec" where
  "queue_clear q = list_clear q"

definition queue_free :: "'a queue_t \<Rightarrow> (nat \<Rightarrow> 'a list_node_t option) exec" where
  "queue_free q = list_free q"

section \<open>Set\<close>

type_synonym 'a set_t = "'a list_t"

definition set_create :: "'a set_t" where
  "set_create = list_create"

definition set_addValue :: "'a set_t \<Rightarrow> 'a \<Rightarrow> 'a set_t exec" where
  "set_addValue s v =
     bnd (list_findIndex s v) (\<lambda>(index, s1).
       if index \<noteq> -1 then Inr s1 else list_addValue s1 v)"

definition set_removeValue :: "'a set_t \<Rightarrow> nat \<Rightarrow> ('a option \<times> 'a set_t) exec" where
  "set_removeValue s i = list_removeValue s i"

definition set_getValue :: "'a set_t \<Rightarrow> nat \<Rightarrow> ('a option \<times> 'a set_t) exec" where
  "set_getValue s i = list_getValue s i"

definition set_getLength :: "'a set_t \<Rightarrow> nat" where
  "set_getLength s = list_getLength s"

definition set_clear :: "'a set_t \<Rightarrow> 'a set_t exec" where
  "set_clear s = list_clear s"

definition set_free :: "'a set_t \<Rightarrow> (nat \<Rightarrow> 'a list_node_t option) exec" where
  "set_free s = list_free s"

definition set_inv :: "'a set_t \<Rightarrow> 'a list \<Rightarrow> bool" where
  "set_inv s vs \<longleftrightarrow> list_inv s vs \<and> distinct vs"

fun set_addAll :: "'a set_t \<Rightarrow> 'a list \<Rightarrow> 'a set_t exec" where
  "set_addAll s [] = Inr s"
| "set_addAll s (v # vs) = bnd (set_addValue s v) (\<lambda>s1. set_addAll s1 vs)"

section \<open>The contract of a queue\<close>

fun push_all :: "('q \<Rightarrow> 'a \<Rightarrow> 'q exec) \<Rightarrow> 'q \<Rightarrow> 'a list \<Rightarrow> 'q exec" where
  "push_all push q [] = Inr q"
| "push_all push q (v # vs) = bnd (push q v) (\<lambda>q1. push_all push q1 vs)"

fun pop_many :: "('q \<Rightarrow> ('a option \<times> 'q) exec) \<Rightarrow> nat \<Rightarrow> 'q \<Rightarrow> ('a option list \<times> 'q) exec" where
  "pop_many pop 0 q = Inr ([], q)"
| "pop_many pop (Suc n) q =
     bnd (pop q) (\<lambda>(v, q1). bnd (pop_many pop n q1) (\<lambda>(vs, q2). Inr (v # vs, q2)))"

locale fifo =
  fixes inv :: "'q \<Rightarrow> 'a list \<Rightarrow> bool"
    and push :: "'q \<Rightarrow> 'a \<Rightarrow> 'q exec"
    and pop :: "'q \<Rightarrow> ('a option \<times> 'q) exec"
  assumes push_snoc: "inv q vs \<Longrightarrow> \<exists>q'. push q v = Inr q' \<and> inv q' (vs @ [v])"
    and pop_Cons: "inv q (v # vs) \<Longrightarrow> \<exists>q'. pop q = Inr (Some v, q') \<and> inv q' vs"
    and pop_Nil: "inv q [] \<Longrightarrow> pop q = Inr (None, q)"
begin

lemma push_all_inv: "inv q vs \<Longrightarrow> \<exists>q'. push_all push q ws = Inr q' \<and> inv q' (vs @ ws)"
proof (induction ws arbitrary: q vs)
  case (Cons w ws)
  then show ?case using push_snoc [OF Cons.prems, of w] by fastforce
qed simp

lemma pop_many_inv:
  "inv q vs \<Longrightarrow> n \<le> length vs \<Longrightarrow>
   \<exists>q'. pop_many pop n q = Inr (map Some (take n vs), q') \<and> inv q' (drop n vs)"
proof (induction n arbitrary: q vs)
  case (Suc n)
  then obtain v ws where vs: "vs = v # ws" by (cases vs) auto
  obtain q1 where "pop q = Inr (Some v, q1)" "inv q1 ws" using pop_Cons Suc.prems vs by blast
  with Suc.IH [of q1 ws] Suc.prems vs show ?case by auto
qed simp

lemma first_in_first_out:
  assumes "inv q vs"
  shows "\<exists>q' q''. push_all push q ws = Inr q'
           \<and> pop_many pop (length vs + length ws) q' = Inr (map Some (vs @ ws), q'')
           \<and> inv q'' [] \<and> pop q'' = Inr (None, q'')"
proof -
  obtain q' where q': "push_all push q ws = Inr q'" "inv q' (vs @ ws)"
    using push_all_inv [OF assms] by blast
  then obtain q'' where "pop_many pop (length vs + length ws) q' = Inr (map Some (vs @ ws), q'')"
    "inv q'' []"
    using pop_many_inv [OF q'(2), of "length vs + length ws"] by auto
  with q'(1) pop_Nil show ?thesis by blast
qed

end

interpretation queue_fifo: fifo list_inv queue_push queue_pop
proof
  fix q :: "'a list_t" and vs v
  assume "list_inv q vs"
  then show "\<exists>q'. queue_push q v = Inr q' \<and> list_inv q' (vs @ [v])"
    using inv_add [of q vs v] by (auto simp: queue_push_def)
next
  fix q :: "'a list_t" and v vs
  assume "list_inv q (v # vs)"
  then show "\<exists>q'. queue_pop q = Inr (Some v, q') \<and> list_inv q' vs"
    using inv_remove_0 [of q v vs] by (auto simp: queue_pop_def)
next
  fix q :: "'a list_t"
  assume "list_inv q []"
  then show "queue_pop q = Inr (None, q)" by (simp add: queue_pop_def inv_remove_none)
qed

section \<open>Set lemmas\<close>

lemma set_inv_create: "set_inv set_create []"
  by (simp add: set_inv_def set_create_def inv_create)

lemma set_inv_add:
  assumes "set_inv s vs"
  shows "\<exists>s'. set_addValue s v = Inr s' \<and> set_inv s' (if v \<in> set vs then vs else vs @ [v])"
proof (cases "v \<in> set vs")
  case True
  have "list_inv s vs" using assms by (simp add: set_inv_def)
  from inv_findIndex_hit [OF this True] True assms show ?thesis
    by (auto simp: set_addValue_def set_inv_def)
next
  case False
  have "list_inv s vs" using assms by (simp add: set_inv_def)
  from inv_findIndex_miss [OF this False]
  obtain s1 where s1: "list_findIndex s v = Inr (-1, s1)" "list_inv s1 vs" by blast
  with inv_add [OF s1(2), of v] False assms show ?thesis
    by (auto simp: set_addValue_def set_inv_def)
qed

lemma set_inv_addAll:
  "set_inv s vs \<Longrightarrow> \<exists>s' us. set_addAll s ws = Inr s' \<and> set_inv s' us \<and> set us = set vs \<union> set ws"
proof (induction ws arbitrary: s vs)
  case Nil
  then show ?case by auto
next
  case (Cons w ws)
  obtain s1 where s1: "set_addValue s w = Inr s1" "set_inv s1 (if w \<in> set vs then vs else vs @ [w])"
    using set_inv_add [OF Cons.prems] by blast
  have "set (if w \<in> set vs then vs else vs @ [w]) = insert w (set vs)" by auto
  then obtain s' us where "set_addAll s1 ws = Inr s'" "set_inv s' us"
    "set us = insert w (set vs) \<union> set ws"
    using Cons.IH [OF s1(2)] by metis
  moreover from s1(1) have "set_addAll s (w # ws) = set_addAll s1 ws" by simp
  ultimately show ?case by fastforce
qed

section \<open>Properties\<close>

text \<open>The queue is first in, first out: after pushing any values onto a queue, popping as
  many times as there are values returns the old ones and then the new ones in order, and one
  more pop returns null.\<close>

theorem queue_first_in_first_out:
  assumes "list_inv q vs"
  shows "\<exists>q' q''. push_all queue_push q ws = Inr q'
    \<and> pop_many queue_pop (length vs + length ws) q' = Inr (map Some (vs @ ws), q'')
    \<and> queue_pop q'' = Inr (None, q'')"
  using queue_fifo.first_in_first_out [OF assms] by blast

theorem queue_first_in_first_out_witness:
  "\<exists>q' q''. push_all queue_push queue_create [True, False] = Inr q'
    \<and> pop_many queue_pop 2 q' = Inr ([Some True, Some False], q'')
    \<and> queue_pop q'' = Inr (None, q'')"
  using queue_first_in_first_out [of queue_create "[]" "[True, False]"] inv_create
  by (simp add: queue_create_def numeral_2_eq_2)

text \<open>A set built by adding values, duplicates among them, holds each of them exactly once.\<close>

theorem set_holds_each_once:
  "\<exists>s us. set_addAll set_create ws = Inr s \<and> list_inv s us \<and> distinct us \<and> set us = set ws
     \<and> set_getLength s = card (set ws)"
proof -
  obtain s us where "set_addAll set_create ws = Inr s" "set_inv s us" "set us = set ws"
    using set_inv_addAll [OF set_inv_create] by fastforce
  then show ?thesis
    by (auto simp: set_inv_def set_getLength_def list_getLength_def list_inv_length
        distinct_card [symmetric])
qed

end
