(* ===== verification/Server.thy ===== *)
theory Server
  imports Worker Queue_Set
begin

text \<open>
  The server process of \<^verbatim>\<open>src/server/server.c\<close>: it opens a listening socket per port, starts the worker threads, accepts
  connections, recognises and sets up TLS, pushes them to the connection queue, and shuts all of it down. Sockets, polling,
  \<^verbatim>\<open>fork\<close> and OpenSSL are parameters. Of the connection queue only its contents are kept here; its synchronisation is the
  subject of the theory of the message queue.
\<close>

unbundle bit_operations_syntax

section \<open>System calls and state\<close>

datatype ssl_error = SSL_ERROR_WANT_READ | SSL_ERROR_WANT_WRITE | SSL_ERROR_OTHER

text \<open>
  Every call returns what the C function returns. \<open>so_poll\<close> gets the watched descriptors, each with the flag for
  \<^verbatim>\<open>POLLIN\<close>, and returns for each whether \<^verbatim>\<open>POLLIN\<close> is set in \<^verbatim>\<open>revents\<close>; \<open>so_poll1\<close> waits for one descriptor to be readable or
  (\<open>True\<close>) writable. \<open>so_accept\<close> yields the socket, the text of \<^verbatim>\<open>inet_ntoa\<close> and the port of the peer, and \<open>None\<close> for
  \<^verbatim>\<open>-1\<close>. \<open>so_SSL_new\<close> stands for the calls that create the temporary context, install the callback for the server name and
  attach a new TLS connection to a socket.
\<close>

record 'w server_os =
  so_getfl :: "int \<Rightarrow> 'w \<Rightarrow> int \<times> 'w"
  so_setfl :: "int \<Rightarrow> int \<Rightarrow> 'w \<Rightarrow> int \<times> 'w"
  so_socket :: "'w \<Rightarrow> int \<times> 'w"
  so_setsockopt :: "int \<Rightarrow> 'w \<Rightarrow> int \<times> 'w"
  so_bind :: "int \<Rightarrow> nat \<Rightarrow> 'w \<Rightarrow> int \<times> 'w"
  so_listen :: "int \<Rightarrow> nat \<Rightarrow> 'w \<Rightarrow> int \<times> 'w"
  so_poll :: "(int \<times> bool) list \<Rightarrow> 'w \<Rightarrow> (int \<times> bool list) \<times> 'w"
  so_poll1 :: "int \<Rightarrow> bool \<Rightarrow> 'w \<Rightarrow> int \<times> 'w"
  so_accept :: "int \<Rightarrow> 'w \<Rightarrow> (int \<times> bytes \<times> nat) option \<times> 'w"
  so_shutdown :: "int \<Rightarrow> 'w \<Rightarrow> 'w"
  so_close :: "int \<Rightarrow> 'w \<Rightarrow> 'w"
  so_fork :: "'w \<Rightarrow> int \<times> 'w"
  so_SSL_new :: "int \<Rightarrow> 'w \<Rightarrow> nat \<times> 'w"
  so_SSL_accept :: "nat \<Rightarrow> 'w \<Rightarrow> int \<times> 'w"
  so_SSL_get_error :: "nat \<Rightarrow> int \<Rightarrow> 'w \<Rightarrow> ssl_error"
  so_SSL_free :: "nat \<Rightarrow> 'w \<Rightarrow> 'w"

record pollfd =
  pfd_fd :: int
  pfd_events :: bool

record server_t =
  sv_socketDescriptors :: "pollfd list"
  sv_socketDescriptorCount :: nat
  sv_connectionQueue :: "connection_t list"
  sv_workerPool :: "worker_t list"
  sv_dhCallbacks :: "nat list"

definition SERVER_EXIT_FATAL :: int where "SERVER_EXIT_FATAL = 10"
definition EXIT_FAILURE :: int where "EXIT_FAILURE = 1"
definition O_NONBLOCK :: int where "O_NONBLOCK = 2048"

section \<open>Listening\<close>

definition server_setNonBlocking :: "'w server_os \<Rightarrow> int \<Rightarrow> 'w \<Rightarrow> bool \<times> 'w" where
  "server_setNonBlocking os socketDescriptor w =
     (case so_getfl os socketDescriptor w of (flags, w1) \<Rightarrow>
        if flags = -1 then (False, w1)
        else case so_setfl os socketDescriptor (flags OR O_NONBLOCK) w1 of (flags', w2) \<Rightarrow> (flags' \<noteq> -1, w2))"

definition server_listen :: "'w server_os \<Rightarrow> nat \<Rightarrow> nat \<Rightarrow> 'w \<Rightarrow> int \<times> 'w" where
  "server_listen os port backlog w =
     (case so_socket os w of (socketDescriptor, w1) \<Rightarrow>
        if socketDescriptor < 0 then (0, w1)
        else case so_setsockopt os socketDescriptor w1 of (r, w2) \<Rightarrow>
          if r < 0 then (0, w2)
          else case server_setNonBlocking os socketDescriptor w2 of (isNonBlocking, w3) \<Rightarrow>
            if \<not> isNonBlocking then (0, w3)
            else case so_bind os socketDescriptor port w3 of (returnCodeBind, w4) \<Rightarrow>
              if returnCodeBind < 0 then (0, w4)
              else case so_listen os socketDescriptor backlog w4 of (r, w5) \<Rightarrow>
                if r < 0 then (0, w5) else (socketDescriptor, w5))"

text \<open>The ports come as pointers in the set; the cast to \<^verbatim>\<open>uint16_t\<close> takes their low sixteen bits.\<close>

fun server_listenAll ::
  "'w server_os \<Rightarrow> nat \<Rightarrow> nat \<Rightarrow> int set_t \<Rightarrow> nat \<Rightarrow> server_t \<Rightarrow> 'w \<Rightarrow> (server_t \<times> 'w) exec" where
  "server_listenAll os 0 i ports backlog st w = Inr (st, w)"
| "server_listenAll os (Suc n) i ports backlog st w =
     bnd (list_getValue ports i) (\<lambda>(value, ports1).
       case server_listen os (to_u16 (case value of None \<Rightarrow> 0 | Some v \<Rightarrow> v)) backlog w of (socketDescriptor, w1) \<Rightarrow>
         if socketDescriptor \<noteq> 0 then
           if i < length (sv_socketDescriptors st) then
             server_listenAll os n (Suc i) ports1 backlog
               (st\<lparr>sv_socketDescriptors := (sv_socketDescriptors st)[i := \<lparr>pfd_fd = socketDescriptor, pfd_events = True\<rparr>],
                   sv_socketDescriptorCount := sv_socketDescriptorCount st + 1\<rparr>) w1
           else Inl OutOfBounds
         else server_listenAll os n (Suc i) ports1 backlog st w1)"

text \<open>\<open>created i\<close> tells whether the thread of worker \<open>i\<close> can be created.\<close>

fun server_spawnWorkers :: "(nat \<Rightarrow> bool) \<Rightarrow> nat \<Rightarrow> nat \<Rightarrow> worker_t list option" where
  "server_spawnWorkers created 0 i = Some []"
| "server_spawnWorkers created (Suc n) i =
     (case worker_spawn (created i) (int i) None of
        None \<Rightarrow> None
      | Some worker \<Rightarrow> map_option (Cons worker) (server_spawnWorkers created n (Suc i)))"

text \<open>The TLS contexts that get the callback for Diffie-Hellman parameters.\<close>

fun server_setupTLS :: "nat \<Rightarrow> nat \<Rightarrow> config_t \<Rightarrow> (nat list \<times> config_t) exec" where
  "server_setupTLS 0 i config = Inr ([], config)"
| "server_setupTLS (Suc n) i config =
     bnd (config_getServerConfig config i) (\<lambda>(serverConfig, config1).
     bnd (deref serverConfig) (\<lambda>sc.
     bnd (server_setupTLS n (Suc i) config1) (\<lambda>(rest, config2).
       Inr (case config_getSSLContext sc of
              None \<Rightarrow> rest
            | Some sslContext \<Rightarrow> if config_getDiffieHellmanParameters sc \<noteq> None then ctx_address sslContext # rest else rest,
            config2))))"

text \<open>
  Starting a server instance. It returns an exit code only when something fails; otherwise it goes on to accept connections
  forever (\<open>Inr\<close> with the state in which it does).
\<close>

definition server_start ::
  "'w server_os \<Rightarrow> (nat \<Rightarrow> bool) \<Rightarrow> config_t option \<Rightarrow> int set_t \<Rightarrow> 'w \<Rightarrow> ((int + server_t) \<times> config_t option \<times> 'w) exec" where
  "server_start os created globalConfig ports w =
     bnd (deref (config_getGlobalConfig globalConfig)) (\<lambda>config.
       case server_spawnWorkers created (config_getNumberOfThreads config) 0 of
         None \<Rightarrow> Inr (Inl EXIT_FAILURE, globalConfig, w)
       | Some pool \<Rightarrow>
           bnd (server_listenAll os (list_getLength ports) 0 ports (config_getBacklogSize config)
                 \<lparr>sv_socketDescriptors = replicate (set_getLength ports) \<lparr>pfd_fd = 0, pfd_events = False\<rparr>,
                  sv_socketDescriptorCount = 0, sv_connectionQueue = [], sv_workerPool = pool, sv_dhCallbacks = []\<rparr> w) (\<lambda>(st, w1).
             if sv_socketDescriptorCount st = 0 then Inr (Inl SERVER_EXIT_FATAL, globalConfig, w1)
             else bnd (server_setupTLS (config_getServers config) 0 config) (\<lambda>(callbacks, config1).
                    Inr (Inr (st\<lparr>sv_dhCallbacks := callbacks\<rparr>), Some config1, w1))))"

datatype instance_t = Instance int | ServerProcess "int + server_t"

definition server_createInstance ::
  "'w server_os \<Rightarrow> (nat \<Rightarrow> bool) \<Rightarrow> config_t option \<Rightarrow> int set_t \<Rightarrow> 'w \<Rightarrow> (instance_t \<times> config_t option \<times> 'w) exec" where
  "server_createInstance os created globalConfig ports w =
     (case so_fork os w of (pid, w1) \<Rightarrow>
        if pid < 0 then Inr (Instance 0, globalConfig, w1)
        else if pid = 0 then
          bnd (server_start os created globalConfig ports w1) (\<lambda>(r, config1, w2). Inr (ServerProcess r, config1, w2))
        else Inr (Instance pid, globalConfig, w1))"

section \<open>TLS\<close>

text \<open>
  The handshake. A status of 0 releases the TLS connection and then calls \<^verbatim>\<open>SSL_accept\<close> on it again, which is a fault. The loop
  may go on forever (\<open>None\<close>) when the peer never completes the handshake.
\<close>

partial_function (option) server_acceptTLS :: "'w server_os \<Rightarrow> int \<Rightarrow> nat \<Rightarrow> 'w \<Rightarrow> (nat option \<times> 'w) exec option" where
  "server_acceptTLS os socket ssl w =
     (case so_SSL_accept os ssl w of (status, w1) \<Rightarrow>
        if status = 0 then Some (Inl DanglingPointer)
        else if status < 0 then
          (case so_SSL_get_error os ssl status w1 of
             SSL_ERROR_WANT_READ \<Rightarrow>
               (case so_poll1 os socket False w1 of (s, w2) \<Rightarrow>
                  if s < -1 then Some (Inr (None, so_SSL_free os ssl w2)) else server_acceptTLS os socket ssl w2)
           | SSL_ERROR_WANT_WRITE \<Rightarrow>
               (case so_poll1 os socket True w1 of (s, w2) \<Rightarrow>
                  if s < -1 then Some (Inr (None, so_SSL_free os ssl w2)) else server_acceptTLS os socket ssl w2)
           | SSL_ERROR_OTHER \<Rightarrow> Some (Inr (None, so_SSL_free os ssl w1)))
        else Some (Inr (Some ssl, w1)))"

definition server_handleSSL :: "'w server_os \<Rightarrow> connection_t \<Rightarrow> 'w \<Rightarrow> (nat option \<times> 'w) exec" where
  "server_handleSSL os connection w =
     (case so_SSL_new os (conn_socket connection) w of (ssl, w1) \<Rightarrow>
        case server_acceptTLS os (conn_socket connection) ssl w1 of None \<Rightarrow> Inl Diverges | Some r \<Rightarrow> r)"

text \<open>The callbacks. A server name is answered with the context to use, or not acknowledged.\<close>

datatype sni = SSL_TLSEXT_ERR_OK ssl_ctx_t | SSL_TLSEXT_ERR_NOACK

definition server_handleServerNameIdentification :: "config_t option \<Rightarrow> bytes option \<Rightarrow> (sni \<times> config_t option) exec" where
  "server_handleServerNameIdentification globalConfig rawDomain =
     (case rawDomain of
        None \<Rightarrow> Inr (SSL_TLSEXT_ERR_NOACK, globalConfig)
      | Some raw \<Rightarrow>
          bnd (string_fromBuffer raw) (\<lambda>domain.
          bnd (deref (config_getGlobalConfig globalConfig)) (\<lambda>config.
          bnd (config_getServerConfigByHTTPSDomain config domain) (\<lambda>(serverConfig, config1).
            case serverConfig of
              None \<Rightarrow> Inr (SSL_TLSEXT_ERR_NOACK, Some config1)
            | Some sc \<Rightarrow> bnd (deref (config_getSSLContext sc)) (\<lambda>ctx. Inr (SSL_TLSEXT_ERR_OK ctx, Some config1))))))"

definition server_handleDiffieHellmanParameters :: "config_t option \<Rightarrow> nat \<Rightarrow> (nat option \<times> config_t option) exec" where
  "server_handleDiffieHellmanParameters globalConfig sslContext =
     bnd (deref (config_getGlobalConfig globalConfig)) (\<lambda>config.
     bnd (config_getServerConfigBySSLContext config sslContext) (\<lambda>(serverConfig, config1).
       Inr (case serverConfig of None \<Rightarrow> None | Some sc \<Rightarrow> config_getDiffieHellmanParameters sc, Some config1)))"

section \<open>Accepting connections\<close>

text \<open>One accepted socket: the connection to push, or nothing when it could not be set up.\<close>

definition server_setupConnection ::
  "'w net \<Rightarrow> 'w server_os \<Rightarrow> int \<Rightarrow> bytes \<Rightarrow> nat \<Rightarrow> 'w \<Rightarrow> (connection_t option \<times> 'w) exec" where
  "server_setupConnection net os socket address port w =
     (case server_setNonBlocking os socket w of (isNonBlocking, w1) \<Rightarrow>
        if \<not> isNonBlocking then Inr (None, so_close os socket w1)
        else
          bnd (string_fromBuffer address) (\<lambda>sourceAddress.
            let connection = connection_setSourceAddress
                  (connection_setSourcePort (connection_setSocket connection_create socket) port) (Some sourceAddress);
                w2 = snd (connection_pollForData net connection 100 w1)
            in bnd (connection_isSSL net connection w2) (\<lambda>(isSSL, w3).
                 if isSSL then
                   bnd (server_handleSSL os connection w3) (\<lambda>(ssl, w4).
                     if ssl = None then bnd (connection_free net connection w4) (\<lambda>w5. Inr (None, w5))
                     else Inr (Some (connection_setSSL connection ssl), w4))
                 else Inr (Some connection, w3))))"

text \<open>The inner loop accepts until there is nothing left to accept, which need not happen.\<close>

partial_function (option) server_acceptAll ::
  "'w net \<Rightarrow> 'w server_os \<Rightarrow> int \<Rightarrow> connection_t list \<Rightarrow> 'w \<Rightarrow> (connection_t list \<times> 'w) exec option" where
  "server_acceptAll net os fd queue w =
     (case so_accept os fd w of
        (None, w1) \<Rightarrow> Some (Inr (queue, w1))
      | (Some (socket, address, port), w1) \<Rightarrow>
          (case server_setupConnection net os socket address port w1 of
             Inl e \<Rightarrow> Some (Inl e)
           | Inr (c, w2) \<Rightarrow> server_acceptAll net os fd (case c of None \<Rightarrow> queue | Some connection \<Rightarrow> queue @ [connection]) w2))"

fun server_acceptEach ::
  "'w net \<Rightarrow> 'w server_os \<Rightarrow> (pollfd \<times> bool) list \<Rightarrow> connection_t list \<Rightarrow> 'w \<Rightarrow> (connection_t list \<times> 'w) exec" where
  "server_acceptEach net os [] queue w = Inr (queue, w)"
| "server_acceptEach net os ((d, pollin) # rest) queue w =
     (if \<not> pollin then server_acceptEach net os rest queue w
      else case server_acceptAll net os (pfd_fd d) queue w of
             None \<Rightarrow> Inl Diverges
           | Some r \<Rightarrow> bnd r (\<lambda>(queue1, w1). server_acceptEach net os rest queue1 w1))"

definition server_watched :: "server_t \<Rightarrow> pollfd list" where
  "server_watched st = take (sv_socketDescriptorCount st) (sv_socketDescriptors st)"

definition server_acceptConnections ::
  "'w net \<Rightarrow> 'w server_os \<Rightarrow> server_t \<Rightarrow> 'w \<Rightarrow> (int \<times> server_t \<times> 'w) exec" where
  "server_acceptConnections net os st w =
     (case so_poll os (map (\<lambda>d. (pfd_fd d, pfd_events d)) (server_watched st)) w of ((status, revents), w1) \<Rightarrow>
        if status \<le> 0 then Inr (0, st, w1)
        else bnd (server_acceptEach net os (zip (server_watched st) revents) (sv_connectionQueue st) w1) (\<lambda>(queue, w2).
               Inr (status, st\<lparr>sv_connectionQueue := queue\<rparr>, w2)))"

section \<open>Shutting down\<close>

fun server_closeSockets :: "'w server_os \<Rightarrow> pollfd list \<Rightarrow> 'w \<Rightarrow> 'w" where
  "server_closeSockets os [] w = w"
| "server_closeSockets os (d # ds) w = server_closeSockets os ds (so_close os (pfd_fd d) (so_shutdown os (pfd_fd d) w))"

fun server_freeWorkers :: "'w worker_env \<Rightarrow> worker_t list \<Rightarrow> 'w \<Rightarrow> 'w exec" where
  "server_freeWorkers env [] w = Inr w"
| "server_freeWorkers env (worker # workers) w = bnd (worker_free env worker w) (\<lambda>w1. server_freeWorkers env workers w1)"

text \<open>
  \<open>finish\<close> stands for what the worker threads still do, from the moment they are told to stop and the queue is
  unlocked until they can be joined. The loops run over the number of threads in the configuration.
\<close>

definition server_closeGracefully ::
  "'w worker_env \<Rightarrow> 'w server_os \<Rightarrow> (worker_t list \<Rightarrow> 'w \<Rightarrow> worker_t list \<times> 'w) \<Rightarrow> config_t option \<Rightarrow> server_t \<Rightarrow> 'w
    \<Rightarrow> (int \<times> server_t \<times> 'w) exec" where
  "server_closeGracefully env os finish globalConfig st w =
     (let w1 = server_closeSockets os (server_watched st) w in
      bnd (deref (config_getGlobalConfig globalConfig)) (\<lambda>config.
        if config_getNumberOfThreads config > length (sv_workerPool st) then Inl OutOfBounds
        else
          case finish (map worker_closeGracefully (take (config_getNumberOfThreads config) (sv_workerPool st))) w1 of (workers, w2) \<Rightarrow>
            bnd (server_freeWorkers env workers w2) (\<lambda>w3.
              Inr (0, st\<lparr>sv_workerPool := [], sv_socketDescriptors := [], sv_connectionQueue := []\<rparr>, w3))))"

definition server_close :: int where
  "server_close = EXIT_FAILURE"

section \<open>Which ports are watched\<close>

text \<open>\<open>sock p\<close> is the socket that listening on port \<open>p\<close> yields, 0 when it fails.\<close>

definition listens :: "'w server_os \<Rightarrow> nat \<Rightarrow> (nat \<Rightarrow> int) \<Rightarrow> bool" where
  "listens os backlog sock \<longleftrightarrow> (\<forall>p w. fst (server_listen os p backlog w) = sock p)"

definition bound :: "(nat \<Rightarrow> int) \<Rightarrow> int \<Rightarrow> bool" where
  "bound sock v \<longleftrightarrow> sock (to_u16 v) \<noteq> 0"

definition slot :: "(nat \<Rightarrow> int) \<Rightarrow> int \<Rightarrow> pollfd" where
  "slot sock v = (if bound sock v then \<lparr>pfd_fd = sock (to_u16 v), pfd_events = True\<rparr> else \<lparr>pfd_fd = 0, pfd_events = False\<rparr>)"

abbreviation unused :: pollfd where
  "unused \<equiv> \<lparr>pfd_fd = 0, pfd_events = False\<rparr>"

lemma listenAll_slots:
  assumes "listens os backlog sock" and "list_inv ports vs" and "i + n = length vs" and "i = 0 \<or> list_currentIndex ports = i - 1"
    and "sv_socketDescriptors st = map (slot sock) (take i vs) @ replicate n unused"
    and "sv_socketDescriptorCount st = length (filter (bound sock) (take i vs))"
  shows "\<exists>w'. server_listenAll os n i ports backlog st w
    = Inr (st\<lparr>sv_socketDescriptors := map (slot sock) vs, sv_socketDescriptorCount := length (filter (bound sock) vs)\<rparr>, w')"
  using assms(2-6)
proof (induction n arbitrary: i ports st w)
  case 0
  then have "st\<lparr>sv_socketDescriptors := map (slot sock) vs, sv_socketDescriptorCount := length (filter (bound sock) vs)\<rparr> = st" by simp
  then show ?case by simp
next
  case (Suc n)
  then have i: "i < length vs" by simp
  have "move_safe (length vs) (list_currentIndex ports) i" using Suc.prems(3) i by (cases i) auto
  then obtain ports1 where p: "list_getValue ports i = Inr (Some (vs ! i), ports1)" "list_inv ports1 vs" "list_currentIndex ports1 = i"
    using inv_get [OF Suc.prems(1) i] by blast
  obtain w1 where l: "server_listen os (to_u16 (vs ! i)) backlog w = (sock (to_u16 (vs ! i)), w1)"
    using assms(1) unfolding listens_def by (metis prod.collapse)
  have t: "take (Suc i) vs = take i vs @ [vs ! i]" using i by (simp add: take_Suc_conv_app_nth)
  have r: "(map (slot sock) (take i vs) @ replicate (Suc n) unused)[i := x] = map (slot sock) (take i vs) @ x # replicate n unused" for x
    using i by (simp add: list_update_append)
  let ?st = "if bound sock (vs ! i) then st\<lparr>sv_socketDescriptors := (sv_socketDescriptors st)[i := slot sock (vs ! i)],
      sv_socketDescriptorCount := sv_socketDescriptorCount st + 1\<rparr> else st"
  have step: "server_listenAll os (Suc n) i ports backlog st w = server_listenAll os n (Suc i) ports1 backlog ?st w1"
    using p(1) l Suc.prems(4) i by (simp add: bound_def slot_def)
  have slots: "sv_socketDescriptors ?st = map (slot sock) (take (Suc i) vs) @ replicate n unused"
  proof (cases "bound sock (vs ! i)")
    case True
    then show ?thesis unfolding Suc.prems(4) t by (simp only: if_True r server_t.simps Suc.prems(4) map_append) simp
  next
    case False
    then have "slot sock (vs ! i) = unused" by (simp add: slot_def)
    then show ?thesis using False by (simp only: if_False Suc.prems(4) t map_append) simp
  qed
  have count: "sv_socketDescriptorCount ?st = length (filter (bound sock) (take (Suc i) vs))"
    by (simp only: t filter_append length_append) (simp add: Suc.prems(5))
  have "?st\<lparr>sv_socketDescriptors := a, sv_socketDescriptorCount := b\<rparr> = st\<lparr>sv_socketDescriptors := a, sv_socketDescriptorCount := b\<rparr>" for a b
    by simp
  then show ?case using Suc.IH [OF p(2) _ _ slots count, of w1] Suc.prems(2) p(3) unfolding step by auto
qed

lemma spawnWorkers_all:
  "\<forall>j. created j \<Longrightarrow> \<exists>pool. server_spawnWorkers created n i = Some pool \<and> length pool = n"
proof (induction n arbitrary: i)
  case (Suc n)
  then obtain pool where "server_spawnWorkers created n (Suc i) = Some pool" "length pool = n" by blast
  moreover have "worker_spawn (created i) (int i) None \<noteq> None" using Suc.prems by (simp add: worker_spawn_def)
  ultimately show ?case by auto
qed simp

lemma setupTLS_ok:
  assumes "list_inv (cfg_serverConfigs config) scs" and "i + n = length scs" and "i = 0 \<or> list_currentIndex (cfg_serverConfigs config) = i - 1"
  shows "\<exists>cs config'. server_setupTLS n i config = Inr (cs, config') \<and> list_inv (cfg_serverConfigs config') scs \<and> same_settings config config'"
  using assms
proof (induction n arbitrary: i config)
  case (Suc n)
  then have "i < length scs" by simp
  then obtain c' where c': "config_getServerConfig config i = Inr (Some (scs ! i), c')" "list_inv (cfg_serverConfigs c') scs"
    "list_currentIndex (cfg_serverConfigs c') = i" "same_settings config c'"
    using getServerConfig_at [OF Suc.prems(1) _ Suc.prems(3)] by blast
  then show ?case using Suc.IH [OF c'(2), of "Suc i"] Suc.prems(2) same_settings_trans [OF c'(4)] by auto
qed auto

lemma start_watches:
  assumes "listens os (config_getBacklogSize config) sock" and "list_inv ports vs" and "list_inv (cfg_serverConfigs config) scs"
    and "\<forall>i. created i" and "\<exists>v \<in> set vs. bound sock v"
  shows "\<exists>st config' w'. server_start os created (Some config) ports w = Inr (Inr st, Some config', w')
    \<and> length (sv_workerPool st) = config_getNumberOfThreads config \<and> sv_connectionQueue st = []
    \<and> server_watched st = take (length (filter (bound sock) vs)) (map (slot sock) vs)"
proof -
  obtain pool where pool: "server_spawnWorkers created (config_getNumberOfThreads config) 0 = Some pool"
    "length pool = config_getNumberOfThreads config"
    using spawnWorkers_all [OF assms(4)] by blast
  let ?st = "\<lparr>sv_socketDescriptors = replicate (set_getLength ports) unused, sv_socketDescriptorCount = 0,
    sv_connectionQueue = [], sv_workerPool = pool, sv_dhCallbacks = []\<rparr>"
  have len: "list_getLength ports = length vs" "set_getLength ports = length vs"
    using list_inv_length [OF assms(2)] by (simp_all add: list_getLength_def set_getLength_def)
  obtain w' where l: "server_listenAll os (length vs) 0 ports (config_getBacklogSize config) ?st w
      = Inr (?st\<lparr>sv_socketDescriptors := map (slot sock) vs, sv_socketDescriptorCount := length (filter (bound sock) vs)\<rparr>, w')"
    using listenAll_slots [OF assms(1,2), of 0 "length vs" ?st w] len by auto
  obtain cs config' where t: "server_setupTLS (config_getServers config) 0 config = Inr (cs, config')"
    using setupTLS_ok [OF assms(3), of 0 "length scs"] list_inv_length [OF assms(3)]
    by (auto simp: config_getServers_def list_getLength_def)
  have "filter (bound sock) vs \<noteq> []" using assms(5) by (simp add: filter_empty_conv)
  then show ?thesis using pool l t len
    by (simp add: server_start_def config_getGlobalConfig_def server_watched_def)
qed

section \<open>Accepting what is pending\<close>

text \<open>
  \<open>pending w\<close> are the connections that wait on a listening socket: socket, address and port of the peer, in the order of
  their arrival. \<^verbatim>\<open>accept\<close> takes the first and fails when there is none; making a socket non-blocking succeeds; nothing else
  takes a pending connection, and \<^verbatim>\<open>recv\<close> returns no more bytes than it was asked for. (New arrivals after the
  first call are left to the next round.) A handshake that has started needs \<open>left\<close> further messages of the peer, and they come.
\<close>

type_synonym peer_t = "int \<times> bytes \<times> nat"

definition accept_laws :: "'w net \<Rightarrow> 'w server_os \<Rightarrow> int \<Rightarrow> ('w \<Rightarrow> peer_t list) \<Rightarrow> bool" where
  "accept_laws net os fd pending \<longleftrightarrow>
     (\<forall>w. case pending w of
            [] \<Rightarrow> fst (so_accept os fd w) = None \<and> pending (snd (so_accept os fd w)) = []
          | (s, a, p) # rest \<Rightarrow> fst (so_accept os fd w) = Some (s, lit a, p) \<and> pending (snd (so_accept os fd w)) = rest)
   \<and> (\<forall>w. \<forall>(s, a, p) \<in> set (pending w). NUL \<notin> set a)
   \<and> (\<forall>s w. fst (so_getfl os s w) \<noteq> -1 \<and> pending (snd (so_getfl os s w)) = pending w)
   \<and> (\<forall>s f w. fst (so_setfl os s f w) \<noteq> -1 \<and> pending (snd (so_setfl os s f w)) = pending w)
   \<and> (\<forall>c. reads_keep net c pending)
   \<and> (\<forall>s n peek w bs w'. net_recv net s n peek w = (Inr bs, w') \<longrightarrow> length bs \<le> n)"

definition handshake_laws :: "'w server_os \<Rightarrow> ('w \<Rightarrow> nat) \<Rightarrow> ('w \<Rightarrow> peer_t list) \<Rightarrow> bool" where
  "handshake_laws os left pending \<longleftrightarrow>
     (\<forall>s w ssl w1. so_SSL_new os s w = (ssl, w1) \<longrightarrow> pending w1 = pending w)
   \<and> (\<forall>ssl w status w1. so_SSL_accept os ssl w = (status, w1) \<longrightarrow> pending w1 = pending w \<and> status \<noteq> 0
       \<and> (status < 0 \<longrightarrow> so_SSL_get_error os ssl status w1 \<noteq> SSL_ERROR_OTHER \<and> left w1 < left w))
   \<and> (\<forall>s out w status w1. so_poll1 os s out w = (status, w1) \<longrightarrow> \<not> status < -1 \<and> pending w1 = pending w \<and> left w1 = left w)"

lemma accept_lawsD:
  assumes "accept_laws net os fd pending"
  shows "pending w = [] \<Longrightarrow> \<exists>w'. so_accept os fd w = (None, w') \<and> pending w' = []"
    and "pending w = (s, a, p) # rest \<Longrightarrow> NUL \<notin> set a \<and> (\<exists>w'. so_accept os fd w = (Some (s, lit a, p), w') \<and> pending w' = rest)"
    and "reads_keep net c pending"
    and "net_recv net t n peek w = (Inr bs, w') \<Longrightarrow> length bs \<le> n"
    and "fst (so_getfl os t w) \<noteq> -1 \<and> pending (snd (so_getfl os t w)) = pending w"
    and "fst (so_setfl os t f w) \<noteq> -1 \<and> pending (snd (so_setfl os t f w)) = pending w"
proof -
  have *: "case pending w of
            [] \<Rightarrow> fst (so_accept os fd w) = None \<and> pending (snd (so_accept os fd w)) = []
          | (s, a, p) # rest \<Rightarrow> fst (so_accept os fd w) = Some (s, lit a, p) \<and> pending (snd (so_accept os fd w)) = rest"
    and **: "\<forall>(s, a, p) \<in> set (pending w). NUL \<notin> set a"
    using assms unfolding accept_laws_def by blast+
  show "\<exists>w'. so_accept os fd w = (None, w') \<and> pending w' = []" if "pending w = []"
    using * that by (cases "so_accept os fd w") simp
  show "NUL \<notin> set a \<and> (\<exists>w'. so_accept os fd w = (Some (s, lit a, p), w') \<and> pending w' = rest)" if "pending w = (s, a, p) # rest"
    using * ** that by (cases "so_accept os fd w") simp
qed (use assms in \<open>unfold accept_laws_def, blast\<close>)+

lemma handshake_lawsD:
  assumes "handshake_laws os left pending"
  shows "so_SSL_new os s w = (ssl, w1) \<Longrightarrow> pending w1 = pending w"
    and "so_SSL_accept os ssl w = (status, w1) \<Longrightarrow> pending w1 = pending w \<and> status \<noteq> 0
      \<and> (status < 0 \<longrightarrow> so_SSL_get_error os ssl status w1 \<noteq> SSL_ERROR_OTHER \<and> left w1 < left w)"
    and "so_poll1 os s out w = (status, w1) \<Longrightarrow> \<not> status < -1 \<and> pending w1 = pending w \<and> left w1 = left w"
  using assms unfolding handshake_laws_def by blast+

lemma acceptTLS_completes:
  assumes "handshake_laws os left pending"
  shows "\<exists>w'. server_acceptTLS os s ssl w = Some (Inr (Some ssl, w')) \<and> pending w' = pending w"
proof (induction "left w" arbitrary: w rule: less_induct)
  case less
  obtain status w1 where a: "so_SSL_accept os ssl w = (status, w1)" by fastforce
  note law = handshake_lawsD(2) [OF assms a]
  show ?case
  proof (cases "status < 0")
    case True
    obtain out where e: "so_SSL_get_error os ssl status w1 = (if out then SSL_ERROR_WANT_WRITE else SSL_ERROR_WANT_READ)"
      using law True by (metis ssl_error.exhaust)
    obtain st w2 where q: "so_poll1 os s out w1 = (st, w2)" by fastforce
    note law2 = handshake_lawsD(3) [OF assms q]
    then have "\<exists>w'. server_acceptTLS os s ssl w2 = Some (Inr (Some ssl, w')) \<and> pending w' = pending w2"
      using less [of w2] law True by simp
    then show ?thesis using a e q law law2 True by (cases out) (simp_all add: server_acceptTLS.simps [of os s ssl w])
  next
    case False
    then show ?thesis using a law by (simp add: server_acceptTLS.simps [of os s ssl w])
  qed
qed

definition connection_of :: "peer_t \<Rightarrow> connection_t \<Rightarrow> bool" where
  "connection_of peer c \<longleftrightarrow>
     conn_socket c = fst peer \<and> conn_sourceAddress c = Some (str (fst (snd peer))) \<and> conn_sourcePort c = snd (snd peer)"

lemma nonBlocking_ok:
  "accept_laws net os fd pending \<Longrightarrow> \<exists>w'. server_setNonBlocking os s w = (True, w') \<and> pending w' = pending w"
  using accept_lawsD(5) [of net os fd pending s w] accept_lawsD(6) [of net os fd pending s "fst (so_getfl os s w) OR O_NONBLOCK" "snd (so_getfl os s w)"]
  by (simp add: server_setNonBlocking_def split_def)

lemma isSSL_ok:
  assumes "accept_laws net os fd pending" and "conn_sourceAddress c \<noteq> None"
  shows "\<exists>isSSL w'. connection_isSSL net c w = Inr (isSSL, w') \<and> pending w' = pending w"
proof -
  obtain r w' where r: "net_recv net (conn_socket c) 6 True w = (r, w')" by fastforce
  have k: "pending w' = pending w" using r accept_lawsD(3) [OF assms(1), of c] unfolding reads_keep_def by (metis snd_conv)
  show ?thesis
  proof (cases r)
    case (Inl e)
    then have "connection_isSSL net c w = Inr (False, w')"
      using r log_source_ok [OF assms(2), of net] by (simp add: connection_isSSL_def connection_readBytes_def)
    then show ?thesis using k by blast
  next
    case (Inr bs)
    then have "length bs \<le> 6" using r accept_lawsD(4) [OF assms(1)] by blast
    then have "connection_isSSL net c w = Inr (bs \<noteq> [] \<and> (bs @ malloc (6 - length bs)) ! 0 = CHR 0x16 \<and> (bs @ malloc (6 - length bs)) ! 5 = CHR 0x01, w')"
      using r Inr by (cases "bs = []") (simp_all add: connection_isSSL_def connection_readBytes_def fill_buffer_eq load_def malloc_def)
    then show ?thesis using k by blast
  qed
qed

lemma setupConnection_ok:
  assumes "accept_laws net os fd pending" and "handshake_laws os left pending" and "NUL \<notin> set a"
  shows "\<exists>c w'. server_setupConnection net os s (lit a) p w = Inr (Some c, w') \<and> connection_of (s, a, p) c \<and> pending w' = pending w"
proof -
  let ?c = "connection_setSourceAddress (connection_setSourcePort (connection_setSocket connection_create s) p) (Some (str a))"
  have c: "conn_sourceAddress ?c \<noteq> None" "connection_of (s, a, p) ?c" "connection_of (s, a, p) (connection_setSSL ?c ssl)" for ssl
    by (simp_all add: connection_of_def connection_setSourceAddress_def connection_setSourcePort_def connection_setSocket_def connection_setSSL_def)
  obtain w1 where w1: "server_setNonBlocking os s w = (True, w1)" "pending w1 = pending w" using nonBlocking_ok [OF assms(1)] by blast
  let ?w2 = "snd (connection_pollForData net ?c 100 w1)"
  have w2: "pending ?w2 = pending w1" by (rule poll_keeps [OF accept_lawsD(3) [OF assms(1)]])
  obtain isSSL w3 where w3: "connection_isSSL net ?c ?w2 = Inr (isSSL, w3)" "pending w3 = pending ?w2"
    using isSSL_ok [OF assms(1) c(1)] by blast
  obtain ssl w4 where new: "so_SSL_new os (conn_socket ?c) w3 = (ssl, w4)" by fastforce
  note w4 = handshake_lawsD(1) [OF assms(2) new]
  obtain w5 where w5: "server_acceptTLS os (conn_socket ?c) ssl w4 = Some (Inr (Some ssl, w5))" "pending w5 = pending w4"
    using acceptTLS_completes [OF assms(2)] by blast
  have "server_setupConnection net os s (lit a) p w = (if isSSL then Inr (Some (connection_setSSL ?c (Some ssl)), w5) else Inr (Some ?c, w3))"
    unfolding server_setupConnection_def w1(1) by (simp add: fromBuffer_lit assms(3) Let_def w3(1) server_handleSSL_def new w5(1))
  then show ?thesis using w1(2) w2 w3(2) w4 w5(2) c(2,3) by simp
qed

section \<open>Properties\<close>

text \<open>When every port can be bound, a started server watches exactly the listening sockets of its ports, in
  order, and has as many workers as the configuration asks for; when no port can be bound it exits with the fatal code, so
  that it is not restarted.\<close>

theorem server_start_listens:
  assumes "listens os (config_getBacklogSize config) sock" and "list_inv ports vs" and "vs \<noteq> []"
    and "list_inv (cfg_serverConfigs config) scs" and "\<forall>i. created i"
  shows "(list_all (bound sock) vs \<longrightarrow>
        (\<exists>st config' w'. server_start os created (Some config) ports w = Inr (Inr st, Some config', w')
          \<and> length (sv_workerPool st) = config_getNumberOfThreads config
          \<and> server_watched st = map (\<lambda>v. \<lparr>pfd_fd = sock (to_u16 v), pfd_events = True\<rparr>) vs))
    \<and> (list_all (\<lambda>v. \<not> bound sock v) vs \<longrightarrow>
        (\<exists>w'. server_start os created (Some config) ports w = Inr (Inl SERVER_EXIT_FATAL, Some config, w')))"
proof (intro conjI impI)
  assume all: "list_all (bound sock) vs"
  then have "\<exists>v \<in> set vs. bound sock v" using assms(3) by (cases vs) auto
  moreover have "filter (bound sock) vs = vs" "map (slot sock) vs = map (\<lambda>v. \<lparr>pfd_fd = sock (to_u16 v), pfd_events = True\<rparr>) vs"
    using all by (auto simp: list_all_iff slot_def)
  ultimately show "\<exists>st config' w'. server_start os created (Some config) ports w = Inr (Inr st, Some config', w')
          \<and> length (sv_workerPool st) = config_getNumberOfThreads config
          \<and> server_watched st = map (\<lambda>v. \<lparr>pfd_fd = sock (to_u16 v), pfd_events = True\<rparr>) vs"
    using start_watches [OF assms(1,2,4,5), of w] by fastforce
next
  assume none: "list_all (\<lambda>v. \<not> bound sock v) vs"
  obtain pool where pool: "server_spawnWorkers created (config_getNumberOfThreads config) 0 = Some pool"
    using spawnWorkers_all [OF assms(5)] by blast
  have len: "list_getLength ports = length vs" "set_getLength ports = length vs"
    using list_inv_length [OF assms(2)] by (simp_all add: list_getLength_def set_getLength_def)
  have "filter (bound sock) vs = []" using none by (simp add: filter_empty_conv list_all_iff)
  then show "\<exists>w'. server_start os created (Some config) ports w = Inr (Inl SERVER_EXIT_FATAL, Some config, w')"
    using listenAll_slots [OF assms(1,2), of 0 "length vs" "\<lparr>sv_socketDescriptors = replicate (length vs) unused,
        sv_socketDescriptorCount = 0, sv_connectionQueue = [], sv_workerPool = pool, sv_dhCallbacks = []\<rparr>" w] pool len
    by (auto simp: server_start_def config_getGlobalConfig_def)
qed




text \<open>During a TLS handshake the name the client indicates selects the certificate: the callback answers with the context of
  the first server of that domain that has one, and refuses the name when there is none or when no name was sent.\<close>

theorem server_name_selects_certificate:
  assumes "list_inv (cfg_serverConfigs config) scs" and "\<forall>sc \<in> set scs. has_domain sc" and "NUL \<notin> set name"
  shows "server_handleServerNameIdentification (Some config) None = Inr (SSL_TLSEXT_ERR_NOACK, Some config)
    \<and> (\<exists>config'. list_inv (cfg_serverConfigs config') scs \<and> server_handleServerNameIdentification (Some config) (Some (lit name))
      = Inr (case find (\<lambda>sc. domain_text sc = name \<and> sc_sslContext sc \<noteq> None) scs of
               None \<Rightarrow> SSL_TLSEXT_ERR_NOACK
             | Some sc \<Rightarrow> SSL_TLSEXT_ERR_OK (the (sc_sslContext sc)), Some config'))"
proof -
  have "key_ok (str name)" "key_text (str name) = name" using assms(3) by simp_all
  then obtain config' where l: "config_getServerConfigByHTTPSDomain config (str name)
      = Inr (find (\<lambda>sc. domain_text sc = name \<and> sc_sslContext sc \<noteq> None) scs, config')" "list_inv (cfg_serverConfigs config') scs"
    using config_lookups(2) [OF assms(1,2), of "str name"] by auto
  have "sc_sslContext sc \<noteq> None" if "find (\<lambda>sc. domain_text sc = name \<and> sc_sslContext sc \<noteq> None) scs = Some sc" for sc
    using that by (auto simp: find_Some_iff)
  then show ?thesis
    using l assms(3)
    by (intro conjI exI [of _ config'])
      (auto simp: server_handleServerNameIdentification_def config_getGlobalConfig_def config_getSSLContext_def fromBuffer_lit split: option.split)
qed

text \<open>A TLS peer that ends the handshake in an orderly way (\<^verbatim>\<open>SSL_accept\<close> returning 0) makes the server use a released TLS
  connection: the loop does not leave after releasing it.\<close>

theorem server_handshake_use_after_free:
  assumes "fst (so_SSL_accept os ssl w) = 0"
  shows "server_acceptTLS os s ssl w = Some (Inl DanglingPointer)"
  using assms by (cases "so_SSL_accept os ssl w") (simp add: server_acceptTLS.simps [of os s ssl w])

section \<open>Witnesses\<close>

text \<open>
  A system on which port 80 cannot be bound and two peers are pending, one of which speaks TLS. Its state counts
  the connections accepted.
\<close>

definition lobby :: "nat \<Rightarrow> peer_t list" where
  "lobby w = drop w [(4, ''10.0.0.1'', 5000), (5, ''10.0.0.2'', 5001)]"

definition lobby_os :: "nat server_os" where
  "lobby_os =
     \<lparr>so_getfl = (\<lambda>s w. (0, w)), so_setfl = (\<lambda>s f w. (0, w)), so_socket = (\<lambda>w. (3, w)), so_setsockopt = (\<lambda>s w. (0, w)),
      so_bind = (\<lambda>s p w. (if p = 80 then -1 else 0, w)), so_listen = (\<lambda>s b w. (0, w)),
      so_poll = (\<lambda>ds w. ((1, map (\<lambda>_. True) ds), w)), so_poll1 = (\<lambda>s out w. (1, w)),
      so_accept = (\<lambda>s w. case lobby w of [] \<Rightarrow> (None, w) | (s, a, p) # rest \<Rightarrow> (Some (s, lit a, p), Suc w)),
      so_shutdown = (\<lambda>s w. w), so_close = (\<lambda>s w. w), so_fork = (\<lambda>w. (0, w)), so_SSL_new = (\<lambda>s w. (7, w)),
      so_SSL_accept = (\<lambda>ssl w. (1, w)), so_SSL_get_error = (\<lambda>ssl st w. SSL_ERROR_OTHER), so_SSL_free = (\<lambda>ssl w. w)\<rparr>"

definition lobby_net :: "nat net" where
  "lobby_net =
     \<lparr>net_poll = (\<lambda>s t w. (1, w)), net_fionread = (\<lambda>s w. (Inr 6, w)),
      net_recv = (\<lambda>s n peek w. (Inr (take n (if s = 4 then [CHR 0x16, CHR 0x03, CHR 0x01, NUL, CHR 0x09, CHR 0x01] else ''GET / '')), w)),
      net_send = (\<lambda>s bs w. (Inr (length bs), w)), net_shutdown = (\<lambda>s w. (None, w)), net_close = (\<lambda>s w. (None, w)),
      net_SSL_pending = (\<lambda>ssl w. 0), net_SSL_peek_ex = (\<lambda>ssl n w. (None, w)), net_SSL_read_ex = (\<lambda>ssl n w. (None, w)),
      net_SSL_write_ex = (\<lambda>ssl bs w. ((1, length bs), w)), net_SSL_free = (\<lambda>ssl w. w), net_LOGGING_LEVEL = 5\<rparr>"

lemma lobby_laws:
  "accept_laws lobby_net lobby_os 3 lobby" "handshake_laws lobby_os (\<lambda>_. 0) lobby"
  "listens lobby_os backlog (\<lambda>p. if p = 80 then 0 else 3)"
proof -
  have "case lobby w of
          [] \<Rightarrow> fst (so_accept lobby_os 3 w) = None \<and> lobby (snd (so_accept lobby_os 3 w)) = []
        | (s, a, p) # rest \<Rightarrow> fst (so_accept lobby_os 3 w) = Some (s, lit a, p) \<and> lobby (snd (so_accept lobby_os 3 w)) = rest" for w
    by (cases w rule: nat.exhaust; cases "w - 1") (auto simp: lobby_os_def lobby_def)
  moreover have "\<forall>(s, a, p) \<in> set (lobby w). NUL \<notin> set a" for w
    by (cases w rule: nat.exhaust; cases "w - 1") (auto simp: lobby_def)
  ultimately show "accept_laws lobby_net lobby_os 3 lobby"
    unfolding accept_laws_def by (auto simp: lobby_os_def lobby_net_def reads_keep_def)
  show "handshake_laws lobby_os (\<lambda>_. 0) lobby" by (simp add: handshake_laws_def lobby_os_def)
  show "listens lobby_os backlog (\<lambda>p. if p = 80 then 0 else 3)"
    by (simp add: listens_def server_listen_def lobby_os_def server_setNonBlocking_def)
qed


definition lobby_config :: "server_config_t list_t \<Rightarrow> config_t" where
  "lobby_config l = \<lparr>cfg_daemon = 0, cfg_serverConfigs = l, cfg_logfile = None, cfg_loggingLevel = 0, cfg_threads = 2, cfg_backlog = 10\<rparr>"

definition lobby_server :: server_config_t where
  "lobby_server = tiny_server\<lparr>sc_sslContext := Some \<lparr>ctx_address = 1, ctx_privateKey = ''k'', ctx_certificate = ''c'',
     ctx_min_proto_version = ''TLS1.2'', ctx_curves_list = [], ctx_verify_none = True, ctx_cipher_list = [], ctx_ciphersuites = None\<rparr>\<rparr>"

lemma some_list: "\<exists>l. list_inv l [v]" "\<exists>l. list_inv l [u, v]"
proof -
  obtain l where l: "list_inv l [u]" using inv_add [OF inv_create, of u] by auto
  then show "\<exists>l. list_inv l [u, v]" using inv_add [OF l, of v] by auto
  show "\<exists>l. list_inv l [v]" using inv_add [OF inv_create, of v] by auto
qed

lemma lobby_list: "\<exists>l. list_inv (cfg_serverConfigs (lobby_config l)) [lobby_server]"
  using some_list(1) by (simp add: lobby_config_def)

lemma lobby_server_facts: "has_domain lobby_server" "domain_text lobby_server = ''x''" "sc_sslContext lobby_server \<noteq> None"
  by (simp_all add: lobby_server_def tiny_server_def has_domain_def domain_text_def)

theorem server_name_selects_certificate_witness:
  "\<exists>l config'. server_handleServerNameIdentification (Some (lobby_config l)) (Some (lit ''x''))
    = Inr (SSL_TLSEXT_ERR_OK (the (sc_sslContext lobby_server)), Some config')"
proof -
  obtain l where l: "list_inv (cfg_serverConfigs (lobby_config l)) [lobby_server]" using lobby_list by blast
  show ?thesis
    using server_name_selects_certificate [OF l, of "''x''"] lobby_server_facts by auto
qed

theorem server_handshake_use_after_free_witness:
  "server_acceptTLS (lobby_os\<lparr>so_SSL_accept := \<lambda>ssl w. (0, w)\<rparr>) 4 7 0 = Some (Inl DanglingPointer)"
  by (rule server_handshake_use_after_free) simp

theorem server_start_listens_witness:
  "\<exists>l ports st config' w'. server_start lobby_os (\<lambda>_. True) (Some (lobby_config l)) ports 0 = Inr (Inr st, Some config', w')
    \<and> length (sv_workerPool st) = 2 \<and> server_watched st = [\<lparr>pfd_fd = 3, pfd_events = True\<rparr>]"
proof -
  obtain l ports where l: "list_inv (cfg_serverConfigs (lobby_config l)) [lobby_server]" "list_inv ports [8080 :: int]"
    using lobby_list some_list(1) [of "8080 :: int"] by auto
  show ?thesis
    using server_start_listens [OF lobby_laws(3) l(2) _ l(1), of "\<lambda>_. True" 0]
    by (intro exI [of _ l] exI [of _ ports]) (auto simp: bound_def to_u16_def lobby_config_def config_getNumberOfThreads_def)
qed


end
