(* ===== verification/Time.thy ===== *)
theory Time
  imports Prelude
begin

text \<open>
  The clock arithmetic of \<^verbatim>\<open>src/time/time.c\<close>. \<^verbatim>\<open>uint64_t\<close> is a 64-bit word, the signed fields of
  \<^verbatim>\<open>struct timespec\<close> are integers whose 64-bit arithmetic is checked for overflow. The monotonic
  clock the code reads is an argument of the operations, and an out-parameter that may be null is an
  \<open>option\<close>: \<open>Some old\<close> is a pointer to a variable that holds \<open>old\<close>.
\<close>

section \<open>Data\<close>

record timespec =
  tv_sec :: int
  tv_nsec :: int

text \<open>Signed 64-bit results; leaving the range is undefined behaviour.\<close>

definition s64 :: "int \<Rightarrow> int exec" where
  "s64 i = (if - (2 ^ 63) \<le> i \<and> i < 2 ^ 63 then Inr i else Inl IntegerOverflow)"

definition DAY_IN_SECONDS :: "64 word" where "DAY_IN_SECONDS = 86400"
definition HOUR_IN_SECONDS :: "64 word" where "HOUR_IN_SECONDS = 3600"
definition MINUTE_IN_SECONDS :: "64 word" where "MINUTE_IN_SECONDS = 60"
definition HOURS_IN_DAY :: "64 word" where "HOURS_IN_DAY = 24"
definition MINUTES_IN_HOUR :: "64 word" where "MINUTES_IN_HOUR = 60"
definition SECONDS_IN_MINUTE :: "64 word" where "SECONDS_IN_MINUTE = 60"

lemmas time_units = DAY_IN_SECONDS_def HOUR_IN_SECONDS_def MINUTE_IN_SECONDS_def HOURS_IN_DAY_def
  MINUTES_IN_HOUR_def SECONDS_IN_MINUTE_def

text \<open>Assigning through a pointer that may be null.\<close>

definition set_out :: "64 word option \<Rightarrow> 64 word \<Rightarrow> 64 word option" where
  "set_out p v = (case p of None \<Rightarrow> None | Some old \<Rightarrow> Some v)"

section \<open>Operations\<close>

definition time_getTimeSinceStartOfEpoch :: "timespec \<Rightarrow> timespec" where
  "time_getTimeSinceStartOfEpoch clock = \<lparr>tv_sec = tv_sec clock, tv_nsec = tv_nsec clock\<rparr>"

text \<open>The result is the new value of the static variable \<^verbatim>\<open>time_start\<close>.\<close>

definition time_reset :: "timespec \<Rightarrow> timespec" where
  "time_reset clock = time_getTimeSinceStartOfEpoch clock"

record time_parts =
  formattedNanoseconds :: "64 word option"
  formattedMilliseconds :: "64 word option"
  formattedSeconds :: "64 word option"
  formattedMinutes :: "64 word option"
  formattedHours :: "64 word option"
  formattedDays :: "64 word option"

definition time_getFormattedElapsedTime :: "64 word \<Rightarrow> 64 word \<Rightarrow> time_parts \<Rightarrow> time_parts" where
  "time_getFormattedElapsedTime nanoseconds seconds out =
     \<lparr>formattedNanoseconds = set_out (formattedNanoseconds out) ((nanoseconds div 10000) mod 100),
      formattedMilliseconds = set_out (formattedMilliseconds out) ((nanoseconds div 1000000) mod 1000),
      formattedSeconds = set_out (formattedSeconds out) (seconds mod SECONDS_IN_MINUTE),
      formattedMinutes = set_out (formattedMinutes out) ((seconds div MINUTE_IN_SECONDS) mod MINUTES_IN_HOUR),
      formattedHours = set_out (formattedHours out) ((seconds div HOUR_IN_SECONDS) mod HOURS_IN_DAY),
      formattedDays = set_out (formattedDays out) (seconds div DAY_IN_SECONDS)\<rparr>"

text \<open>\<open>now.tv_nsec + now.tv_sec * 1000000000\<close> in signed 64-bit arithmetic.\<close>

definition timespec_ns :: "timespec \<Rightarrow> int exec" where
  "timespec_ns t = bnd (s64 (tv_sec t * 1000000000)) (\<lambda>s. s64 (tv_nsec t + s))"

definition time_getTimeSinceStart ::
  "timespec \<Rightarrow> timespec \<Rightarrow> 64 word option \<Rightarrow> 64 word option \<Rightarrow> (bool \<times> 64 word option \<times> 64 word option) exec" where
  "time_getTimeSinceStart clock time_start nanoseconds seconds =
     (let now = time_getTimeSinceStartOfEpoch clock in
      if nanoseconds = None \<and> seconds \<noteq> None then
        bnd (s64 (tv_sec now - tv_sec time_start)) (\<lambda>s.
          Inr (True, nanoseconds, set_out seconds (word_of_int s)))
      else if nanoseconds \<noteq> None \<and> seconds = None then
        bnd (timespec_ns now) (\<lambda>a. bnd (timespec_ns time_start) (\<lambda>b. bnd (s64 (a - b)) (\<lambda>d.
          Inr (True, set_out nanoseconds (word_of_int d), seconds))))
      else if nanoseconds \<noteq> None \<and> seconds \<noteq> None then
        bnd (s64 (tv_nsec now - tv_nsec time_start)) (\<lambda>n.
        bnd (s64 (tv_sec now - tv_sec time_start)) (\<lambda>s.
          Inr (True, set_out nanoseconds (word_of_int n), set_out seconds (word_of_int s))))
      else Inr (False, nanoseconds, seconds))"

definition time_getElapsedTime :: "timespec \<Rightarrow> timespec \<Rightarrow> 64 word exec" where
  "time_getElapsedTime clock ts =
     (let start = time_getTimeSinceStartOfEpoch clock in
      bnd (timespec_ns start) (\<lambda>startNanoSeconds.
      bnd (timespec_ns ts) (\<lambda>nowNanoSeconds.
        Inr (word_of_int nowNanoSeconds - word_of_int startNanoSeconds))))"

section \<open>Elapsed time\<close>

text \<open>A reading of the clock: a fraction below a second and fewer than \<open>2\<^sup>33\<close> seconds.\<close>

definition clock_ok :: "timespec \<Rightarrow> bool" where
  "clock_ok t \<longleftrightarrow> 0 \<le> tv_sec t \<and> tv_sec t < 2 ^ 33 \<and> 0 \<le> tv_nsec t \<and> tv_nsec t < 1000000000"

definition ns_of :: "timespec \<Rightarrow> int" where
  "ns_of t = tv_sec t * 1000000000 + tv_nsec t"

lemma s64_id: "- (2 ^ 63) \<le> i \<Longrightarrow> i < 2 ^ 63 \<Longrightarrow> s64 i = Inr i"
  by (simp add: s64_def)

lemma clock_simps [simp]: "time_getTimeSinceStartOfEpoch t = t"
  by (simp add: time_getTimeSinceStartOfEpoch_def)

lemma ns_of_bounds: "clock_ok t \<Longrightarrow> 0 \<le> ns_of t \<and> ns_of t < 2 ^ 63"
  unfolding clock_ok_def ns_of_def by (auto intro: order_less_trans [of _ "8589934592 * 1000000000"])

lemma timespec_ns_ok [simp]: "clock_ok t \<Longrightarrow> timespec_ns t = Inr (ns_of t)"
  using ns_of_bounds [of t] by (auto simp: timespec_ns_def s64_id clock_ok_def ns_of_def add.commute)

lemma radix3:
  fixes s :: nat
  assumes "c * k + p = b" and "b * l + q = a" and "a * m + r = s"
  shows "c * (k * l * m) + p * (l * m) + q * m + r = s"
  using assms by (auto simp: algebra_simps)

lemma mixed_radix: "(s :: nat) div 86400 * 86400 + s div 3600 mod 24 * 3600 + s div 60 mod 60 * 60 + s mod 60 = s"
proof -
  have "s div 3600 = s div 60 div 60" and "s div 86400 = s div 60 div 60 div 24"
    by (simp_all add: div_mult2_eq [symmetric])
  then show ?thesis
    using radix3 [OF div_mult_mod_eq [of "s div 60 div 60" 24] div_mult_mod_eq [of "s div 60" 60] div_mult_mod_eq [of s 60]]
    by simp
qed

lemma wrap_below_zero:
  assumes "- (2 ^ 63) < i" and "i < 0"
  shows "unat (word_of_int i :: 64 word) = 2 ^ 64 - nat (- i)"
proof -
  have "i mod 2 ^ 64 = (i + 2 ^ 64) mod 2 ^ 64" by simp
  also have "\<dots> = i + 2 ^ 64" using assms by (intro mod_pos_pos_trivial) simp_all
  finally show ?thesis using assms
    by (simp add: unat_eq_nat_uint uint_word_of_int nat_diff_distrib nat_add_distrib [symmetric] del: nat_add_distrib)
qed

lemma nano_radix:
  "(n :: nat) mod 1000000000 = n div 1000000 mod 1000 * 1000000 + n div 10000 mod 100 * 10000 + n mod 10000"
proof -
  have "n div 1000000 = n div 10000 div 100" and "n div 1000000000 = n div 1000000 div 1000"
    by (simp_all add: div_mult2_eq [symmetric])
  with radix3 [OF div_mult_mod_eq [of "n div 10000 div 100" 1000] div_mult_mod_eq [of "n div 10000" 100] div_mult_mod_eq [of n 10000]]
  have "n div 1000000000 * 1000000000 + (n div 1000000 mod 1000 * 1000000 + n div 10000 mod 100 * 10000 + n mod 10000) = n"
    by simp
  with div_mult_mod_eq [of n 1000000000] show ?thesis by (metis add_left_cancel)
qed

section \<open>Properties\<close>

text \<open>Formatting an elapsed time splits the seconds into days, hours, minutes and seconds that are in
  range and add up to the seconds again, whatever 64-bit number they are; milliseconds and the two
  digits below them are in range too. Parts whose pointer is null are left out.\<close>

theorem time_format_recomposes:
  fixes ns s :: "64 word"
  shows "\<exists>n ms ss mm hh. time_getFormattedElapsedTime ns s
      \<lparr>formattedNanoseconds = Some a, formattedMilliseconds = Some b, formattedSeconds = Some c,
       formattedMinutes = Some d, formattedHours = Some e, formattedDays = q\<rparr> =
      \<lparr>formattedNanoseconds = Some n, formattedMilliseconds = Some ms, formattedSeconds = Some ss,
       formattedMinutes = Some mm, formattedHours = Some hh, formattedDays = set_out q (s div 86400)\<rparr>
    \<and> unat n < 100 \<and> unat ms < 1000 \<and> unat ss < 60 \<and> unat mm < 60 \<and> unat hh < 24
    \<and> unat (s div 86400) * 86400 + unat hh * 3600 + unat mm * 60 + unat ss = unat s
    \<and> unat ns mod 10 ^ 9 = unat ms * 10 ^ 6 + unat n * 10 ^ 4 + unat ns mod 10 ^ 4"
proof -
  have "unat (s div 86400) * 86400 + unat (s div 3600 mod 24) * 3600 + unat (s div 60 mod 60) * 60 + unat (s mod 60)
      = unat s"
    using mixed_radix [of "unat s"] by (simp add: unat_mod unat_div)
  moreover have "unat ns mod 10 ^ 9 = unat (ns div 1000000 mod 1000) * 10 ^ 6 + unat (ns div 10000 mod 100) * 10 ^ 4
      + unat ns mod 10 ^ 4"
    using nano_radix [of "unat ns"] by (simp add: unat_mod unat_div)
  moreover have "unat (ns div 10000 mod 100) < 100" "unat (ns div 1000000 mod 1000) < 1000" "unat (s mod 60) < 60"
    "unat (s div 60 mod 60) < 60" "unat (s div 3600 mod 24) < 24"
    by (simp_all add: unat_mod)
  ultimately show ?thesis
    by (simp add: time_getFormattedElapsedTime_def set_out_def time_units)
qed

text \<open>The time since the start is exact in every form: the seconds are the difference of the second
  counters, the nanoseconds alone are the elapsed nanoseconds, and the pair taken together is congruent
  to the elapsed nanoseconds modulo \<open>2\<^sup>64\<close>; without any pointer nothing is returned. When the fraction
  of the clock is below the one of the start, though, the nanoseconds of the pair are not below a second
  but wrap to almost \<open>2\<^sup>64\<close>.\<close>

theorem time_since_start:
  assumes "clock_ok now" and "clock_ok start" and "ns_of start \<le> ns_of now"
  shows "time_getTimeSinceStart now start None (Some s) = Inr (True, None, Some (word_of_int (tv_sec now - tv_sec start)))
    \<and> time_getTimeSinceStart now start (Some n) None = Inr (True, Some (word_of_int (ns_of now - ns_of start)), None)
    \<and> (\<exists>n' s'. time_getTimeSinceStart now start (Some n) (Some s) = Inr (True, Some n', Some s')
         \<and> s' * 1000000000 + n' = word_of_int (ns_of now - ns_of start)
         \<and> (tv_nsec now < tv_nsec start \<longrightarrow> 2 ^ 64 - 1000000000 < unat n'))
    \<and> time_getTimeSinceStart now start None None = Inr (False, None, None)"
proof -
  have b: "s64 (tv_sec now - tv_sec start) = Inr (tv_sec now - tv_sec start)"
    "s64 (tv_nsec now - tv_nsec start) = Inr (tv_nsec now - tv_nsec start)"
    "s64 (ns_of now - ns_of start) = Inr (ns_of now - ns_of start)"
    using assms ns_of_bounds [OF assms(1)] ns_of_bounds [OF assms(2)] by (auto simp: s64_def clock_ok_def)
  have "word_of_int (tv_sec now - tv_sec start) * 1000000000 + word_of_int (tv_nsec now - tv_nsec start)
      = (word_of_int (ns_of now - ns_of start) :: 64 word)"
    by (simp add: ns_of_def algebra_simps)
  moreover have "2 ^ 64 - 1000000000 < unat (word_of_int (tv_nsec now - tv_nsec start) :: 64 word)"
    if "tv_nsec now < tv_nsec start"
    using wrap_below_zero [of "tv_nsec now - tv_nsec start"] that assms by (auto simp: clock_ok_def)
  ultimately show ?thesis using assms(1,2) b
    by (simp add: time_getTimeSinceStart_def Let_def set_out_def)
qed

theorem time_since_start_witness:
  "\<exists>n s. time_getTimeSinceStart \<lparr>tv_sec = 5, tv_nsec = 1\<rparr> \<lparr>tv_sec = 3, tv_nsec = 2\<rparr> (Some 0) (Some 0)
      = Inr (True, Some n, Some s) \<and> 2 ^ 64 - 1000000000 < unat n"
  using time_since_start [of "\<lparr>tv_sec = 5, tv_nsec = 1\<rparr>" "\<lparr>tv_sec = 3, tv_nsec = 2\<rparr>" 0 0]
  by (auto simp: clock_ok_def ns_of_def)

text \<open>\<^verbatim>\<open>time_getElapsedTime\<close> subtracts the current time from the given one: for a moment that lies
  \<open>d > 0\<close> nanoseconds in the past it returns \<open>2\<^sup>64 - d\<close> instead of \<open>d\<close>.\<close>

theorem time_elapsed_negated:
  assumes "clock_ok now" and "clock_ok past" and "ns_of past < ns_of now"
  shows "\<exists>r. time_getElapsedTime now past = Inr r \<and> unat r = 2 ^ 64 - nat (ns_of now - ns_of past)"
proof -
  have "(word_of_int (ns_of past) - word_of_int (ns_of now) :: 64 word) = word_of_int (ns_of past - ns_of now)" by simp
  moreover have "unat (word_of_int (ns_of past - ns_of now) :: 64 word) = 2 ^ 64 - nat (ns_of now - ns_of past)"
    using wrap_below_zero [of "ns_of past - ns_of now"] assms ns_of_bounds [OF assms(1)] ns_of_bounds [OF assms(2)]
    by simp
  ultimately show ?thesis using assms by (simp add: time_getElapsedTime_def Let_def)
qed

theorem time_elapsed_negated_witness:
  "\<exists>r. time_getElapsedTime \<lparr>tv_sec = 5, tv_nsec = 1\<rparr> \<lparr>tv_sec = 5, tv_nsec = 0\<rparr> = Inr r \<and> unat r = 2 ^ 64 - 1"
  using time_elapsed_negated [of "\<lparr>tv_sec = 5, tv_nsec = 1\<rparr>" "\<lparr>tv_sec = 5, tv_nsec = 0\<rparr>"]
  by (simp add: clock_ok_def ns_of_def)

end
