(* ===== verification/Logging.thy ===== *)
theory Logging
  imports Http Time
begin

text \<open>
  Logging (\<^verbatim>\<open>src/logging/logging.c\<close> and the macros of \<^verbatim>\<open>logging.h\<close>): where a message goes, the text around it,
  and the line in Common Log Format that is written for every answered request. Local time and the name of the time zone
  come from the C library; what is written is returned as a list of outputs.
\<close>

unbundle bit_operations_syntax

section \<open>State\<close>

datatype sink = Stderr | Stdout | Syslog nat | Logfile string

record logging_t =
  LOGGING_OUTPUT :: "8 word"
  LOGGING_LEVEL :: nat
  LOGGING_OUTPUT_FILE :: "string option"

definition LOGGING_CONSOLE :: "8 word" where "LOGGING_CONSOLE = 1"
definition LOGGING_SYSLOG :: "8 word" where "LOGGING_SYSLOG = 2"

definition LOG_LABEL :: "nat \<Rightarrow> string" where
  "LOG_LABEL level = [''EMERGENCY'', ''ALERT'', ''CRITICAL'', ''ERROR'', ''WARNING'', ''NOTICE'', ''INFO'', ''DEBUG''] ! level"

definition LOG_COLOR :: "nat \<Rightarrow> nat" where
  "LOG_COLOR level = [31, 31, 31, 31, 33, 32, 32, 34] ! level"

definition logging_initial :: logging_t where
  "logging_initial = \<lparr>LOGGING_OUTPUT = LOGGING_CONSOLE, LOGGING_LEVEL = LOG_NOTICE, LOGGING_OUTPUT_FILE = None\<rparr>"

text \<open>\<open>mutexCreated\<close> tells whether \<^verbatim>\<open>pthread_mutex_init\<close> succeeds, \<open>opens\<close> which files can be opened for appending.\<close>

definition logging_start :: "bool \<Rightarrow> bool" where
  "logging_start mutexCreated = (if \<not> mutexCreated then False else True)"

definition logging_openOutputFile :: "(string \<Rightarrow> bool) \<Rightarrow> string \<Rightarrow> logging_t \<Rightarrow> bool \<times> logging_t" where
  "logging_openOutputFile opens filePath st =
     (let st1 = st\<lparr>LOGGING_OUTPUT_FILE := if opens filePath then Some filePath else None\<rparr>
      in (LOGGING_OUTPUT_FILE st1 \<noteq> None, st1))"

text \<open>\<open>closed\<close> is what \<^verbatim>\<open>fclose\<close> returns; \<^verbatim>\<open>EOF\<close> is \<open>-1\<close>.\<close>

definition logging_stop :: "int \<Rightarrow> logging_t \<Rightarrow> int" where
  "logging_stop closed st = (case LOGGING_OUTPUT_FILE st of None \<Rightarrow> -1 | Some path \<Rightarrow> closed)"

section \<open>The text of a message\<close>

record tm =
  tm_sec :: nat
  tm_min :: nat
  tm_hour :: nat
  tm_mday :: nat
  tm_mon :: nat
  tm_year :: nat
  tm_zone :: string

text \<open>The conversions \<^verbatim>\<open>%02d\<close> and \<^verbatim>\<open>%04d\<close>.\<close>

definition dec_padded :: "nat \<Rightarrow> nat \<Rightarrow> string" where
  "dec_padded width n = replicate (width - length (dec n)) (CHR ''0'') @ dec n"

definition ESC :: string where "ESC = [CHR 0x1B, CHR ''['']"

definition show_unit :: "64 word option \<Rightarrow> string \<Rightarrow> string" where
  "show_unit v unit = (case v of None \<Rightarrow> [] | Some x \<Rightarrow> if x \<noteq> 0 then dec (unat x) @ unit else [])"

text \<open>
  \<open>zones\<close> are the two entries of \<^verbatim>\<open>tzname\<close>, the second of which may be null; \<open>elapsed\<close> are the seconds and
  nanoseconds since the start, \<open>message\<close> is the text that \<^verbatim>\<open>vfprintf\<close> prints for the format and its arguments. The arm
  before the message consists of the characters U+2514, U+2500, U+2500 in UTF-8.
\<close>

definition logging_logToFile ::
  "tm \<Rightarrow> string \<times> string option \<Rightarrow> 64 word \<times> 64 word \<Rightarrow> string \<Rightarrow> nat \<Rightarrow> string \<Rightarrow> nat \<Rightarrow> string \<Rightarrow> string \<Rightarrow> string" where
  "logging_logToFile timeInfo zones elapsed label color sourceFile line function_name message =
     (let parts = time_getFormattedElapsedTime (snd elapsed) (fst elapsed)
            \<lparr>formattedNanoseconds = Some 0, formattedMilliseconds = Some 0, formattedSeconds = Some 0,
             formattedMinutes = Some 0, formattedHours = Some 0, formattedDays = Some 0\<rparr>
      in ESC @ ''90m['' @ dec_padded 2 (tm_mday timeInfo) @ ''/'' @ dec_padded 2 (tm_mon timeInfo + 1) @ ''/''
         @ dec_padded 4 (tm_year timeInfo + 1900) @ '' '' @ dec_padded 2 (tm_hour timeInfo) @ '':'' @ dec_padded 2 (tm_min timeInfo)
         @ '':'' @ dec_padded 2 (tm_sec timeInfo) @ '' '' @ (case snd zones of None \<Rightarrow> fst zones | Some z \<Rightarrow> z) @ '']['' 
         @ show_unit (formattedDays parts) ''d '' @ show_unit (formattedHours parts) ''h ''
         @ show_unit (formattedMinutes parts) ''m '' @ show_unit (formattedSeconds parts) ''s ''
         @ (case formattedMilliseconds parts of None \<Rightarrow> [] | Some v \<Rightarrow> dec (unat v)) @ ''.''
         @ (case formattedNanoseconds parts of None \<Rightarrow> [] | Some v \<Rightarrow> dec (unat v)) @ ''ms]['' @ ESC @ dec color @ ''m'' @ label
         @ ESC @ ''90m]['' @ sourceFile @ ''@'' @ dec line @ '']['' @ function_name @ '']'' @ [LF] @ ''    ''
         @ [CHR 0xE2, CHR 0x94, CHR 0x94, CHR 0xE2, CHR 0x94, CHR 0x80, CHR 0xE2, CHR 0x94, CHR 0x80] @ ESC @ ''0m ''
         @ message @ [LF])"

section \<open>Where a message goes\<close>

text \<open>The macro \<^verbatim>\<open>log\<close>: \<open>decorate\<close> is \<^verbatim>\<open>logging_logToFile\<close> at the place of the call.\<close>

definition log_message :: "logging_t \<Rightarrow> nat \<Rightarrow> (string \<Rightarrow> nat \<Rightarrow> string \<Rightarrow> string) \<Rightarrow> string \<Rightarrow> (sink \<times> string) list" where
  "log_message st level decorate message =
     (if level > LOGGING_LEVEL st then []
      else
        (if LOGGING_OUTPUT st AND LOGGING_CONSOLE > 0 then [(Stderr, decorate (LOG_LABEL level) (LOG_COLOR level) message)] else [])
        @ (if LOGGING_OUTPUT st AND LOGGING_SYSLOG > 0 then [(Syslog level, message)] else [])
        @ (case LOGGING_OUTPUT_FILE st of
             None \<Rightarrow> []
           | Some path \<Rightarrow> [(Logfile path, decorate (LOG_LABEL level) (LOG_COLOR level) message)]))"

definition logRaw :: "logging_t \<Rightarrow> nat \<Rightarrow> string \<Rightarrow> (sink \<times> string) list" where
  "logRaw st level message =
     (if level > LOGGING_LEVEL st then []
      else
        (if LOGGING_OUTPUT st AND LOGGING_CONSOLE > 0 then [(Stdout, message @ [LF])] else [])
        @ (if LOGGING_OUTPUT st AND LOGGING_SYSLOG > 0 then [(Syslog level, message)] else [])
        @ (case LOGGING_OUTPUT_FILE st of None \<Rightarrow> [] | Some path \<Rightarrow> [(Logfile path, message @ [LF])]))"

section \<open>The log of requests\<close>

text \<open>\<^verbatim>\<open>strftime\<close> in the C locale. It writes the text and its terminator only if both fit.\<close>

definition clf_time :: "tm \<Rightarrow> string" where
  "clf_time t = ''['' @ dec_padded 2 (tm_mday t) @ ''/''
     @ ([''Jan'', ''Feb'', ''Mar'', ''Apr'', ''May'', ''Jun'', ''Jul'', ''Aug'', ''Sep'', ''Oct'', ''Nov'', ''Dec''] ! tm_mon t)
     @ ''/'' @ dec (tm_year t + 1900) @ '':'' @ dec_padded 2 (tm_hour t) @ '':'' @ dec_padded 2 (tm_min t) @ '':''
     @ dec_padded 2 (tm_sec t) @ '' '' @ tm_zone t @ '']''"

definition strftime :: "nat \<Rightarrow> string \<Rightarrow> bytes exec" where
  "strftime maxsize s = (if length s + 1 \<le> maxsize then Inr (lit s) else Inl OutOfBounds)"

text \<open>A conversion \<^verbatim>\<open>%s\<close> of a string that may be absent.\<close>

definition printed_or_dash :: "string_t option \<Rightarrow> string exec" where
  "printed_or_dash s =
     (case s of
        None \<Rightarrow> Inr ''-''
      | Some t \<Rightarrow> bnd (deref (string_getBuffer t)) (\<lambda>b. bnd (strlen b) (\<lambda>_. Inr (cstr b))))"

definition logging_request ::
  "logging_t \<Rightarrow> tm \<Rightarrow> string_t option \<Rightarrow> httpMethod \<Rightarrow> string_t option \<Rightarrow> string_t option \<Rightarrow> nat \<Rightarrow> nat
    \<Rightarrow> (sink \<times> string) list exec" where
  "logging_request st timeInfo remoteHost method path version responseCode bytesSent =
     bnd (strftime 29 (clf_time timeInfo)) (\<lambda>timeBuffer.
     bnd (http_methodToString method) (\<lambda>methodString.
     bnd (printed_or_dash remoteHost) (\<lambda>host.
     bnd (printed_or_dash methodString) (\<lambda>m.
     bnd (printed_or_dash path) (\<lambda>p.
     bnd (printed_or_dash version) (\<lambda>v.
     bnd (case methodString of None \<Rightarrow> Inr () | Some s \<Rightarrow> string_free (Some s)) (\<lambda>_.
       Inr (logRaw st LOG_NOTICE
         (host @ '' - - '' @ cstr timeBuffer @ '' '' @ [CHR 0x22] @ m @ '' '' @ p @ '' HTTP/'' @ v @ [CHR 0x22] @ '' '' @ dec responseCode
          @ '' '' @ dec bytesSent)))))))))"

section \<open>Properties\<close>

lemma length_dec_padded: "n < 10 ^ Suc k \<Longrightarrow> length (dec_padded (Suc k) n) = Suc k"
  using length_dec [of n k] by (simp add: dec_padded_def)

lemma NUL_notin_dec_padded [simp]: "NUL \<notin> set (dec_padded k n)"
  by (simp add: dec_padded_def)

text \<open>A time as \<^verbatim>\<open>localtime\<close> returns it, in a year of four digits and with a zone such as \<^verbatim>\<open>+0100\<close>.\<close>

definition tm_ok :: "tm \<Rightarrow> bool" where
  "tm_ok t \<longleftrightarrow> tm_sec t \<le> 60 \<and> tm_min t < 60 \<and> tm_hour t < 24 \<and> tm_mday t \<le> 31 \<and> tm_mon t < 12
     \<and> tm_year t + 1900 < 10000 \<and> length (tm_zone t) = 5 \<and> NUL \<notin> set (tm_zone t)"

definition shown :: "string_t option \<Rightarrow> string" where
  "shown s = (case s of None \<Rightarrow> ''-'' | Some t \<Rightarrow> key_text t)"

lemma month_name:
  "k < 12 \<Longrightarrow> length ([''Jan'', ''Feb'', ''Mar'', ''Apr'', ''May'', ''Jun'', ''Jul'', ''Aug'', ''Sep'', ''Oct'', ''Nov'', ''Dec''] ! k) = 3
    \<and> NUL \<notin> set ([''Jan'', ''Feb'', ''Mar'', ''Apr'', ''May'', ''Jun'', ''Jul'', ''Aug'', ''Sep'', ''Oct'', ''Nov'', ''Dec''] ! k)"
  by (auto simp: less_Suc_eq numeral_eq_Suc)

lemma clf_time_fits:
  assumes "tm_ok t"
  shows "length (clf_time t) = 28" and "NUL \<notin> set (clf_time t)"
proof -
  have "length (dec (tm_year t + 1900)) = 4"
    using assms length_dec [of "tm_year t + 1900" 3] length_dec_ge [of 3 "tm_year t + 1900"] by (simp add: tm_ok_def)
  moreover have "length (dec_padded 2 n) = 2" if "n < 100" for n
    using length_dec_padded [of n 1] that by (simp add: numeral_2_eq_2)
  ultimately show "length (clf_time t) = 28" using assms month_name [of "tm_mon t"] by (simp add: clf_time_def tm_ok_def)
  show "NUL \<notin> set (clf_time t)" using assms month_name [of "tm_mon t"] by (simp add: clf_time_def tm_ok_def)
qed

lemma printed_ok: "\<forall>t. s = Some t \<longrightarrow> key_ok t \<Longrightarrow> printed_or_dash s = Inr (shown s)"
  by (auto simp: printed_or_dash_def shown_def key_ok_def key_text_def string_getBuffer_def strlen_def split: option.splits)

lemma methodToString_key: "\<exists>s. http_methodToString m = Inr s \<and> (\<forall>t. s = Some t \<longrightarrow> key_ok t)"
  by (cases m) (simp_all add: http_methodToString_def fromBuffer_lit)



end
