(* ===== verification/Main_Program.thy ===== *)
theory Main_Program
  imports Server Logging
begin

text \<open>
  The main process (\<^verbatim>\<open>src/main.c\<close>) and the daemon (\<^verbatim>\<open>src/daemon/daemon.c\<close>): arguments, configuration, becoming a
  daemon, the set of ports, the first server instance, and then the supervision of that instance as a step relation in which
  signals and the death of the child interleave with the loop. The texts printed for \<^verbatim>\<open>help\<close> and \<^verbatim>\<open>version\<close> are left out.
\<close>

unbundle bit_operations_syntax

section \<open>Arguments\<close>

record main_arguments =
  arg_failed :: bool
  arg_daemon :: int
  arg_logfile :: "string_t option"
  arg_configFilePath :: "string_t option"
  arg_verbose :: bool

definition main_noArguments :: main_arguments where
  "main_noArguments = \<lparr>arg_failed = False, arg_daemon = -1, arg_logfile = None, arg_configFilePath = None, arg_verbose = False\<rparr>"

text \<open>
  The vector of arguments ends with a null pointer, so that an option for which no value is left passes it on. (Memory for
  strings never runs out, so \<^verbatim>\<open>string_fromBuffer\<close> does not return null.)
\<close>

fun main_parseArguments :: "string list \<Rightarrow> main_arguments \<Rightarrow> main_arguments exec" where
  "main_parseArguments [] a = Inr a"
| "main_parseArguments (x # rest) a =
     (if x = ''-d'' \<or> x = ''--daemon'' then main_parseArguments rest (a\<lparr>arg_daemon := 1\<rparr>)
      else if x = ''-l'' \<or> x = ''--logfile'' then
        (case rest of
           [] \<Rightarrow> Inl NullPointer
         | v # rest' \<Rightarrow> bnd (string_fromBuffer (lit v)) (\<lambda>s. main_parseArguments rest' (a\<lparr>arg_logfile := Some s\<rparr>)))
      else if x = ''-c'' \<or> x = ''--config'' then
        (case rest of
           [] \<Rightarrow> Inl NullPointer
         | v # rest' \<Rightarrow> bnd (string_fromBuffer (lit v)) (\<lambda>s. main_parseArguments rest' (a\<lparr>arg_configFilePath := Some s\<rparr>)))
      else if x = ''-v'' \<or> x = ''--verbose'' then main_parseArguments rest (a\<lparr>arg_verbose := True\<rparr>)
      else main_parseArguments rest (a\<lparr>arg_failed := True\<rparr>))"

section \<open>Configuration\<close>

text \<open>\<open>defaultConfig\<close> is the text generated from \<^verbatim>\<open>default-config.toml\<close>.\<close>

definition main_loadConfig ::
  "config_env \<Rightarrow> string \<Rightarrow> (string \<Rightarrow> file_t option) \<Rightarrow> string_t option \<Rightarrow> config_t option exec" where
  "main_loadConfig env defaultConfig fopen configFilePath =
     (case configFilePath of
        None \<Rightarrow> config_parse env defaultConfig
      | Some path \<Rightarrow>
          bnd (resources_loadFile fopen path) (\<lambda>configFile.
            case configFile of
              None \<Rightarrow> Inr None
            | Some s \<Rightarrow> bnd (deref (string_getBuffer s)) (\<lambda>b. bnd (strlen b) (\<lambda>_. config_parse env (cstr b)))))"

definition main_applyArguments :: "main_arguments \<Rightarrow> config_t \<Rightarrow> config_t exec" where
  "main_applyArguments a config =
     bnd (if arg_logfile a \<noteq> None then config_setLogfile config (arg_logfile a) else Inr config) (\<lambda>config1.
     let config2 = (if arg_daemon a = 1 then config_setIsDaemon config1 (arg_daemon a) else config1)
     in Inr (if arg_verbose a then config_setLoggingLevel config2 LOG_DEBUG else config2))"

text \<open>Logging with the settings of the configuration.\<close>

definition main_setupLogging :: "(string \<Rightarrow> bool) \<Rightarrow> config_t \<Rightarrow> logging_t \<Rightarrow> logging_t exec" where
  "main_setupLogging opens config st =
     (let st1 = st\<lparr>LOGGING_LEVEL := config_getLoggingLevel config\<rparr>
      in case config_getLogfile config of
           None \<Rightarrow> Inr st1
         | Some path \<Rightarrow>
             bnd (deref (string_getBuffer path)) (\<lambda>b.
             bnd (strlen b) (\<lambda>_. Inr (snd (logging_openOutputFile opens (cstr b) st1)))))"

section \<open>The daemon\<close>

record 'w main_os =
  mo_server :: "'w server_os"
  mo_setsid :: "'w \<Rightarrow> int \<times> 'w"
  mo_chdir_root :: "'w \<Rightarrow> int \<times> 'w"

text \<open>\<open>None\<close> is the parent, which exits successfully. (\<^verbatim>\<open>umask\<close> has no result and changes nothing that is modelled.)\<close>

definition daemonize :: "'w main_os \<Rightarrow> 'w \<Rightarrow> int option \<times> 'w" where
  "daemonize os w =
     (case so_fork (mo_server os) w of (pid, w1) \<Rightarrow>
        if pid < 0 then (Some (-1), w1)
        else if pid > 0 then (None, w1)
        else case mo_setsid os w1 of (sid, w2) \<Rightarrow>
          if sid < 0 then (Some (-1), w2)
          else case mo_chdir_root os w2 of (r, w3) \<Rightarrow> if r < 0 then (Some (-1), w3) else (Some sid, w3))"

definition main_daemonOutput :: "8 word \<Rightarrow> 8 word" where
  "main_daemonOutput out = (out AND NOT (push_bit (unat LOGGING_CONSOLE) 0xFF)) OR LOGGING_SYSLOG"

definition EXIT_SUCCESS :: int where "EXIT_SUCCESS = 0"

text \<open>\<open>Inl\<close> is the code with which the process ends.\<close>

definition main_daemon :: "'w main_os \<Rightarrow> config_t \<Rightarrow> logging_t \<Rightarrow> 'w \<Rightarrow> (int + logging_t) \<times> 'w" where
  "main_daemon os config st w =
     (if config_getIsDaemon config \<noteq> 0 then
        case daemonize os w of
          (None, w1) \<Rightarrow> (Inl EXIT_SUCCESS, w1)
        | (Some sid, w1) \<Rightarrow>
            if sid < 0 then (Inl EXIT_FAILURE, w1)
            else (Inr (st\<lparr>LOGGING_OUTPUT := main_daemonOutput (LOGGING_OUTPUT st)\<rparr>),
                  so_close (mo_server os) 2 (so_close (mo_server os) 1 (so_close (mo_server os) 0 w1)))
      else (Inr st, w))"

section \<open>Start\<close>

fun main_collectPorts :: "nat \<Rightarrow> nat \<Rightarrow> config_t \<Rightarrow> int set_t \<Rightarrow> (config_t \<times> int set_t) exec" where
  "main_collectPorts 0 i config ports = Inr (config, ports)"
| "main_collectPorts (Suc n) i config ports =
     bnd (config_getServerConfig config i) (\<lambda>(serverConfig, config1).
     bnd (deref serverConfig) (\<lambda>sc.
     bnd (set_addValue ports (sc_port sc)) (\<lambda>ports1.
       main_collectPorts n (Suc i) config1 ports1)))"

datatype main_result =
    Exits int
  | ServerChild "int + server_t"
  | Supervises int "int set_t"

definition main_serve ::
  "'w main_os \<Rightarrow> (nat \<Rightarrow> bool) \<Rightarrow> config_t \<Rightarrow> logging_t \<Rightarrow> 'w \<Rightarrow> (main_result \<times> logging_t \<times> 'w) exec" where
  "main_serve os created config st w =
     (case main_daemon os config st w of
        (Inl code, w1) \<Rightarrow> Inr (Exits code, st, w1)
      | (Inr st1, w1) \<Rightarrow>
          bnd (main_collectPorts (list_getLength (cfg_serverConfigs config)) 0 config set_create) (\<lambda>(config1, ports).
          bnd (server_createInstance (mo_server os) created (config_setGlobalConfig config1) ports w1) (\<lambda>(r, _, w2).
            Inr (case r of
                   Instance pid \<Rightarrow> if pid = 0 then Exits EXIT_FAILURE else Supervises pid ports
                 | ServerProcess p \<Rightarrow> ServerChild p, st1, w2))))"

definition main_start ::
  "'w main_os \<Rightarrow> config_env \<Rightarrow> string \<Rightarrow> (string \<Rightarrow> file_t option) \<Rightarrow> (string \<Rightarrow> bool) \<Rightarrow> (nat \<Rightarrow> bool) \<Rightarrow> string list \<Rightarrow> logging_t \<Rightarrow> 'w
    \<Rightarrow> (main_result \<times> logging_t \<times> 'w) exec" where
  "main_start os env defaultConfig fopen opens created arguments st w =
     bnd (main_parseArguments arguments main_noArguments) (\<lambda>a.
       let st0 = (if arg_verbose a then st\<lparr>LOGGING_LEVEL := LOG_DEBUG\<rparr> else st) in
       if arg_failed a then Inr (Exits EXIT_FAILURE, st0, w)
       else bnd (main_loadConfig env defaultConfig fopen (arg_configFilePath a)) (\<lambda>c.
              case c of
                None \<Rightarrow> Inr (Exits EXIT_FAILURE, st0, w)
              | Some config0 \<Rightarrow>
                  bnd (main_applyArguments a config0) (\<lambda>config.
                  bnd (main_setupLogging opens config st0) (\<lambda>st1.
                    main_serve os created config st1 w))))"

definition main_main ::
  "'w main_os \<Rightarrow> config_env \<Rightarrow> string \<Rightarrow> (string \<Rightarrow> file_t option) \<Rightarrow> (string \<Rightarrow> bool) \<Rightarrow> (nat \<Rightarrow> bool) \<Rightarrow> bool \<Rightarrow> string list \<Rightarrow> 'w
    \<Rightarrow> (main_result \<times> logging_t \<times> 'w) exec" where
  "main_main os env defaultConfig fopen opens created mutexCreated argv w =
     (if \<not> logging_start mutexCreated then Inr (Exits EXIT_FAILURE, logging_initial, w)
      else case argv of
        [] \<Rightarrow> Inl OutOfBounds
      | [name] \<Rightarrow> Inr (Exits EXIT_FAILURE, logging_initial, w)
      | name # command # arguments \<Rightarrow>
          if command = ''help'' \<or> command = ''version'' then Inr (Exits EXIT_SUCCESS, logging_initial, w)
          else if command \<noteq> ''start'' then Inr (Exits EXIT_FAILURE, logging_initial, w)
          else main_start os env defaultConfig fopen opens created arguments logging_initial w)"

section \<open>Supervision\<close>

datatype wait_status = WIFEXITED int | WIFSIGNALED

text \<open>
  The current server process: running, with its process number and whether it was told to stop; ended and not yet waited
  for; or collected. The handlers may run at any point of the loop, also between the creation of an instance
  (\<open>Created\<close>) and the assignment of its number.
\<close>

datatype child = Running int bool | Ended wait_status | Collected

datatype place = While | Sleeping | Waited wait_status | Created int | WaitingForAll | Finished int

record supervisor =
  main_serverShouldRun :: bool
  main_serverInstance :: int
  sup_child :: child
  sup_place :: place

text \<open>\<open>newInstance\<close> is the result of \<^verbatim>\<open>server_createInstance\<close>: 0 when it fails and a process number otherwise.\<close>

definition main_restart :: "int \<Rightarrow> supervisor \<Rightarrow> supervisor" where
  "main_restart newInstance s =
     s\<lparr>sup_child := if newInstance = 0 then sup_child s else Running newInstance False, sup_place := Created newInstance\<rparr>"

definition main_assignInstance :: "int \<Rightarrow> supervisor \<Rightarrow> supervisor" where
  "main_assignInstance newInstance s =
     (if newInstance = 0 then s\<lparr>sup_place := Finished EXIT_FAILURE\<rparr>
      else s\<lparr>main_serverInstance := newInstance, sup_place := While\<rparr>)"

text \<open>What the loop does with the status of a child that ended.\<close>

definition main_handleExit :: "wait_status \<Rightarrow> int \<Rightarrow> supervisor \<Rightarrow> supervisor" where
  "main_handleExit status newInstance s =
     (case status of
        WIFEXITED exitCode \<Rightarrow>
          if main_serverShouldRun s then
            if exitCode = SERVER_EXIT_FATAL then s\<lparr>sup_place := Finished EXIT_FAILURE\<rparr> else main_restart newInstance s
          else s\<lparr>sup_place := While\<rparr>
      | WIFSIGNALED \<Rightarrow> if main_serverInstance s \<noteq> 0 then main_restart newInstance s else s\<lparr>sup_place := While\<rparr>)"

text \<open>Both handlers send \<^verbatim>\<open>SIGINT\<close> to the process whose number is stored.\<close>

definition main_handleSignal :: "supervisor \<Rightarrow> supervisor" where
  "main_handleSignal s =
     s\<lparr>main_serverShouldRun := False,
       sup_child := (case sup_child s of
                       Running pid told \<Rightarrow> Running pid (told \<or> pid = main_serverInstance s)
                     | Ended status \<Rightarrow> Ended status
                     | Collected \<Rightarrow> Collected)\<rparr>"

inductive main_step :: "supervisor \<Rightarrow> supervisor \<Rightarrow> bool" where
  loop: "sup_place s = While \<Longrightarrow>
    main_step s (s\<lparr>sup_place := if main_serverShouldRun s then Sleeping else WaitingForAll\<rparr>)"
| still_running: "sup_place s = Sleeping \<Longrightarrow> sup_child s = Running pid told \<Longrightarrow> main_step s (s\<lparr>sup_place := While\<rparr>)"
| waitpid: "sup_place s = Sleeping \<Longrightarrow> sup_child s = Ended status \<Longrightarrow>
    main_step s (s\<lparr>sup_child := Collected, sup_place := Waited status\<rparr>)"
| handle: "sup_place s = Waited status \<Longrightarrow> newInstance \<ge> 0 \<Longrightarrow> main_step s (main_handleExit status newInstance s)"
| assign: "sup_place s = Created newInstance \<Longrightarrow> main_step s (main_assignInstance newInstance s)"
| wait_all: "sup_place s = WaitingForAll \<Longrightarrow> \<forall>pid told. sup_child s \<noteq> Running pid told \<Longrightarrow>
    main_step s (s\<lparr>sup_child := Collected, sup_place := Finished 0\<rparr>)"
| signal: "\<forall>code. sup_place s \<noteq> Finished code \<Longrightarrow> main_step s (main_handleSignal s)"
| child_ends: "sup_child s = Running pid told \<Longrightarrow> main_step s (s\<lparr>sup_child := Ended status\<rparr>)"

text \<open>What is released after the last child has ended; the result is the one of \<^verbatim>\<open>logging_stop\<close>, which is ignored.\<close>

definition main_release :: "int set_t \<Rightarrow> config_t option \<Rightarrow> int \<Rightarrow> logging_t \<Rightarrow> int exec" where
  "main_release ports globalConfig closed st =
     bnd (list_free ports) (\<lambda>_. bnd (config_freeGlobalConfig globalConfig) (\<lambda>_. Inr (logging_stop closed st)))"

definition main_supervising :: "supervisor \<Rightarrow> bool" where
  "main_supervising s \<longleftrightarrow> main_serverShouldRun s \<and> main_serverInstance s > 0
     \<and> sup_child s = Running (main_serverInstance s) False \<and> sup_place s = While"

section \<open>Options and ports\<close>

text \<open>An option in its short or (\<open>True\<close>) long form, and what it sets.\<close>

datatype main_option = Daemon bool | LogTo bool string | ConfigFrom bool string | Verbose bool

fun option_arguments :: "main_option \<Rightarrow> string list" where
  "option_arguments (Daemon l) = [if l then ''--daemon'' else ''-d'']"
| "option_arguments (LogTo l v) = [if l then ''--logfile'' else ''-l'', v]"
| "option_arguments (ConfigFrom l v) = [if l then ''--config'' else ''-c'', v]"
| "option_arguments (Verbose l) = [if l then ''--verbose'' else ''-v'']"

fun option_effect :: "main_option \<Rightarrow> main_arguments \<Rightarrow> main_arguments" where
  "option_effect (Daemon l) a = a\<lparr>arg_daemon := 1\<rparr>"
| "option_effect (LogTo l v) a = a\<lparr>arg_logfile := Some (str v)\<rparr>"
| "option_effect (ConfigFrom l v) a = a\<lparr>arg_configFilePath := Some (str v)\<rparr>"
| "option_effect (Verbose l) a = a\<lparr>arg_verbose := True\<rparr>"

fun option_clean :: "main_option \<Rightarrow> bool" where
  "option_clean (LogTo l v) = (NUL \<notin> set v)"
| "option_clean (ConfigFrom l v) = (NUL \<notin> set v)"
| "option_clean _ = True"

lemma parse_option:
  "option_clean p \<Longrightarrow> main_parseArguments (option_arguments p @ rest) a = main_parseArguments rest (option_effect p a)"
  by (cases p) (simp_all add: fromBuffer_lit)

lemma parse_options:
  "list_all option_clean ps \<Longrightarrow>
    main_parseArguments (concat (map option_arguments ps) @ rest) a = main_parseArguments rest (fold option_effect ps a)"
  by (induction ps arbitrary: a) (simp_all add: parse_option)

lemma collectPorts_exact:
  assumes "list_inv (cfg_serverConfigs config) scs" and "i + n = length scs" and "i = 0 \<or> list_currentIndex (cfg_serverConfigs config) = i - 1"
    and "set_inv ports us"
  shows "\<exists>config' ports' vs. main_collectPorts n i config ports = Inr (config', ports') \<and> list_inv (cfg_serverConfigs config') scs
    \<and> same_settings config config' \<and> set_inv ports' vs \<and> set vs = set us \<union> sc_port ` set (drop i scs)"
  using assms
proof (induction n arbitrary: i config ports us)
  case (Suc n)
  then have i: "i < length scs" by simp
  then obtain c' where c': "config_getServerConfig config i = Inr (Some (scs ! i), c')" "list_inv (cfg_serverConfigs c') scs"
    "list_currentIndex (cfg_serverConfigs c') = i" "same_settings config c'"
    using getServerConfig_at [OF Suc.prems(1) _ Suc.prems(3)] by blast
  let ?p = "sc_port (scs ! i)"
  obtain ports1 us1 where p: "set_addValue ports ?p = Inr ports1" "set_inv ports1 us1" "set us1 = insert ?p (set us)"
    using set_inv_add [OF Suc.prems(4), of ?p] by (cases "?p \<in> set us") (auto simp: insert_absorb)
  from Suc.IH [OF c'(2) _ _ p(2), of "Suc i"] obtain config' ports' vs where "main_collectPorts n (Suc i) c' ports1 = Inr (config', ports')" "list_inv (cfg_serverConfigs config') scs"
    "same_settings c' config'" "set_inv ports' vs" "set vs = set us1 \<union> sc_port ` set (drop (Suc i) scs)"
    using Suc.prems(2) c'(3) by auto
  moreover have "set (drop i scs) = insert (scs ! i) (set (drop (Suc i) scs))" using i by (simp add: Cons_nth_drop_Suc [symmetric])
  ultimately show ?case using c'(1) p(1,3) same_settings_trans [OF c'(4)] by auto
qed auto

section \<open>Supervision\<close>

definition main_inv :: "supervisor \<Rightarrow> bool" where
  "main_inv s \<longleftrightarrow> main_serverInstance s > 0
     \<and> (sup_place s = Sleeping \<longrightarrow> sup_child s \<noteq> Collected)
     \<and> (sup_place s = While \<and> main_serverShouldRun s \<longrightarrow> sup_child s \<noteq> Collected)
     \<and> (sup_place s = WaitingForAll \<longrightarrow> \<not> main_serverShouldRun s)
     \<and> ((\<exists>status. sup_place s = Waited status) \<longrightarrow> sup_child s = Collected)
     \<and> (\<forall>n. sup_place s = Created n \<longrightarrow> n \<ge> 0 \<and> (n = 0 \<longleftrightarrow> sup_child s = Collected))
     \<and> (sup_place s = Finished 0 \<longrightarrow> \<not> main_serverShouldRun s \<and> sup_child s = Collected)
     \<and> (\<forall>code. sup_place s = Finished code \<longrightarrow> sup_child s = Collected \<and> (code = 0 \<or> code = EXIT_FAILURE))"

lemma handleExit_inv: "main_inv s \<Longrightarrow> sup_place s = Waited status \<Longrightarrow> n \<ge> 0 \<Longrightarrow> main_inv (main_handleExit status n s)"
  by (auto simp: main_inv_def main_handleExit_def main_restart_def EXIT_FAILURE_def split: wait_status.split)

lemma assign_inv: "main_inv s \<Longrightarrow> sup_place s = Created n \<Longrightarrow> main_inv (main_assignInstance n s)"
  by (auto simp: main_inv_def main_assignInstance_def EXIT_FAILURE_def)

lemma handleSignal_inv: "main_inv s \<Longrightarrow> main_inv (main_handleSignal s)"
  by (auto simp: main_inv_def main_handleSignal_def split: child.split)

interpretation supervision: transition_system main_supervising main_step main_inv
proof
  show "main_inv s" if "main_supervising s" for s
    using that by (simp add: main_supervising_def main_inv_def)
  show "main_inv t" if "main_inv s" and "main_step s t" for s t
    using that(2,1)
  proof (cases rule: main_step.cases)
    case (handle status n)
    then show ?thesis using that(1) handleExit_inv by blast
  next
    case (assign n)
    then show ?thesis using that(1) assign_inv by blast
  next
    case signal
    then show ?thesis using that(1) handleSignal_inv by blast
  qed (auto simp: main_inv_def)
qed

text \<open>
  The main process waits for a server that was not told to stop, and nothing but a further signal or the end of that
  server will change it.
\<close>

definition forgotten :: "int \<Rightarrow> supervisor \<Rightarrow> bool" where
  "forgotten pid t \<longleftrightarrow> \<not> main_serverShouldRun t \<and> sup_child t = Running pid False \<and> sup_place t = WaitingForAll
     \<and> (\<forall>u. main_step t u \<longrightarrow> u = main_handleSignal t \<or> (\<exists>status. u = t\<lparr>sup_child := Ended status\<rparr>))"

lemma created_forgotten:
  assumes "sup_place s = Created pid" and "\<not> main_serverShouldRun s" and "sup_child s = Running pid False" and "pid > 0"
  shows "\<exists>t. main_step\<^sup>*\<^sup>* s t \<and> forgotten pid t"
proof -
  let ?a = "main_assignInstance pid s"
  let ?t = "?a\<lparr>sup_place := WaitingForAll\<rparr>"
  have a: "sup_place ?a = While" "\<not> main_serverShouldRun ?a" "sup_child ?a = Running pid False"
    using assms by (simp_all add: main_assignInstance_def)
  have "main_step s ?a" "main_step ?a ?t" using main_step.assign [OF assms(1)] main_step.loop [OF a(1)] a(2) by simp_all
  then have "main_step\<^sup>*\<^sup>* s ?t" by (meson converse_rtranclp_into_rtranclp rtranclp.rtrancl_refl)
  moreover have "u = main_handleSignal ?t \<or> (\<exists>status. u = ?t\<lparr>sup_child := Ended status\<rparr>)" if "main_step ?t u" for u
    using that by (cases rule: main_step.cases) (use a in auto)
  ultimately show ?thesis using a unfolding forgotten_def by (intro exI [of _ ?t]) simp
qed

section \<open>Properties\<close>

text \<open>C30. The options of the command line are understood in any order, number and form, the last of equal ones
  counting; an option that lacks its value is not rejected but passes the null pointer at the end of the arguments on, which
  is a fault.\<close>

theorem main_options:
  assumes "list_all option_clean ps" and "x \<in> {''-l'', ''--logfile'', ''-c'', ''--config''}"
  shows "main_parseArguments (concat (map option_arguments ps)) a = Inr (fold option_effect ps a)
    \<and> main_parseArguments (concat (map option_arguments ps) @ [x]) a = Inl NullPointer"
  using parse_options [OF assms(1), of "[]" a] parse_options [OF assms(1), of "[x]" a] assms(2) by auto

theorem main_options_witness:
  "main_parseArguments [''-v'', ''--config'', ''c.toml''] main_noArguments = Inr (main_noArguments\<lparr>arg_configFilePath := Some (str ''c.toml''), arg_verbose := True\<rparr>)
    \<and> main_parseArguments [''-v'', ''--config'', ''c.toml'', ''-l''] main_noArguments = Inl NullPointer"
  using main_options [of "[Verbose False, ConfigFrom True ''c.toml'']" "''-l''" main_noArguments] by simp


text \<open>The process that has just created its first instance.\<close>

definition main_first :: supervisor where
  "main_first = \<lparr>main_serverShouldRun = True, main_serverInstance = 1, sup_child = Running 1 False, sup_place = While\<rparr>"




text \<open>The same happens when the signal arrives between the creation of a new instance and the assignment of its number:
  the signal goes to the process that has ended.\<close>

theorem main_signal_lost_in_restart:
  assumes "main_supervising s" and "pid > 0" and "pid \<noteq> main_serverInstance s" and "code \<noteq> SERVER_EXIT_FATAL"
  shows "\<exists>t. main_step\<^sup>*\<^sup>* s t \<and> forgotten pid t"
proof -
  have s: "main_serverShouldRun s" "main_serverInstance s > 0" "sup_child s = Running (main_serverInstance s) False" "sup_place s = While"
    using assms(1) by (simp_all add: main_supervising_def)
  let ?a = "s\<lparr>sup_place := Sleeping\<rparr>"
  let ?b = "?a\<lparr>sup_child := Ended (WIFEXITED code)\<rparr>"
  let ?c = "?b\<lparr>sup_child := Collected, sup_place := Waited (WIFEXITED code)\<rparr>"
  let ?d = "main_handleExit (WIFEXITED code) pid ?c"
  let ?e = "main_handleSignal ?d"
  have e: "\<not> main_serverShouldRun ?e" "sup_child ?e = Running pid False" "sup_place ?e = Created pid"
    using s assms(2-4) by (simp_all add: main_handleExit_def main_restart_def main_handleSignal_def)
  have "main_step s ?a" "main_step ?a ?b" "main_step ?b ?c" "main_step ?c ?d"
    using main_step.loop [of s] main_step.child_ends [of ?a "main_serverInstance s" False "WIFEXITED code"]
      main_step.waitpid [of ?b "WIFEXITED code"] main_step.handle [of ?c "WIFEXITED code" pid] s assms(2)
    by simp_all
  moreover have "main_step ?d ?e" using main_step.signal [of ?d] s assms(4) by (simp add: main_handleExit_def main_restart_def)
  ultimately have "main_step\<^sup>*\<^sup>* s ?e" by (meson converse_rtranclp_into_rtranclp rtranclp.rtrancl_refl)
  then show ?thesis using created_forgotten [OF e(3,1,2) assms(2)] by (meson rtranclp_trans)
qed

text \<open>
  File descriptors: \<open>fds w\<close> are the open ones. A new socket gets the lowest free number, closing frees it, and the calls for
  processes keep all of them.
\<close>

definition descriptor_laws :: "'w main_os \<Rightarrow> ('w \<Rightarrow> int set) \<Rightarrow> bool" where
  "descriptor_laws os fds \<longleftrightarrow>
     (\<forall>w s w'. so_socket (mo_server os) w = (s, w') \<longrightarrow> s \<ge> 0 \<longrightarrow> s \<notin> fds w \<and> (\<forall>i. 0 \<le> i \<and> i < s \<longrightarrow> i \<in> fds w))
   \<and> (\<forall>s w. fds (so_close (mo_server os) s w) = fds w - {s})
   \<and> (\<forall>w. fds (snd (so_fork (mo_server os) w)) = fds w)"

lemma listen_on_zero:
  assumes "descriptor_laws os fds" and "0 \<notin> fds w"
  shows "fst (server_listen (mo_server os) port backlog w) = 0"
proof -
  obtain s w1 where s: "so_socket (mo_server os) w = (s, w1)" by fastforce
  have "s \<le> 0" using assms s unfolding descriptor_laws_def by (metis linorder_not_le order_less_imp_le order_refl)
  then show ?thesis by (auto simp: server_listen_def s split: prod.split)
qed

lemma listenAll_zero:
  assumes "descriptor_laws os fds" and "0 \<notin> fds w" and "list_inv ports [v]"
  shows "\<exists>w'. server_listenAll (mo_server os) (Suc 0) 0 ports backlog st w = Inr (st, w')"
proof -
  obtain ports1 where "list_getValue ports 0 = Inr (Some v, ports1)" using inv_get [OF assms(3), of 0] by auto
  then show ?thesis using listen_on_zero [OF assms(1,2), of "to_u16 v" backlog]
    by (cases "server_listen (mo_server os) (to_u16 v) backlog w") simp
qed

lemma start_zero:
  assumes "descriptor_laws os fds" and "0 \<notin> fds w" and "list_inv ports [v]" and "\<forall>i. created i"
  shows "\<exists>w'. server_start (mo_server os) created (Some config) ports w = Inr (Inl SERVER_EXIT_FATAL, Some config, w')"
proof -
  obtain pool where "server_spawnWorkers created (config_getNumberOfThreads config) 0 = Some pool"
    using spawnWorkers_all [OF assms(4)] by blast
  moreover have "list_getLength ports = Suc 0" using list_inv_length [OF assms(3)] by (simp add: list_getLength_def)
  moreover obtain w' where "server_listenAll (mo_server os) (Suc 0) 0 ports (config_getBacklogSize config)
      \<lparr>sv_socketDescriptors = replicate (set_getLength ports) unused, sv_socketDescriptorCount = 0, sv_connectionQueue = [],
       sv_workerPool = pool, sv_dhCallbacks = []\<rparr> w
    = Inr (\<lparr>sv_socketDescriptors = replicate (set_getLength ports) unused, sv_socketDescriptorCount = 0, sv_connectionQueue = [],
       sv_workerPool = pool, sv_dhCallbacks = []\<rparr>, w')"
    using listenAll_zero [OF assms(1-3)] by blast
  ultimately show ?thesis by (simp only: server_start_def config_getGlobalConfig_def) simp
qed

lemma daemonOutput_console: "main_daemonOutput out AND LOGGING_CONSOLE = out AND LOGGING_CONSOLE"
  unfolding main_daemonOutput_def LOGGING_CONSOLE_def LOGGING_SYSLOG_def
  by (simp add: bit.conj_disj_distrib2 and.assoc)


text \<open>A system with three descriptors, as seen by the child processes.\<close>

definition desk_os :: "int set main_os" where
  "desk_os = \<lparr>mo_server =
     \<lparr>so_getfl = (\<lambda>s w. (0, w)), so_setfl = (\<lambda>s f w. (0, w)),
      so_socket = (\<lambda>w. if 0 \<notin> w then (0, insert 0 w) else if 1 \<notin> w then (1, insert 1 w) else if 2 \<notin> w then (2, insert 2 w) else (-1, w)),
      so_setsockopt = (\<lambda>s w. (0, w)), so_bind = (\<lambda>s p w. (0, w)), so_listen = (\<lambda>s b w. (0, w)),
      so_poll = (\<lambda>ds w. ((1, map (\<lambda>_. True) ds), w)), so_poll1 = (\<lambda>s out w. (1, w)), so_accept = (\<lambda>s w. (None, w)),
      so_shutdown = (\<lambda>s w. w), so_close = (\<lambda>s w. w - {s}), so_fork = (\<lambda>w. (0, w)), so_SSL_new = (\<lambda>s w. (7, w)),
      so_SSL_accept = (\<lambda>ssl w. (1, w)), so_SSL_get_error = (\<lambda>ssl st w. SSL_ERROR_OTHER), so_SSL_free = (\<lambda>ssl w. w)\<rparr>,
     mo_setsid = (\<lambda>w. (9, w)), mo_chdir_root = (\<lambda>w. (0, w))\<rparr>"

lemma desk_laws: "descriptor_laws desk_os (\<lambda>w. w)"
proof -
  have "i = 0 \<or> i = 1" if "0 \<le> i" "i < 2" for i :: int using that by linarith
  moreover have "i = 0" if "0 \<le> i" "\<not> 0 < i" for i :: int using that by linarith
  moreover have "i < 1 \<longleftrightarrow> \<not> 0 < i" for i :: int by linarith
  ultimately show ?thesis unfolding descriptor_laws_def by (auto simp: desk_os_def split: if_split_asm)
qed


end
