(* ===== verification/Config_Files.thy ===== *)
theory Config_Files
  imports Config
begin

text \<open>
  From the text of a configuration file to the servers: the lexer and parser of \<open>Toml_Parser\<close> and the reader of \<open>Config\<close> together,
  on files that name for each server its domain, root directory and port.
\<close>

section \<open>Plain servers\<close>

text \<open>A server without TLS is a duplicate of no other.\<close>

lemma isDuplicate_plain:
  assumes "list_inv l scs" and "length scs \<le> i" and "\<forall>s \<in> set scs. has_domain s" and "has_domain sc" and "sc_sslContext sc = None"
    and "j = 0 \<or> length scs \<le> j \<or> list_currentIndex l = j - 1"
  shows "\<exists>l'. config_isDuplicate n j i sc l = Inr (False, l') \<and> list_inv l' scs"
  using assms(1,6)
proof (induction n arbitrary: j l)
  case (Suc n)
  show ?case
  proof (cases "j < length scs")
    case False
    then have "list_getValue l j = Inr (None, l)" using inv_get_none [OF Suc.prems(1)] by simp
    then show ?thesis using Suc.IH [OF Suc.prems(1), of "Suc j"] False by auto
  next
    case True
    have "move_safe (length scs) (list_currentIndex l) j"
      using True Suc.prems(2) move_safe_Suc [of "j - 1" "length scs"] by (cases j) auto
    then obtain l1 where l1: "list_getValue l j = Inr (Some (scs ! j), l1)" "list_inv l1 scs" "list_currentIndex l1 = j"
      using inv_get [OF Suc.prems(1) True] by blast
    obtain d where d: "sc_domain sc = Some d" "key_ok d" using assms(4) by (auto simp: has_domain_def split: option.splits)
    obtain d' where d': "sc_domain (scs ! j) = Some d'" "key_ok d'"
      using assms(3) True by (auto simp: has_domain_def dest!: nth_mem split: option.splits)
    show ?thesis
      using l1 Suc.IH [OF l1(2), of "Suc j"] True assms(2,5) d d' string_equals_text [OF d(2) d'(2)] by simp
  qed
qed simp

text \<open>The loop over the tables when each of them gives a server without TLS.\<close>

lemma parseServers_plain:
  assumes "tab_kval st = []" and "tab_arr st = []" and "distinct (map tab_key (tab_tab st))"
    and "length (tab_tab st) = length scs"
    and "\<And>k i. k < length scs \<Longrightarrow> tab_key (tab_tab st ! k) \<noteq> None \<and> config_parseServerTable env i (tab_tab st ! k) = Inr (Some (scs ! k))"
    and "\<forall>sc \<in> set scs. has_domain sc \<and> sc_sslContext sc = None"
    and "list_inv l (take i scs)" and "n + i = length scs"
  shows "\<exists>l'. config_parseServers env n i tot st l = Inr l' \<and> list_inv l' scs"
  using assms(7,8)
proof (induction n arbitrary: i l)
  case (Suc n)
  then have i: "i < length scs" by simp
  obtain key where key: "tab_key (tab_tab st ! i) = Some key" using assms(5) [OF i] by auto
  have "toml_key_in st i = Some key" using assms(1,2,4) i key by (simp add: toml_key_in_def)
  moreover have "toml_table_in st key = Some (tab_tab st ! i)"
    unfolding toml_table_in_def find_Some_iff using i key assms(3,4) by (intro exI [of _ i]) (auto simp: distinct_conv_nth)
  moreover have "set (take i scs) \<subseteq> set scs" by (rule set_take_subset)
  moreover obtain l1 where l1: "config_isDuplicate tot 0 i (scs ! i) l = Inr (False, l1)" "list_inv l1 (take i scs)"
    using isDuplicate_plain [OF Suc.prems(1), of i "scs ! i" 0 tot] assms(6) i calculation(3) by auto
  moreover obtain l2 where "list_addValue l1 (scs ! i) = Inr l2" "list_inv l2 (take (Suc i) scs)"
    using inv_add [OF l1(2), of "scs ! i"] i by (auto simp: take_Suc_conv_app_nth)
  ultimately show ?case using Suc.IH [of l2 "Suc i"] Suc.prems(2) assms(5) [OF i] by simp
qed simp

section \<open>Sites\<close>

record site =
  site_name :: string
  site_domain :: string
  site_root :: string
  site_port :: nat

definition quoted :: "string \<Rightarrow> string" where
  "quoted s = SQ # s @ [SQ]"

definition site_section :: "site \<Rightarrow> string \<times> toml_keyval_t list" where
  "site_section s = (site_name s,
     [\<lparr>kv_key = ''domain'', kv_val = quoted (site_domain s)\<rparr>,
      \<lparr>kv_key = ''rootDirectory'', kv_val = quoted (site_root s)\<rparr>,
      \<lparr>kv_key = ''port'', kv_val = dec (site_port s)\<rparr>])"

definition site_file :: "nat \<Rightarrow> site list \<Rightarrow> string" where
  "site_file threads sites = config_text [\<lparr>kv_key = ''threads'', kv_val = dec threads\<rparr>] (map site_section sites)"

definition literal :: "string \<Rightarrow> bool" where
  "literal s \<longleftrightarrow> list_all (\<lambda>c. c \<notin> {SQ, LF, NUL}) s"

text \<open>What the site stands for: the root directory exists and its path is not changed by the string functions.\<close>

definition site_ok :: "config_env \<Rightarrow> site \<Rightarrow> bool" where
  "site_ok env s \<longleftrightarrow> bare_key (site_name s) \<and> literal (site_domain s) \<and> literal (site_root s) \<and> site_port s < 65536
     \<and> (case env_realpath env (site_root s) of None \<Rightarrow> False | Some p \<Rightarrow> NUL \<notin> set p)"

definition site_server :: "config_env \<Rightarrow> site \<Rightarrow> server_config_t" where
  "site_server env s = \<lparr>sc_name = Some (str (site_name s)), sc_domain = Some (str (site_domain s)),
     sc_rootDirectory = map_option str (env_realpath env (site_root s)), sc_port = to_int16 (int (site_port s)), sc_enabled = -1,
     sc_dhparams = None, sc_sslContext = None, sc_directoryIndex = None\<rparr>"

lemma site_section_name [simp]: "fst (site_section s) = site_name s" "fst \<circ> site_section = site_name"
  by (simp_all add: site_section_def fun_eq_iff)

lemma rtos_quoted: "literal s \<Longrightarrow> toml_rtos (Some (quoted s)) = Some (lit s)"
  using rtos_literal [of s] by (auto simp: literal_def list_all_iff quoted_def SQ_def)

lemma rtoi_dec: "n < 2 ^ 63 \<Longrightarrow> toml_rtoi (Some (dec n)) = Inr (Some (int n))"
  using rtoi_dec_int [of "int n"] by (simp add: dec_int_def)

lemma literal_NUL: "literal s \<Longrightarrow> NUL \<notin> set s"
  by (auto simp: literal_def list_all_iff)

lemma bare_key_NUL: "bare_key k \<Longrightarrow> NUL \<notin> set k"
  using key_chars [of k False] by (auto simp: bare_key_def list_all_iff)

lemma site_parse:
  assumes "site_ok env s"
  shows "config_parseServerTable env i (server_table (site_section s)) = Inr (Some (site_server env s))"
proof -
  obtain p where p: "env_realpath env (site_root s) = Some p" "NUL \<notin> set p" using assms by (auto simp: site_ok_def split: option.splits)
  have s: "NUL \<notin> set (site_name s)" "NUL \<notin> set (site_domain s)" "NUL \<notin> set (site_root s)"
    "toml_rtos (Some (quoted (site_domain s))) = Some (lit (site_domain s))" "toml_rtos (Some (quoted (site_root s))) = Some (lit (site_root s))"
    "toml_rtoi (Some (dec (site_port s))) = Inr (Some (int (site_port s)))"
    using assms by (simp_all add: site_ok_def literal_NUL bare_key_NUL rtos_quoted rtoi_dec)
  have raw: "toml_raw_in (server_table (site_section s)) ''domain'' = Some (quoted (site_domain s))"
    "toml_raw_in (server_table (site_section s)) ''rootDirectory'' = Some (quoted (site_root s))"
    "toml_raw_in (server_table (site_section s)) ''port'' = Some (dec (site_port s))"
    "toml_raw_in (server_table (site_section s)) ''enabled'' = None" "toml_raw_in (server_table (site_section s)) ''privateKey'' = None"
    "toml_raw_in (server_table (site_section s)) ''certificate'' = None" "toml_array_in (server_table (site_section s)) ''directoryIndex'' = None"
    "toml_table_key (Some (server_table (site_section s))) = Some (site_name s)"
    by (simp_all add: toml_raw_in_def toml_array_in_def toml_table_key_def server_table_def site_section_def)
  have "site_port s \<le> 65536" using assms by (simp add: site_ok_def)
  then show ?thesis using s p raw
    by (simp add: config_parseServerTable_def config_parseServerBasics_def Let_def config_parseString_def fromBuffer_lit
        config_parseServerRoot_def config_parseServerPort_def config_parseInt_def config_parseBool_def config_parseArray_def site_server_def)
qed

lemma dec_raw: "raw_value (dec n)"
  using dec_all_digits [of n] hd_dec_digit [of n] key_char_bare by (cases "dec n") (auto simp: raw_value_def list_all_iff)

lemma quoted_raw: "literal s \<Longrightarrow> raw_value (quoted s)"
  by (simp add: raw_value_def quoted_def literal_def butlast_append)

lemma site_file_ok:
  assumes "list_all (site_ok env) sites" and "distinct (map site_name sites)"
  shows "config_ok [\<lparr>kv_key = ''threads'', kv_val = dec n\<rparr>] (map site_section sites)"
proof -
  have b: "bare_key ''threads''" "bare_key ''domain''" "bare_key ''rootDirectory''" "bare_key ''port''" by code_simp+
  then have "bare_key (site_name s) \<and> section_ok (snd (site_section s))" if "site_ok env s" for s
    using that by (simp add: site_ok_def site_section_def section_ok_def dec_raw quoted_raw)
  then show ?thesis using assms b by (auto simp: config_ok_def section_ok_def dec_raw list_all_iff split_def)
qed

lemma site_doc_servers:
  assumes "list_all (site_ok env) sites" and "distinct (map site_name sites)"
  shows "\<exists>l. config_parseServers env (length sites) 0 tot (Toml_Table (Some k) True [] [] (map server_table (map site_section sites))) list_create
      = Inr l \<and> list_inv l (map (site_server env) sites)"
proof (rule parseServers_plain)
  have "map tab_key (map server_table (map site_section sites)) = map Some (map site_name sites)"
    by (simp add: server_table_def)
  then show "distinct (map tab_key (tab_tab (Toml_Table (Some k) True [] [] (map server_table (map site_section sites)))))"
    using assms(2) by (simp add: distinct_map inj_on_def)
  show "\<forall>sc \<in> set (map (site_server env) sites). has_domain sc \<and> sc_sslContext sc = None"
    using assms(1) by (auto simp: site_server_def has_domain_def)
  show "tab_key (tab_tab (Toml_Table (Some k) True [] [] (map server_table (map site_section sites))) ! j) \<noteq> None
      \<and> config_parseServerTable env i (tab_tab (Toml_Table (Some k) True [] [] (map server_table (map site_section sites))) ! j)
        = Inr (Some (map (site_server env) sites ! j))" if "j < length (map (site_server env) sites)" for j i
    using that site_parse [of env "sites ! j"] assms(1) by (simp add: list_all_length, simp add: server_table_def)
qed (use inv_create in simp_all)

lemma site_file_read:
  assumes "list_all (site_ok env) sites" and "distinct (map site_name sites)" and "2 \<le> n" and "n < 2 ^ 63"
  shows "\<exists>c. config_parse env (site_file n sites) = Inr (Some c) \<and> config_getNumberOfThreads c = n
    \<and> list_inv (cfg_serverConfigs c) (map (site_server env) sites)"
proof -
  let ?kvs = "[\<lparr>kv_key = ''threads'', kv_val = dec n\<rparr>]" and ?servers = "map site_section sites"
  let ?t = "Toml_Table (Some ''server'') False ?kvs [] []" and ?st = "Toml_Table (Some ''servers'') True [] [] (map server_table ?servers)"
  let ?c = "\<lparr>cfg_daemon = 0, cfg_serverConfigs = list_create, cfg_logfile = None, cfg_loggingLevel = 0, cfg_threads = 0, cfg_backlog = 0\<rparr>"
  have doc: "toml_parse (env_strtod env) (lit (site_file n sites)) = Inr (Some (config_doc ?kvs ?servers))"
    using toml_parse_text [OF site_file_ok [OF assms(1,2)]] by (simp add: site_file_def)
  have tabs: "toml_table_in (config_doc ?kvs ?servers) ''server'' = Some ?t"
    "toml_table_in (config_doc ?kvs ?servers) ''servers'' = (if sites = [] then None else Some ?st)" "toml_table_ntab ?st = length sites"
    by (simp_all add: config_doc_def toml_table_in_def toml_table_ntab_def)
  have c: "\<exists>c. config_parseServer env (Some ?t) ?c = Inr c \<and> cfg_serverConfigs c = list_create \<and> cfg_threads c = n"
    using rtoi_dec [OF assms(4)] assms(3)
    by (simp add: config_parseServer_def config_parseString_def config_parseInt_def config_parseBool_def toml_raw_in_def)
  obtain l where "config_parseServers env (length sites) 0 (length sites) ?st list_create = Inr l" "list_inv l (map (site_server env) sites)"
    using site_doc_servers [OF assms(1,2)] by blast
  then show ?thesis using doc tabs c inv_create by (auto simp: config_parse_def Let_def config_getNumberOfThreads_def)
qed

lemma port_u16: "n < 65536 \<Longrightarrow> to_u16 (int n) = n"
  by (simp add: to_u16_def)

text \<open>C7. A configuration file that gives every server a name, a domain, a root directory that exists and a port is read, from its
  text to the servers: without an error or a fault, in the order of the file, with the number of threads, and every server with
  its domain, the real path of its root directory and its port. When no two servers have the domain and the port in common, a
  request for the domain and port of a server finds that server.\<close>

theorem config_file_to_servers:
  assumes "list_all (site_ok env) sites" and "distinct (map site_name sites)"
    and "distinct (map (\<lambda>s. (site_domain s, site_port s)) sites)" and "2 \<le> n" and "n < 2 ^ 63"
  shows "\<exists>c. config_parse env (site_file n sites) = Inr (Some c) \<and> config_getNumberOfThreads c = n
    \<and> list_inv (cfg_serverConfigs c) (map (site_server env) sites)
    \<and> (\<forall>s \<in> set sites. \<exists>c'. config_getServerConfigByDomain c (str (site_domain s)) (site_port s) = Inr (Some (site_server env s), c'))"
proof -
  obtain c where c: "config_parse env (site_file n sites) = Inr (Some c)" "config_getNumberOfThreads c = n"
    "list_inv (cfg_serverConfigs c) (map (site_server env) sites)"
    using site_file_read [OF assms(1,2,4,5)] by blast
  have "\<exists>c'. config_getServerConfigByDomain c (str (site_domain s)) (site_port s) = Inr (Some (site_server env s), c')" if s: "s \<in> set sites" for s
  proof -
    let ?P = "\<lambda>sc. site_port s = to_u16 (sc_port sc) \<and> domain_text sc = key_text (str (site_domain s))"
    have P: "?P (site_server env t) \<longleftrightarrow> (site_domain t, site_port t) = (site_domain s, site_port s)" if "t \<in> set sites" for t
      using assms(1) s that by (auto simp: list_all_iff site_ok_def site_server_def domain_text_def literal_NUL port_u16)
    obtain j where j: "j < length sites" "sites ! j = s" using s by (auto simp: in_set_conv_nth)
    have "\<not> ?P (site_server env (sites ! i))" if "i < j" for i
    proof -
      have "i < length sites" using that j(1) by simp
      moreover from this have "(site_domain (sites ! i), site_port (sites ! i)) \<noteq> (site_domain s, site_port s)"
        using assms(3) j that nth_eq_iff_index_eq [OF assms(3), of i j] by simp
      ultimately show ?thesis using P [of "sites ! i"] by simp
    qed
    then have "find ?P (map (site_server env) sites) = Some (site_server env s)"
      unfolding find_Some_iff using P [OF s] j by (intro exI [of _ j]) auto
    moreover have "\<forall>sc \<in> set (map (site_server env) sites). has_domain sc" by (auto simp: site_server_def has_domain_def)
    ultimately show ?thesis using config_lookups(1) [OF c(3), of "str (site_domain s)" "site_port s"] by auto
  qed
  then show ?thesis using c by blast
qed

theorem config_file_to_servers_witness:
  "\<exists>c c'. config_parse tiny_env (''[server]'' @ [LF] @ ''threads = 4'' @ [LF]
      @ ''[servers.a]'' @ [LF] @ ''domain = '' @ quoted ''x.org'' @ [LF] @ ''rootDirectory = '' @ quoted ''/srv/x'' @ [LF] @ ''port = 80'' @ [LF]
      @ ''[servers.b]'' @ [LF] @ ''domain = '' @ quoted ''y.org'' @ [LF] @ ''rootDirectory = '' @ quoted ''/srv/y'' @ [LF] @ ''port = 80'' @ [LF]) = Inr (Some c)
    \<and> config_getServerConfigByDomain c (str ''y.org'') 80
      = Inr (Some \<lparr>sc_name = Some (str ''b''), sc_domain = Some (str ''y.org''), sc_rootDirectory = Some (str ''/srv/y''), sc_port = 80,
             sc_enabled = -1, sc_dhparams = None, sc_sslContext = None, sc_directoryIndex = None\<rparr>, c')"
proof -
  let ?a = "\<lparr>site_name = ''a'', site_domain = ''x.org'', site_root = ''/srv/x'', site_port = 80\<rparr>"
  let ?b = "\<lparr>site_name = ''b'', site_domain = ''y.org'', site_root = ''/srv/y'', site_port = 80\<rparr>"
  have "bare_key ''a''" "bare_key ''b''" by code_simp+
  moreover have "literal ''x.org''" "literal ''y.org''" "literal ''/srv/x''" "literal ''/srv/y''" by code_simp+
  ultimately have "list_all (site_ok tiny_env) [?a, ?b]" by (simp add: site_ok_def tiny_env_def)
  from config_file_to_servers [OF this, of 4] obtain c c' where "config_parse tiny_env (site_file 4 [?a, ?b]) = Inr (Some c)"
    "config_getServerConfigByDomain c (str ''y.org'') 80 = Inr (Some (site_server tiny_env ?b), c')" by auto
  then show ?thesis
    by (simp add: site_file_def site_section_def config_text_def section_text_def value_text_def site_server_def tiny_env_def to_int16_def dec.simps)
qed

end
