(* ===== verification/Toml_Safety.thy ===== *)
theory Toml_Safety
  imports Toml_Document
begin

text \<open>
  Memory safety of the parser of \<open>Toml_Parser\<close> on arbitrary texts: the path to the current table always leads to a table, and the only
  access outside a buffer is the one in front of an empty element of an array.
\<close>

section \<open>Faults that can happen\<close>

definition mild :: "'a parse \<Rightarrow> bool" where
  "mild r \<longleftrightarrow> (\<forall>e. r = Inl e \<longrightarrow> e = Diverges \<or> e = OutOfBounds)"

lemma mild_simps [simp]: "mild (pok x)" "mild (perr e)" "mild (Inl Diverges)" "mild (Inl OutOfBounds)"
  by (simp_all add: mild_def pok_def perr_def)

lemma mild_pbnd [intro!]: "mild m \<Longrightarrow> (\<And>x. m = pok x \<Longrightarrow> mild (f x)) \<Longrightarrow> mild (pbnd m f)"
  by (auto simp: mild_def pbnd_def pok_def split: sum.splits)

lemma mild_if [intro!]: "(c \<Longrightarrow> mild a) \<Longrightarrow> (\<not> c \<Longrightarrow> mild b) \<Longrightarrow> mild (if c then a else b)"
  by simp

lemma scan_triple_mild [simp]: "mild (scan_triple l e h q n s)"
  by (induction l e h q n s rule: scan_triple.induct) auto

lemma scan_quoted_mild [simp]: "mild (scan_quoted l e h n s)"
  by (induction l e h n s rule: scan_quoted.induct) auto

lemma scan_string_mild [simp]: "mild (scan_string p l d)"
  unfolding scan_string_def Let_def by (auto split: option.split prod.split)

lemma make_token_mild [simp]: "mild (make_token s l d)"
  by (induction s l d rule: make_token.induct) auto

lemma token_mild [simp]: "mild (next_token t d)" "mild (EAT_TOKEN t ty)"
  by (auto simp: next_token_def EAT_TOKEN_def)

lemma normalize_key_mild [simp]: "mild (normalize_key t)"
  unfolding normalize_key_def Let_def by (auto split: option.split)

lemma create_mild [simp]:
  "mild (create_keyval_in_table tab t v)" "mild (create_keytable_in_table tab t)" "mild (create_keyarray_in_table tab t b)"
  unfolding create_keyval_in_table_def create_keytable_in_table_def create_keyarray_in_table_def e_key_exists_error_def
  by (auto split: found.split)

lemma lift_mild: "(\<And>e. m = Inl e \<Longrightarrow> e = OutOfBounds) \<Longrightarrow> mild (lift m)"
  by (auto simp: lift_def split: sum.split)

lemma rtoi_fault: "toml_rtoi (Some s) = Inl e \<Longrightarrow> e = OutOfBounds"
  by (auto simp: toml_rtoi_def Let_def split: if_splits option.splits prod.splits)

lemma rtod_fault: "toml_rtod strtod s = Inl e \<Longrightarrow> e = OutOfBounds"
  by (auto simp: toml_rtod_def Let_def split: if_splits option.splits prod.splits)

lemma valtype_mild [simp]: "mild (lift (valtype strtod v))"
  by (rule lift_mild) (auto simp: valtype_def bnd_def dest: rtoi_fault rtod_fault split: if_splits sum.splits)

lemma skip_newlines_mild [simp]: "mild (skip_newlines n t)"
  by (induction n t rule: skip_newlines.induct) auto

lemma element_mild [simp]: "mild (parse_string_element strtod t arr)" "mild (finish_array t arr)" "mild (finish_table t tab)"
  unfolding parse_string_element_def finish_array_def finish_table_def by auto

lemma keyarray_found [simp]: "create_keyarray_in_table tab t False \<noteq> pok (None, tab')"
proof
  assume a: "create_keyarray_in_table tab t False = pok (None, tab')"
  then obtain k where "normalize_key t = pok k" by (auto simp: create_keyarray_in_table_def pbnd_eq_ok)
  then show False using a by (cases "check_key tab k") (auto simp: create_keyarray_in_table_def e_key_exists_error_def)
qed

lemma parse_mild: "mild (parse_keyval strtod n t tab)" "mild (parse_table strtod n t tab)" "mild (parse_array strtod n t arr)"
proof (induction n arbitrary: t tab arr)
  case (Suc n)
  {
    case 1
    show ?case using Suc by (auto split: tokentype_t.split option.split prod.split)
  next
    case 2
    show ?case using Suc by (auto split: prod.split)
  next
    case 3
    show ?case using Suc by (auto split: tokentype_t.split prod.split simp del: skip_newlines.simps)
  }
qed simp_all

section \<open>Paths\<close>

fun path_ok :: "path_step list \<Rightarrow> toml_table_t \<Rightarrow> bool" where
  "path_ok [] t \<longleftrightarrow> True"
| "path_ok (In_Table i # path) t \<longleftrightarrow> i < length (tab_tab t) \<and> path_ok path (tab_tab t ! i)"
| "path_ok (In_Array i j # path) t \<longleftrightarrow>
     i < length (tab_arr t) \<and> j < length (arr_tab (tab_arr t ! i)) \<and> path_ok path (arr_tab (tab_arr t ! i) ! j)"

lemma set_sel [simp]: "tab_tab (set_tabs ts t) = ts" "tab_arr (set_tabs ts t) = tab_arr t" "tab_arr (set_arrs as t) = as" "tab_tab (set_arrs as t) = tab_tab t"
  by (simp_all add: set_tabs_def set_arrs_def)

lemma at_path_mild: "path_ok path t \<Longrightarrow> (\<And>u. mild (f u)) \<Longrightarrow> mild (at_path path f t)"
  by (induction path f t rule: at_path.induct) (auto simp: Let_def)

text \<open>What the operation leaves of the table at the end of the path is there afterwards.\<close>

lemma at_path_ok:
  "path_ok path t \<Longrightarrow> at_path path f t = pok (x, t') \<Longrightarrow> (\<And>u u'. f u = pok (x, u') \<Longrightarrow> path_ok rest u') \<Longrightarrow> path_ok (path @ rest) t'"
  by (induction path f t arbitrary: t' rule: at_path.induct) (auto simp: Let_def pbnd_eq_ok)

lemma find_index_less: "find_index P xs = Some i \<Longrightarrow> i < length xs"
  by (induction xs arbitrary: i) (auto split: if_split_asm)

lemma check_key_less:
  "check_key tab k = Found_Array i \<Longrightarrow> i < length (tab_arr tab)" "check_key tab k = Found_Table i \<Longrightarrow> i < length (tab_tab tab)"
  by (auto simp: check_key_def dest: find_index_less split: option.split_asm)

lemma walk_ok: "walk_tabpath keys t = pok (path, t') \<Longrightarrow> path_ok path t'"
  by (induction keys t arbitrary: path t' rule: walk_tabpath.induct)
    (auto simp: Let_def pbnd_eq_ok nth_append e_key_exists_error_def dest: check_key_less split: found.split_asm if_split_asm)

lemma walk_mild [simp]: "mild (walk_tabpath keys t)"
  by (induction keys t rule: walk_tabpath.induct) (auto simp: Let_def e_key_exists_error_def split: found.split)

lemma select_table_ok:
  assumes "select_table z tab = pok (stp, tab')"
  shows "path_ok [stp] tab'"
proof -
  obtain k where "normalize_key z = pok k" using assms by (auto simp: select_table_def create_keytable_in_table_def pbnd_eq_ok)
  then show ?thesis using assms
    by (cases "check_key tab k")
      (auto simp: select_table_def create_keytable_in_table_def e_key_exists_error_def dest: check_key_less split: if_split_asm)
qed

lemma keyarray_less:
  assumes "create_keyarray_in_table tab z b = pok (Some i, tab')"
  shows "i < length (tab_arr tab')"
proof -
  obtain k where "normalize_key z = pok k" using assms by (auto simp: create_keyarray_in_table_def pbnd_eq_ok)
  then show ?thesis using assms
    by (cases "check_key tab k") (auto simp: create_keyarray_in_table_def e_key_exists_error_def dest: check_key_less split: if_split_asm)
qed

lemma select_element_ok:
  assumes "select_element z tab = pok (stp, tab')"
  shows "path_ok [stp] tab'"
proof -
  obtain r tab1 where "create_keyarray_in_table tab z True = pok (r, tab1)" using assms by (auto simp: select_element_def pbnd_eq_ok)
  then show ?thesis using assms keyarray_less [of tab z True _ tab1]
    by (cases r) (auto simp: select_element_def Let_def split: if_split_asm)
qed

lemma select_mild [simp]: "mild (select_table z tab)" "mild (select_element z tab)"
  by (auto simp: select_table_def select_element_def Let_def split: option.split)

lemma fill_mild [simp]: "mild (fill_tabpath k l t)"
  by (induction k l t rule: fill_tabpath.induct) auto

lemma parse_select_mild: "mild (parse_select t root)"
  unfolding parse_select_def Let_def by (auto intro!: at_path_mild dest: walk_ok split: prod.split)

lemma parse_select_ok: "parse_select t root = pok (t', root', path) \<Longrightarrow> path_ok path root'"
  unfolding parse_select_def Let_def
  by (auto simp: pbnd_eq_ok split: if_split_asm
      intro!: at_path_ok [OF walk_ok] intro: select_table_ok select_element_ok)

lemma loop_mild: "path_ok cur root \<Longrightarrow> mild (toml_parse_loop strtod fuel n t root cur)"
proof (induction n arbitrary: t root cur)
  case (Suc n)
  have kv: "mild (at_path cur (parse_keyval strtod fuel t) root)" using Suc.prems parse_mild(1) by (intro at_path_mild)
  have "path_ok cur root'" if "at_path cur (parse_keyval strtod fuel t) root = pok (x, root')" for x root'
    using at_path_ok [OF Suc.prems that, of "[]"] by simp
  then show ?case using Suc kv parse_select_mild parse_select_ok by (auto split: tokentype_t.split prod.split)
qed simp



end
