(* ===== verification/Spec2Isabelle.thy ===== *)
theory Spec2Isabelle
  imports Message_Queue Gateway Main_Program Config_Files Toml_Safety
begin

text \<open>
  WSIC is a web server written in C. This development models its sources under \<^verbatim>\<open>src/src\<close> (and the TOML library
  \<^verbatim>\<open>src/includes/tomlc99\<close> it calls) and proves what makes them correct. File names below are relative to \<^verbatim>\<open>src/src\<close>.

  \<^bold>\<open>The program.\<close> The main process reads the command line and a TOML configuration, may become a daemon, and forks a server
  process that it supervises and restarts. The server process opens a listening socket per port, accepts connections, recognises
  TLS, selects the certificate by the indicated server name and pushes each connection to a blocking queue. Worker threads pop
  connections, parse the request, look up the server of the domain, resolve the path below its root directory and answer with a
  file, a redirection, an error page, or the output of a CGI process. Below that lie hand-written strings, lists, a hash table and
  URLs.

  \<^bold>\<open>How C is modelled.\<close> A computation returns \<open>Inr\<close> with its result or \<open>Inl\<close> with a fault: a null or dangling pointer that is
  dereferenced, an access outside a buffer, overflow of a signed integer, or a loop that does not end (\<open>Prelude\<close>, type \<open>exec\<close>,
  sequencing \<open>bnd\<close>). Buffers are byte lists with their allocated size, unsigned integers are words or reduced modulo their size,
  pointers that may be null are options. Operations that change a structure return it. Memory allocation always succeeds, and
  memory that was not yet written reads as zero. Loops whose number of rounds is bounded are recursive functions with a
  termination proof or a counter that is the loop variable of the C code; loops that may run forever (\<^verbatim>\<open>page_resolveTemplates\<close>,
  \<^verbatim>\<open>cgi_read\<close>, the TLS handshake, accepting) are partial functions in the option type, and the theorems say when they return. The
  explicit fuel of the releasing loops of the list, the hash table and the configuration is one more than the length of the
  list, which the lemmas show to be enough. The TOML parser takes fuel twice the length of the document and three, and
  \<open>toml_parse_fuel_irrelevant\<close> shows that more makes no difference; a document on which it still runs out is one on which the code
  never returns.

  \<^bold>\<open>Theories.\<close>
  \<^item> \<open>Prelude\<close>: faults, buffers, \<^verbatim>\<open>memcpy\<close>, \<^verbatim>\<open>strlen\<close>, \<^verbatim>\<open>atoi\<close>, decimal numbers, and the locale \<open>transition_system\<close> (an
    invariant of every reachable state).
  \<^item> \<open>CString\<close> (\<^verbatim>\<open>string/string.c\<close>): the growable strings; \<open>str_wf\<close> is the memory-safety invariant, \<open>pad\<close> the strings the
    program builds. \<open>string_ops_memory_safe\<close>.
  \<^item> \<open>CList\<close> (\<^verbatim>\<open>datastructures/list/list.c\<close>): the ring of nodes in an explicit store with its cursor; \<open>list_inv l vs\<close> relates it
    to the sequence it stands for, and the operations refine those of sequences. Locale \<open>sequential_access\<close>: reading by index from
    0 on yields everything in order; interpreted for the list and for the entries of the hash table.
  \<^item> \<open>Queue_Set\<close> (\<^verbatim>\<open>datastructures/queue/queue.c\<close>, \<^verbatim>\<open>set/set.c\<close>): clients of the list; locale \<open>fifo\<close>.
  \<^item> \<open>Message_Queue\<close> (\<^verbatim>\<open>datastructures/message-queue/message-queue.c\<close>): all interleavings of any number of threads as step
    relations per operation, with mutex and condition variable; mutual exclusion, order of delivery, no lost wake-up.
  \<^item> \<open>Hash_Table\<close> (\<^verbatim>\<open>datastructures/hash-table/hash-table.c\<close>): the table-driven hash is CRC-32; locale \<open>keyed_store\<close>: a lookup
    returns the last value written, interpreted for the table.
  \<^item> \<open>Url\<close>, \<open>Response_Codes\<close>, \<open>Http\<close> (\<^verbatim>\<open>url/url.c\<close>, \<^verbatim>\<open>http/\<close>): parsing a request never faults, accepts and rejects what it should,
    query strings survive parsing and printing, the text of a response.
  \<^item> \<open>Toml\<close>, \<open>Toml_Parser\<close>, \<open>Toml_Document\<close>, \<open>Toml_Safety\<close> (\<^verbatim>\<open>tomlc99/toml.c\<close>): documents and their values; the lexer and the parser, whose
    error routines (\<^verbatim>\<open>longjmp\<close>) are a second kind of outcome, and whose current table is a path from the root; what the parser makes
    of whole files, and that it is memory safe on every text but for one read. The lemmas on \<open>agree\<close> compare runs with different fuel, those on \<open>run\<close> follow the loop of \<^verbatim>\<open>toml_parse\<close> from line to line.
  \<^item> \<open>Config\<close>, \<open>Config_Files\<close> (\<^verbatim>\<open>config/config.c\<close>): reading a document into the configuration, looking servers up, releasing; and from
    the text of a file to the servers it describes.
  \<^item> \<open>Path\<close>, \<open>Resources\<close>, \<open>Www\<close>, \<open>Time\<close>, \<open>Logging\<close>: containment of resolved paths, files and MIME types, the substitution of
    templates as a refinement of a rewriting relation, clock arithmetic, the log line of a request.
  \<^item> \<open>Connection\<close> (\<^verbatim>\<open>connection/connection.c\<close>): reading lines and bodies from a socket or TLS connection. Locale \<open>poll_loop\<close>: a loop
    of at most six timeouts whose attempts keep an invariant; interpreted for both readers.
  \<^item> \<open>Cgi\<close> (\<^verbatim>\<open>cgi/cgi.c\<close>): both processes of the fork, the environment, the pipes.
  \<^item> \<open>Worker\<close> (\<^verbatim>\<open>worker/worker.c\<close>), \<open>Serving\<close>, \<open>Gateway\<close>: the whole handler of a connection, and what it does end to end, from the
    bytes that arrived on the socket to the bytes sent back, respectively to the environment of the executed script.
  \<^item> \<open>Server\<close> (\<^verbatim>\<open>server/server.c\<close>), \<open>Main_Program\<close> (\<^verbatim>\<open>main.c\<close>, \<^verbatim>\<open>daemon/daemon.c\<close>): listening, accepting, TLS; start and
    supervision, the latter as a step relation in which signals and the end of the child interleave with the loop.
  \<^item> This theory: the path from the configuration to the watched sockets and to the certificates.

  \<^bold>\<open>The outside world\<close> is a parameter: a type of states and functions for the calls of the operating system, the C library and
  OpenSSL. Theorems name what they need of it: \<open>stream_laws\<close> (bytes arrive in order, a read takes them from the front),
  \<open>socket_ready\<close> (data that has arrived can be read), \<open>send_laws\<close> and \<open>reads_keep\<close> (a successful send transmits a prefix, reading sends
  nothing), collected as \<open>peer_laws\<close>; \<open>pipe_laws\<close>; \<open>accept_laws\<close>, \<open>handshake_laws\<close>; \<open>listens\<close>; \<open>descriptor_laws\<close> (the lowest free descriptor).
  Each is shown to hold for a concrete scripted world, on which the witnesses are evaluated. The HTML pages and version
  text that the build generates, \<^verbatim>\<open>realpath\<close>, and whether \<^verbatim>\<open>strtod\<close> reads a text are parameters too.

  \<^bold>\<open>What is not modelled.\<close> Releasing a parsed document and reading one from an open file (\<^verbatim>\<open>toml_parse_file\<close>, which is not called); the texts
  printed for \<^verbatim>\<open>help\<close> and \<^verbatim>\<open>version\<close>; where the other components call the logger (only the logger itself is modelled);
  cancelling and joining threads; data races other than those of the message queue (the worker threads share the cursor of the
  list of servers without a lock); the vendored unit tests.

  \<^bold>\<open>Errors in the code.\<close> Several theorems state what the code does although it is not meant to: a path that contains
  \<^verbatim>\<open>{{path}}\<close> makes the worker loop, an empty file crashes the server, a sibling directory with the same prefix is served, a port
  after one that could not be bound is never polled, a daemon with one port gives up because descriptor 0 counts as a
  failure, a crash during shutdown starts a new server, an array that is not closed in the configuration file makes
  the program hang at its start.
\<close>

section \<open>Properties of the whole program\<close>



text \<open>C15. Every certificate of a configuration can be reached: when the servers have domains, a client that indicates the
  domain of a server with TLS gets the context of that very server.\<close>

theorem every_certificate_selectable:
  assumes "config_parse env s = Inr (Some c)"
  shows "\<exists>scs. list_inv (cfg_serverConfigs c) scs
    \<and> ((\<forall>sc \<in> set scs. has_domain sc) \<longrightarrow>
       (\<forall>sc \<in> set scs. \<forall>ctx. sc_sslContext sc = Some ctx \<longrightarrow>
          (\<exists>c'. server_handleServerNameIdentification (Some c) (Some (lit (domain_text sc))) = Inr (SSL_TLSEXT_ERR_OK ctx, Some c'))))"
proof -
  obtain scs where scs: "list_inv (cfg_serverConfigs c) scs" "tls_unique scs"
    using parse_servers_inv [OF assms, of "\<lambda>_. True"] by blast
  have "\<exists>c'. server_handleServerNameIdentification (Some c) (Some (lit (domain_text sc))) = Inr (SSL_TLSEXT_ERR_OK ctx, Some c')"
    if d: "\<forall>sc \<in> set scs. has_domain sc" and sc: "sc \<in> set scs" and ctx: "sc_sslContext sc = Some ctx" for sc ctx
  proof -
    let ?P = "\<lambda>s. domain_text s = domain_text sc \<and> sc_sslContext s \<noteq> None"
    have "NUL \<notin> set (domain_text sc)" using d sc by (auto simp: has_domain_def domain_text_def split: option.splits)
    moreover have "find ?P scs = Some sc" using tls_unique_find [OF scs(2) sc] ctx by simp
    ultimately show ?thesis using server_name_selects_certificate [OF scs(1) d, of "domain_text sc"] ctx by auto
  qed
  then show ?thesis using scs(1) by blast
qed

text \<open>A document with one server that has a certificate.\<close>

definition tls_servers :: "(string \<times> toml_keyval_t list) list" where
  "tls_servers = [(''a'', [\<lparr>kv_key = ''domain'', kv_val = [CHR 0x27, CHR ''x'', CHR 0x27]\<rparr>,
     \<lparr>kv_key = ''privateKey'', kv_val = [CHR 0x27, CHR ''k'', CHR 0x27]\<rparr>, \<lparr>kv_key = ''certificate'', kv_val = [CHR 0x27, CHR ''c'', CHR 0x27]\<rparr>])]"

definition tls_doc :: toml_table_t where
  "tls_doc = config_doc [] tls_servers"

definition tls_text :: string where
  "tls_text = config_text [] tls_servers"

lemmas tls_doc_simps = tls_doc_def tls_servers_def config_doc_def server_table_def

definition tls_server :: server_config_t where
  "tls_server = tiny_server\<lparr>sc_port := 0, sc_sslContext := Some \<lparr>ctx_address = 0, ctx_privateKey = ''k'', ctx_certificate = ''c'',
     ctx_min_proto_version = ''TLS1_2'', ctx_curves_list = CONFIG_TLS_DEFAULT_ELLIPTIC_CURVES, ctx_verify_none = False,
     ctx_cipher_list = CONFIG_TLS_DEFAULT_TLS_1_2_CIPHER_SUITE, ctx_ciphersuites = Some CONFIG_TLS_DEFAULT_TLS_1_3_CIPHER_SUITE\<rparr>\<rparr>"

lemma tls_parse_server:
  "config_parseServerTable tiny_env 0 (tab_tab (tab_tab tls_doc ! 1) ! 0) = Inr (Some tls_server)"
proof -
  have "toml_rtos (Some [CHR 0x27, CHR ''x'', CHR 0x27]) = Some (lit ''x'')" "toml_rtos (Some [CHR 0x27, CHR ''k'', CHR 0x27]) = Some (lit ''k'')"
    "toml_rtos (Some [CHR 0x27, CHR ''c'', CHR 0x27]) = Some (lit ''c'')" by code_simp+
  then show ?thesis
    by (simp add: tls_doc_simps tls_server_def tiny_env_def tiny_server_def config_parseServerTable_def config_parseServerBasics_def Let_def
        toml_table_key_def config_parseString_def toml_raw_in_def fromBuffer_lit config_parseServerRoot_def config_parseServerPort_def
        config_parseInt_def config_parseBool_def config_parseArray_def toml_array_in_def config_parseServerTLS_def config_setupContext_def
        config_parseServerDH_def)
qed

lemma tls_parse: "\<exists>c. config_parse tiny_env tls_text = Inr (Some c) \<and> list_inv (cfg_serverConfigs c) [tls_server]"
proof -
  let ?c = "\<lparr>cfg_daemon = 0, cfg_serverConfigs = list_create, cfg_logfile = None, cfg_loggingLevel = 0, cfg_threads = 0, cfg_backlog = 0\<rparr>"
  let ?st = "tab_tab tls_doc ! 1"
  obtain l where l: "list_addValue list_create tls_server = Inr l" "list_inv l [tls_server]"
    using inv_add [OF inv_create, of tls_server] by auto
  have t: "toml_table_in tls_doc ''server'' = Some (tab_tab tls_doc ! 0)" "toml_table_in tls_doc ''servers'' = Some ?st"
    "toml_key_in ?st 0 = Some ''a''" "toml_table_in ?st ''a'' = Some (tab_tab ?st ! 0)" "toml_table_ntab ?st = 1"
    by (simp_all add: tls_doc_simps toml_table_in_def toml_key_in_def toml_table_ntab_def)
  have "config_ok [] tls_servers" by code_simp
  then have p: "toml_parse (env_strtod tiny_env) (lit tls_text) = Inr (Some tls_doc)" by (simp add: tls_text_def tls_doc_def toml_parse_text)
  have "\<exists>c. config_parseServer tiny_env (Some (tab_tab tls_doc ! 0)) ?c = Inr c \<and> cfg_serverConfigs c = list_create"
    by (simp add: tls_doc_simps tiny_env_def config_parseServer_def config_parseString_def config_parseInt_def config_parseBool_def toml_raw_in_def)
  moreover have "config_parseServers tiny_env 1 0 1 ?st list_create = Inr l"
    using t l(1) tls_parse_server by (simp add: list_getValue_def list_create_def)
  ultimately show ?thesis using t p l(2) by (auto simp: config_parse_def Let_def)
qed

theorem every_certificate_selectable_witness:
  "\<exists>c c' ctx. config_parse tiny_env tls_text = Inr (Some c) \<and> sc_sslContext tls_server = Some ctx
    \<and> server_handleServerNameIdentification (Some c) (Some (lit ''x'')) = Inr (SSL_TLSEXT_ERR_OK ctx, Some c')"
proof -
  obtain c where c: "config_parse tiny_env tls_text = Inr (Some c)" "list_inv (cfg_serverConfigs c) [tls_server]" using tls_parse by blast
  obtain scs where s: "list_inv (cfg_serverConfigs c) scs"
    "(\<forall>sc \<in> set scs. has_domain sc) \<longrightarrow>
       (\<forall>sc \<in> set scs. \<forall>ctx. sc_sslContext sc = Some ctx \<longrightarrow>
          (\<exists>c'. server_handleServerNameIdentification (Some c) (Some (lit (domain_text sc))) = Inr (SSL_TLSEXT_ERR_OK ctx, Some c')))"
    using every_certificate_selectable [OF c(1)] by blast
  have "scs = [tls_server]" using list_inv_unique [OF s(1) c(2)] .
  moreover obtain ctx where "sc_sslContext tls_server = Some ctx" by (simp add: tls_server_def)
  moreover have "has_domain tls_server" "domain_text tls_server = ''x''"
    by (simp_all add: tls_server_def tiny_server_def has_domain_def domain_text_def)
  ultimately show ?thesis using s(2) c(1) by auto
qed

end
